(* ===== verification/Prelude.thy ===== *)
theory Prelude
  imports Main "HOL-Library.Word" "HOL-Library.Monad_Syntax" "HOL-Library.Sublist"
begin

text \<open>
  Shared vocabulary of the development: the machine integer types of the Rust sources, the
  panic monad, the operations of the Rust standard library the sources use (indexing, slicing,
  \<open>Vec::splice\<close>, checked arithmetic, number parsing and printing, UTF-8), and the generic list
  lemmas every component relies on.

  Conventions.
  \<^item> A computation that can panic has type \<open>'a panics\<close>; \<open>None\<close> is the panic (for a loop also
    \<open>does not return\<close>), \<open>Some x\<close> is a normal return of \<open>x\<close>.  The \<open>do\<close> notation propagates it.
  \<^item> A Rust \<open>str\<close>/\<open>String\<close> is the list of its UTF-8 bytes, a \<^typ>\<open>string\<close>: \<open>length\<close> is \<open>str::len\<close>.
  \<^item> Fixed-width integers are words and wrap, as in the release profile of \<open>Cargo.toml\<close>
    (no \<open>overflow-checks\<close>).  \<open>usize\<close> values that count elements held in memory are \<^typ>\<open>nat\<close>.
\<close>

type_synonym u8 = "8 word"
type_synonym u32 = "32 word"
type_synonym u64 = "64 word"
type_synonym i32 = "32 word"
type_synonym i64 = "64 word"

text \<open>An \<open>f64\<close> is its IEEE-754 binary64 bit pattern.\<close>
type_synonym f64 = "64 word"

type_synonym 'a panics = "'a option"

named_theorems wf_simps \<open>unfolding rules of the well-formedness predicates\<close>
named_theorems frame_simps \<open>fields an operation leaves unchanged\<close>

section \<open>Vectors\<close>

text \<open>\<open>xs[i]\<close>\<close>
definition vec_index :: "'a list \<Rightarrow> nat \<Rightarrow> 'a panics" where
  "vec_index xs i = (if i < length xs then Some (xs ! i) else None)"

text \<open>\<open>xs[i] = v\<close>\<close>
definition vec_set :: "'a list \<Rightarrow> nat \<Rightarrow> 'a \<Rightarrow> 'a list panics" where
  "vec_set xs i v = (if i < length xs then Some (xs[i := v]) else None)"

text \<open>\<open>&xs[a..b]\<close>\<close>
definition vec_slice :: "'a list \<Rightarrow> nat \<Rightarrow> nat \<Rightarrow> 'a list panics" where
  "vec_slice xs a b = (if a \<le> b \<and> b \<le> length xs then Some (drop a (take b xs)) else None)"

text \<open>\<open>xs.splice(a..b, ys)\<close>\<close>
definition vec_splice :: "'a list \<Rightarrow> nat \<Rightarrow> nat \<Rightarrow> 'a list \<Rightarrow> 'a list panics" where
  "vec_splice xs a b ys = (if a \<le> b \<and> b \<le> length xs then Some (take a xs @ ys @ drop b xs) else None)"

lemma vec_index_Some [simp]: "i < length xs \<Longrightarrow> vec_index xs i = Some (xs ! i)"
  by (simp add: vec_index_def)

lemma vec_index_eq_Some: "vec_index xs i = Some x \<longleftrightarrow> i < length xs \<and> xs ! i = x"
  by (simp add: vec_index_def)

lemma vec_index_eq_None: "vec_index xs i = None \<longleftrightarrow> length xs \<le> i"
  by (simp add: vec_index_def not_less)

lemma vec_set_Some [simp]: "i < length xs \<Longrightarrow> vec_set xs i v = Some (xs[i := v])"
  by (simp add: vec_set_def)

lemma vec_slice_Some [simp]:
  "a \<le> b \<Longrightarrow> b \<le> length xs \<Longrightarrow> vec_slice xs a b = Some (drop a (take b xs))"
  by (simp add: vec_slice_def)

lemma vec_splice_Some [simp]:
  "a \<le> b \<Longrightarrow> b \<le> length xs \<Longrightarrow> vec_splice xs a b ys = Some (take a xs @ ys @ drop b xs)"
  by (simp add: vec_splice_def)

section \<open>Loops in the panic monad\<close>

text \<open>\<open>iter().map(f).collect()\<close> where the body can panic.\<close>
primrec mapO :: "('a \<Rightarrow> 'b panics) \<Rightarrow> 'a list \<Rightarrow> 'b list panics" where
  "mapO f [] = Some []"
| "mapO f (x # xs) = do { y \<leftarrow> f x; ys \<leftarrow> mapO f xs; Some (y # ys) }"

text \<open>\<open>for x in xs { s = f(s, x) }\<close> where the body can panic.\<close>
primrec foldO :: "('s \<Rightarrow> 'a \<Rightarrow> 's panics) \<Rightarrow> 's \<Rightarrow> 'a list \<Rightarrow> 's panics" where
  "foldO f s [] = Some s"
| "foldO f s (x # xs) = do { s' \<leftarrow> f s x; foldO f s' xs }"

lemma mapO_Some: "(\<And>x. x \<in> set xs \<Longrightarrow> f x = Some (g x)) \<Longrightarrow> mapO f xs = Some (map g xs)"
  by (induction xs) auto

lemma mapO_length: "mapO f xs = Some ys \<Longrightarrow> length ys = length xs"
  by (induction xs arbitrary: ys) (auto split: Option.bind_splits)

lemma mapO_nth:
  "mapO f xs = Some ys \<Longrightarrow> i < length xs \<Longrightarrow> f (xs ! i) = Some (ys ! i)"
  by (induction xs arbitrary: ys i) (auto simp: nth_Cons split: Option.bind_splits nat.split)

lemma foldO_append: "foldO f s (xs @ ys) = do { s' \<leftarrow> foldO f s xs; foldO f s' ys }"
  by (induction xs arbitrary: s) (auto split: Option.bind_split)

text \<open>An invariant kept by the body, which never panics under it, survives the loop.\<close>
lemma foldO_inv:
  assumes "P s"
    and "\<And>s x. P s \<Longrightarrow> x \<in> set xs \<Longrightarrow> \<exists>s'. f s x = Some s' \<and> P s'"
  shows "\<exists>s'. foldO f s xs = Some s' \<and> P s'"
  using assms
proof (induction xs arbitrary: s)
  case Nil
  then show ?case by simp
next
  case (Cons x xs)
  from Cons.prems obtain s' where s': "f s x = Some s'" "P s'" by fastforce
  from s'(2) Cons.prems(2) have "\<exists>s''. foldO f s' xs = Some s'' \<and> P s''"
    by (intro Cons.IH) auto
  with s'(1) show ?case by simp
qed

text \<open>\<open>iter().all(f)\<close>, which stops at the first failure, and \<open>filter(f).collect()\<close>.\<close>
primrec allO :: "('a \<Rightarrow> bool panics) \<Rightarrow> 'a list \<Rightarrow> bool panics" where
  "allO f [] = Some True"
| "allO f (x # xs) = do { b \<leftarrow> f x; if b then allO f xs else Some False }"

primrec filterO :: "('a \<Rightarrow> bool panics) \<Rightarrow> 'a list \<Rightarrow> 'a list panics" where
  "filterO f [] = Some []"
| "filterO f (x # xs) = do { b \<leftarrow> f x; ys \<leftarrow> filterO f xs; Some (if b then x # ys else ys) }"

lemma allO_Some: "(\<And>x. x \<in> set xs \<Longrightarrow> f x = Some (g x)) \<Longrightarrow> allO f xs = Some (list_all g xs)"
  by (induction xs) auto

lemma filterO_Some: "(\<And>x. x \<in> set xs \<Longrightarrow> f x = Some (g x)) \<Longrightarrow> filterO f xs = Some (filter g xs)"
  by (induction xs) auto

section \<open>Checked arithmetic\<close>

text \<open>\<open>u64::checked_sub\<close>\<close>
definition checked_sub :: "u64 \<Rightarrow> u64 \<Rightarrow> u64 option" where
  "checked_sub a b = (if b \<le> a then Some (a - b) else None)"

text \<open>\<open>u64::checked_mul\<close>\<close>
definition checked_mul :: "u64 \<Rightarrow> u64 \<Rightarrow> u64 option" where
  "checked_mul a b = (if unat a * unat b < 2 ^ 64 then Some (a * b) else None)"

lemma checked_sub_eq_Some:
  "checked_sub a b = Some d \<longleftrightarrow> unat b \<le> unat a \<and> unat d = unat a - unat b"
proof -
  have "unat (a - b) = unat a - unat b" if "b \<le> a" using that by (rule unat_sub)
  then show ?thesis
    by (auto simp: checked_sub_def word_le_nat_alt intro: word_unat_eq_iff [THEN iffD2])
qed

lemma checked_mul_eq_Some:
  "checked_mul a b = Some d \<longleftrightarrow> unat a * unat b < 2 ^ 64 \<and> unat d = unat a * unat b"
proof -
  have "unat (a * b) = unat a * unat b" if "unat a * unat b < 2 ^ 64"
    using that by (simp add: unat_word_ariths)
  then show ?thesis
    by (auto simp: checked_mul_def intro: word_unat_eq_iff [THEN iffD2])
qed

lemma unat_of_nat_u32 [simp]: "n < 2 ^ 32 \<Longrightarrow> unat (of_nat n :: u32) = n"
  by (simp add: unat_of_nat take_bit_nat_eq_self)

lemma unat_u8_lt [simp]: "unat (b :: u8) < 256"
  using unsigned_less [of b] by simp

section \<open>Byte strings\<close>

definition byte :: "char \<Rightarrow> nat" where
  "byte c = of_char c"

text \<open>The bytes of a literal \<open>b"..."\<close>.\<close>
definition bytes_of :: "string \<Rightarrow> u8 list" where
  "bytes_of s = map (\<lambda>c. of_nat (byte c)) s"

text \<open>\<open>str::contains\<close>, \<open>str::starts_with\<close> and \<open>str::strip_suffix\<close>\<close>
definition str_contains :: "string \<Rightarrow> string \<Rightarrow> bool" where
  "str_contains s needle = sublist needle s"

definition starts_with :: "string \<Rightarrow> string \<Rightarrow> bool" where
  "starts_with s p = prefix p s"

definition strip_suffix :: "string \<Rightarrow> string \<Rightarrow> string option" where
  "strip_suffix s p = (if suffix p s then Some (take (length s - length p) s) else None)"

lemma strip_suffix_eq_Some: "strip_suffix s p = Some r \<longleftrightarrow> s = r @ p"
  by (auto simp: strip_suffix_def suffix_def)

subsection \<open>UTF-8\<close>

definition is_cont :: "char \<Rightarrow> bool" where
  "is_cont c \<longleftrightarrow> 0x80 \<le> byte c \<and> byte c \<le> 0xBF"

text \<open>Well-formed UTF-8 (\<open>std::str::from_utf8\<close> succeeds): Unicode's table of byte sequences.\<close>
fun utf8_valid :: "string \<Rightarrow> bool" where
  "utf8_valid [] = True"
| "utf8_valid (a # bs) =
    (if byte a < 0x80 then utf8_valid bs
     else if 0xC2 \<le> byte a \<and> byte a \<le> 0xDF then
       (case bs of b # cs \<Rightarrow> is_cont b \<and> utf8_valid cs | [] \<Rightarrow> False)
     else if 0xE0 \<le> byte a \<and> byte a \<le> 0xEF then
       (case bs of b # c # ds \<Rightarrow>
          is_cont b \<and> is_cont c
          \<and> (byte a = 0xE0 \<longrightarrow> 0xA0 \<le> byte b) \<and> (byte a = 0xED \<longrightarrow> byte b \<le> 0x9F)
          \<and> utf8_valid ds
        | _ \<Rightarrow> False)
     else if 0xF0 \<le> byte a \<and> byte a \<le> 0xF4 then
       (case bs of b # c # d # es \<Rightarrow>
          is_cont b \<and> is_cont c \<and> is_cont d
          \<and> (byte a = 0xF0 \<longrightarrow> 0x90 \<le> byte b) \<and> (byte a = 0xF4 \<longrightarrow> byte b \<le> 0x8F)
          \<and> utf8_valid es
        | _ \<Rightarrow> False)
     else False)"

declare utf8_valid.simps(2) [simp del]

lemma utf8_valid_ascii: "(\<And>c. c \<in> set s \<Longrightarrow> byte c < 0x80) \<Longrightarrow> utf8_valid s"
  by (induction s) (simp_all add: utf8_valid.simps(2))

lemma utf8_valid_lead: "utf8_valid (a # bs) \<Longrightarrow> \<not> is_cont a"
  by (auto simp: utf8_valid.simps(2) is_cont_def split: if_splits)

lemma utf8_valid_append: "utf8_valid a \<Longrightarrow> utf8_valid (a @ b) \<longleftrightarrow> utf8_valid b"
proof (induction a rule: utf8_valid.induct)
  case (2 c cs)
  then show ?case
    by (auto simp: utf8_valid.simps(2) [of c] split: if_splits list.splits)
qed simp

text \<open>A \<open>char\<close> of Rust is represented by its UTF-8 bytes; \<open>chars\<close> cuts a string at the
  boundaries its lead bytes announce.\<close>
type_synonym rchar = string

definition utf8_width :: "char \<Rightarrow> nat" where
  "utf8_width c = (if byte c < 0xC0 then 1 else if byte c < 0xE0 then 2
                   else if byte c < 0xF0 then 3 else 4)"

fun chars :: "string \<Rightarrow> rchar list" where
  "chars [] = []"
| "chars (b # bs) = (b # take (utf8_width b - 1) bs) # chars (drop (utf8_width b - 1) bs)"

lemma concat_chars [simp]: "concat (chars s) = s"
  by (induction s rule: chars.induct) auto

lemma chars_ne: "[] \<notin> set (chars s)"
  by (induction s rule: chars.induct) auto

lemma chars_eq_Nil [simp]: "chars s = [] \<longleftrightarrow> s = []"
  by (cases s) auto

text \<open>\<open>str::is_char_boundary\<close> and the slices \<open>&s[..n]\<close>, \<open>&s[n..]\<close>, which panic off a boundary.\<close>
definition is_char_boundary :: "string \<Rightarrow> nat \<Rightarrow> bool" where
  "is_char_boundary s n \<longleftrightarrow> n = 0 \<or> n = length s \<or> n < length s \<and> \<not> is_cont (s ! n)"

definition str_to :: "string \<Rightarrow> nat \<Rightarrow> string panics" where
  "str_to s n = (if is_char_boundary s n then Some (take n s) else None)"

definition str_from :: "string \<Rightarrow> nat \<Rightarrow> string panics" where
  "str_from s n = (if is_char_boundary s n then Some (drop n s) else None)"

text \<open>\<open>char::is_whitespace\<close>: Unicode \<open>White_Space\<close>, by the UTF-8 bytes of each character.\<close>
definition is_whitespace :: "rchar \<Rightarrow> bool" where
  "is_whitespace c \<longleftrightarrow> map byte c \<in> set
     ([[n]. n \<leftarrow> [0x09, 0x0A, 0x0B, 0x0C, 0x0D, 0x20]] @ [[0xC2, 0x85], [0xC2, 0xA0], [0xE1, 0x9A, 0x80]]
      @ [[0xE2, 0x80, n]. n \<leftarrow> [0x80..<0x8B]]
      @ [[0xE2, 0x80, 0xA8], [0xE2, 0x80, 0xA9], [0xE2, 0x80, 0xAF], [0xE2, 0x81, 0x9F], [0xE3, 0x80, 0x80]])"

text \<open>Cutting well-formed UTF-8 gives well-formed characters.\<close>
lemma utf8_valid_head:
  assumes "utf8_valid (b # bs)"
  shows "utf8_valid (b # take (utf8_width b - 1) bs) \<and> utf8_valid (drop (utf8_width b - 1) bs)"
proof -
  have "utf8_valid (b # take (utf8_width b - 1) bs)"
    using assms
    by (auto simp: utf8_valid.simps(2) utf8_width_def is_cont_def numeral_eq_Suc take_Cons' split: if_splits list.splits)
  then show ?thesis
    using assms utf8_valid_append [of "b # take (utf8_width b - 1) bs" "drop (utf8_width b - 1) bs"] by simp
qed

lemma utf8_valid_chars: "utf8_valid s \<Longrightarrow> c \<in> set (chars s) \<Longrightarrow> utf8_valid c"
  by (induction s rule: chars.induct) (auto dest: utf8_valid_head)

lemma utf8_valid_width:
  "utf8_valid (b # bs) \<Longrightarrow> utf8_width b - 1 \<le> length bs"
  by (auto simp: utf8_valid.simps(2) utf8_width_def split: if_splits list.splits)

lemma chars_append: "utf8_valid a \<Longrightarrow> chars (a @ b) = chars a @ chars b"
proof (induction a rule: chars.induct)
  case (2 c cs)
  have w: "utf8_width c - 1 \<le> length cs" using 2(2) by (rule utf8_valid_width)
  have "utf8_valid (drop (utf8_width c - 1) cs)" using utf8_valid_head [OF 2(2)] by blast
  with 2(1) w show ?case by simp
qed simp

subsection \<open>Numbers\<close>

text \<open>\<open>char::to_digit\<close> for radix 10 and 16.\<close>
definition to_digit :: "nat \<Rightarrow> char \<Rightarrow> nat option" where
  "to_digit radix c =
    (let d = (if 48 \<le> byte c \<and> byte c \<le> 57 then byte c - 48
              else if 97 \<le> byte c \<and> byte c \<le> 122 then byte c - 87
              else if 65 \<le> byte c \<and> byte c \<le> 90 then byte c - 55
              else radix)
     in if d < radix then Some d else None)"

fun digits_val :: "nat \<Rightarrow> nat \<Rightarrow> string \<Rightarrow> nat option" where
  "digits_val radix acc [] = Some acc"
| "digits_val radix acc (c # cs) =
    do { d \<leftarrow> to_digit radix c; digits_val radix (acc * radix + d) cs }"

text \<open>\<open>from_str_radix\<close> of an unsigned type with maximum \<open>hi - 1\<close>: one optional \<open>+\<close> sign, at least
  one digit, an error on overflow.\<close>
definition from_str_radix_unsigned :: "nat \<Rightarrow> nat \<Rightarrow> string \<Rightarrow> nat option" where
  "from_str_radix_unsigned hi radix s =
    (let ds = (case s of [] \<Rightarrow> [] | c # cs \<Rightarrow> if c = CHR ''+'' then cs else s)
     in if ds = [] then None
        else do { n \<leftarrow> digits_val radix 0 ds; if n < hi then Some n else None })"

text \<open>\<open>str::parse::<u64>\<close>\<close>
definition parse_u64 :: "string \<Rightarrow> u64 option" where
  "parse_u64 s = map_option of_nat (from_str_radix_unsigned (2 ^ 64) 10 s)"

text \<open>\<open>str::parse::<i64>\<close>\<close>
definition parse_i64 :: "string \<Rightarrow> i64 option" where
  "parse_i64 s =
    (if s \<noteq> [] \<and> hd s = CHR ''-''
     then if tl s = [] then None
          else do { n \<leftarrow> digits_val 10 0 (tl s); if n \<le> 2 ^ 63 then Some (- of_nat n) else None }
     else map_option of_nat (from_str_radix_unsigned (2 ^ 63) 10 s))"

text \<open>Decimal \<open>Display\<close> of unsigned and signed integers.\<close>
fun nat_to_string :: "nat \<Rightarrow> string" where
  "nat_to_string n =
    (if n < 10 then [char_of (48 + n)] else nat_to_string (n div 10) @ [char_of (48 + n mod 10)])"

declare nat_to_string.simps [simp del]

definition int_to_string :: "int \<Rightarrow> string" where
  "int_to_string i = (if i < 0 then CHR ''-'' # nat_to_string (nat (- i)) else nat_to_string (nat i))"

section \<open>Prefix sums and ragged rows\<close>

text \<open>The offsets of a compressed-sparse-row layout whose rows have the given lengths.\<close>
fun prefix_sums :: "nat \<Rightarrow> nat list \<Rightarrow> nat list" where
  "prefix_sums a [] = [a]"
| "prefix_sums a (n # ns) = a # prefix_sums (a + n) ns"

lemma length_prefix_sums [simp]: "length (prefix_sums a ns) = Suc (length ns)"
  by (induction ns arbitrary: a) auto

lemma nth_prefix_sums [simp]:
  "i \<le> length ns \<Longrightarrow> prefix_sums a ns ! i = a + sum_list (take i ns)"
proof (induction ns arbitrary: a i)
  case Nil
  then show ?case by simp
next
  case (Cons n ns)
  then show ?case by (cases i) auto
qed

lemma prefix_sums_snoc: "prefix_sums a (ns @ [n]) = prefix_sums a ns @ [a + sum_list ns + n]"
  by (induction ns arbitrary: a) auto

lemma sum_list_take_le: "sum_list (take i ns) \<le> sum_list (ns :: nat list)"
proof -
  have "sum_list ns = sum_list (take i ns) + sum_list (drop i ns)"
    by (metis append_take_drop_id sum_list_append)
  then show ?thesis by simp
qed

lemma sum_list_take_Suc: "i < length ns \<Longrightarrow> sum_list (take (Suc i) ns) = sum_list (take i ns) + (ns ! i :: nat)"
  by (simp add: take_Suc_conv_app_nth)

lemma sum_list_take_mono: "sum_list (take i ns) \<le> sum_list (take (Suc i) (ns :: nat list))"
  by (cases "i < length ns") (simp_all add: sum_list_take_Suc)

lemma take_update_le: "j \<le> i \<Longrightarrow> take j (xs[i := v]) = take j xs"
  by simp

lemma sum_list_take_update:
  assumes "i < j" "i < length ns"
  shows "sum_list (take j (ns[i := v])) + ns ! i = sum_list (take j ns) + (v :: nat)"
  using assms
proof (induction ns arbitrary: i j)
  case Nil
  then show ?case by simp
next
  case (Cons n ns)
  show ?case
  proof (cases i)
    case 0
    with Cons.prems show ?thesis by (cases j) auto
  next
    case (Suc i')
    with Cons.prems obtain j' where j: "j = Suc j'" "i' < j'" "i' < length ns"
      by (cases j) auto
    from Cons.IH [OF j(2,3)] Suc j(1) show ?thesis by simp
  qed
qed

text \<open>Row \<open>i\<close> of the concatenation is the slice between offsets \<open>i\<close> and \<open>i + 1\<close>.\<close>
lemma slice_concat:
  "i < length xss \<Longrightarrow>
   drop (sum_list (take i (map length xss))) (take (sum_list (take (Suc i) (map length xss))) (concat xss))
     = xss ! i"
proof (induction xss arbitrary: i)
  case Nil
  then show ?case by simp
next
  case (Cons xs xss)
  then show ?case by (cases i) auto
qed

text \<open>Splicing new contents between the two offsets replaces the row.\<close>
lemma splice_concat:
  "i < length xss \<Longrightarrow>
   take (sum_list (take i (map length xss))) (concat xss) @ ys
     @ drop (sum_list (take (Suc i) (map length xss))) (concat xss)
   = concat (xss[i := ys])"
proof (induction xss arbitrary: i)
  case Nil
  then show ?case by simp
next
  case (Cons xs xss)
  then show ?case by (cases i) auto
qed

lemma length_concat_rows: "length (concat xss) = sum_list (map length xss)"
  by (simp add: length_concat)

section \<open>Positions in a list\<close>

text \<open>The index of the first occurrence, as a map: the content of a Rust hash map from keys to
  the position at which they were pushed.\<close>
fun index_of :: "'a list \<Rightarrow> 'a \<Rightarrow> nat option" where
  "index_of [] y = None"
| "index_of (x # xs) y = (if x = y then Some 0 else map_option Suc (index_of xs y))"

lemma index_of_None: "index_of xs y = None \<longleftrightarrow> y \<notin> set xs"
  by (induction xs) auto

lemma index_of_SomeD: "index_of xs y = Some i \<Longrightarrow> i < length xs \<and> xs ! i = y"
  by (induction xs arbitrary: i) (auto split: if_splits)

lemma index_of_nth: "distinct xs \<Longrightarrow> i < length xs \<Longrightarrow> index_of xs (xs ! i) = Some i"
proof (induction xs arbitrary: i)
  case Nil
  then show ?case by simp
next
  case (Cons x xs)
  then show ?case by (cases i) auto
qed

lemma index_of_Some:
  "distinct xs \<Longrightarrow> index_of xs y = Some i \<longleftrightarrow> i < length xs \<and> xs ! i = y"
  using index_of_nth index_of_SomeD by metis

lemma index_of_snoc:
  "index_of (xs @ [y]) z = (case index_of xs z of Some i \<Rightarrow> Some i
                            | None \<Rightarrow> if z = y then Some (length xs) else None)"
  by (induction xs) (simp_all split: option.split)

lemma index_of_snoc_fresh: "y \<notin> set xs \<Longrightarrow> index_of (xs @ [y]) = (index_of xs)(y \<mapsto> length xs)"
  by (rule ext) (auto simp: index_of_snoc index_of_None [symmetric] split: option.split)

section \<open>Writing one value at many positions\<close>

definition update_all :: "nat list \<Rightarrow> 'a \<Rightarrow> 'a list \<Rightarrow> 'a list" where
  "update_all is v xs = fold (\<lambda>i xs. xs[i := v]) is xs"

lemma update_all_simps [simp]:
  "update_all [] v xs = xs"
  "update_all (i # is) v xs = update_all is v (xs[i := v])"
  by (simp_all add: update_all_def)

lemma length_update_all [simp]: "length (update_all is v xs) = length xs"
  by (induction "is" arbitrary: xs) auto

lemma nth_update_all:
  "j < length xs \<Longrightarrow> update_all is v xs ! j = (if j \<in> set is then v else xs ! j)"
  by (induction "is" arbitrary: xs) (auto simp: nth_list_update)

end
