(* ===== verification/Types.thy ===== *)
theory Types
  imports Prelude
begin

text \<open>
  \<open>src/store/types.rs\<close>: trace and span identifiers, the hexadecimal text form of a trace id
  that every route of the Read API parses, and attribute values.
\<close>

section \<open>Identifiers\<close>

datatype trace_id = TraceId (tid_bytes: "u8 list")
datatype span_id = SpanId (sid_bytes: "u8 list")

text \<open>The Rust types are the fixed arrays \<open>[u8; 16]\<close> and \<open>[u8; 8]\<close>.\<close>
definition trace_id_wf :: "trace_id \<Rightarrow> bool" where
  [wf_simps]: "trace_id_wf t \<longleftrightarrow> length (tid_bytes t) = 16"

definition span_id_wf :: "span_id \<Rightarrow> bool" where
  [wf_simps]: "span_id_wf s \<longleftrightarrow> length (sid_bytes s) = 8"

section \<open>Hexadecimal form\<close>

definition hex_digit :: "nat \<Rightarrow> char" where
  "hex_digit d = (if d < 10 then char_of (48 + d) else char_of (87 + d))"

text \<open>\<open>format!("{b:02x}")\<close>\<close>
definition fmt_02x :: "u8 \<Rightarrow> string" where
  "fmt_02x b = [hex_digit (unat b div 16), hex_digit (unat b mod 16)]"

definition to_hex :: "trace_id \<Rightarrow> string" where
  "to_hex t = concat (map fmt_02x (tid_bytes t))"

fun from_hex_chunks :: "string \<Rightarrow> u8 list option" where
  "from_hex_chunks [] = Some []"
| "from_hex_chunks [c] =
    (if utf8_valid [c]
     then do { n \<leftarrow> from_str_radix_unsigned 256 16 [c]; Some [of_nat n] } else None)"
| "from_hex_chunks (c # d # cs) =
    (if utf8_valid [c, d]
     then do { n \<leftarrow> from_str_radix_unsigned 256 16 [c, d]; bs \<leftarrow> from_hex_chunks cs; Some (of_nat n # bs) }
     else None)"

definition from_hex :: "string \<Rightarrow> trace_id option" where
  "from_hex s = (if length s \<noteq> 32 then None else map_option TraceId (from_hex_chunks s))"

section \<open>Attribute values\<close>

datatype attr_value = Str string | Int64 i64 | Double f64 | Bool bool

section \<open>Replies of the Read API\<close>

text \<open>What the handlers for one trace answer: status 400 with a text, status 404, or status 200
  with a JSON body.\<close>
datatype 'a api_reply = ApiBadRequest string | ApiNotFound | ApiOk 'a

section \<open>Correctness of the text form\<close>

lemma byte_char_of [simp]: "n < 256 \<Longrightarrow> byte (char_of n) = n"
  by (simp add: byte_def)

lemma byte_hex_digit: "d < 16 \<Longrightarrow> byte (hex_digit d) = (if d < 10 then 48 + d else 87 + d)"
  by (simp add: hex_digit_def)

lemma hex_digit_ascii: "d < 16 \<Longrightarrow> byte (hex_digit d) < 0x80"
  by (simp add: byte_hex_digit)

lemma to_digit_hex_digit: "d < 16 \<Longrightarrow> to_digit 16 (hex_digit d) = Some d"
  by (auto simp: to_digit_def byte_hex_digit Let_def)

lemma byte_plus [simp]: "byte CHR ''+'' = 43"
  by (simp add: byte_def)

lemma hex_digit_not_plus: "d < 16 \<Longrightarrow> hex_digit d \<noteq> CHR ''+''"
  using byte_hex_digit [of d] by (auto split: if_splits)

lemma u8_nibble [simp]: "unat (b :: u8) div 16 < 16"
  by (rule less_mult_imp_div_less) (use unat_u8_lt [of b] in simp)

lemma fmt_02x_parse: "from_str_radix_unsigned 256 16 (fmt_02x b) = Some (unat b)"
  by (simp add: fmt_02x_def from_str_radix_unsigned_def hex_digit_not_plus to_digit_hex_digit)

lemma fmt_02x_utf8: "utf8_valid (fmt_02x b)"
  by (rule utf8_valid_ascii) (auto simp: fmt_02x_def intro: hex_digit_ascii)

lemma from_hex_chunks_fmt: "from_hex_chunks (fmt_02x b @ cs) = map_option ((#) b) (from_hex_chunks cs)"
  using fmt_02x_parse [of b] fmt_02x_utf8 [of b]
  by (simp add: fmt_02x_def split: Option.bind_split)

lemma from_hex_chunks_to_hex: "from_hex_chunks (concat (map fmt_02x bs)) = Some bs"
  by (induction bs) (simp_all add: from_hex_chunks_fmt)

lemma length_to_hex [simp]: "length (to_hex t) = 2 * length (tid_bytes t)"
proof -
  have "length (concat (map fmt_02x bs)) = 2 * length bs" for bs
    by (induction bs) (simp_all add: fmt_02x_def)
  then show ?thesis by (simp add: to_hex_def)
qed

lemma from_hex_to_hex: "trace_id_wf t \<Longrightarrow> from_hex (to_hex t) = Some t"
  by (simp add: from_hex_def to_hex_def wf_simps from_hex_chunks_to_hex length_to_hex [unfolded to_hex_def])

text \<open>Which byte pairs \<open>u8::from_str_radix(pair, 16)\<close> accepts.\<close>
definition is_hex :: "char \<Rightarrow> bool" where
  "is_hex c \<longleftrightarrow> to_digit 16 c \<noteq> None"

definition hex_pair :: "char \<Rightarrow> char \<Rightarrow> bool" where
  "hex_pair c d \<longleftrightarrow> (is_hex c \<or> c = CHR ''+'') \<and> is_hex d"

lemma to_digit_lt: "to_digit radix c = Some d \<Longrightarrow> d < radix"
  by (auto simp: to_digit_def Let_def split: if_splits)

lemma is_hex_ascii: "is_hex c \<Longrightarrow> byte c < 0x80"
  by (auto simp: is_hex_def to_digit_def Let_def split: if_splits)

lemma plus_not_hex: "to_digit 16 CHR ''+'' = None"
  by (simp add: to_digit_def)

lemma from_str_radix_pair:
  "(\<exists>n. from_str_radix_unsigned 256 16 [c, d] = Some n) \<longleftrightarrow> hex_pair c d"
proof -
  have "x * 16 + y < 256" if "x < 16" "y < 16" for x y :: nat using that by simp
  then show ?thesis
    using to_digit_lt [of 16 c] to_digit_lt [of 16 d]
    by (cases "to_digit 16 c"; cases "to_digit 16 d")
       (auto simp: from_str_radix_unsigned_def hex_pair_def is_hex_def plus_not_hex)
qed

lemma hex_pair_utf8: "hex_pair c d \<Longrightarrow> utf8_valid [c, d]"
  by (rule utf8_valid_ascii) (auto simp: hex_pair_def dest: is_hex_ascii)

lemma from_hex_chunks_step:
  "from_hex_chunks (c # d # cs) \<noteq> None \<longleftrightarrow> hex_pair c d \<and> from_hex_chunks cs \<noteq> None"
  using from_str_radix_pair [of c d] hex_pair_utf8 [of c d] by (auto split: Option.bind_split)

lemma from_hex_chunks_accepts:
  "length s = 2 * n \<Longrightarrow>
   from_hex_chunks s \<noteq> None \<longleftrightarrow> (\<forall>i < n. hex_pair (s ! (2 * i)) (s ! (2 * i + 1)))"
proof (induction n arbitrary: s)
  case 0
  then show ?case by simp
next
  case (Suc n)
  then obtain c d cs where s: "s = c # d # cs" and len: "length cs = 2 * n"
    by (cases s; cases "tl s") auto
  show ?case
    unfolding s from_hex_chunks_step Suc.IH [OF len] All_less_Suc2 by simp
qed

lemma length_from_hex_chunks: "from_hex_chunks s = Some bs \<Longrightarrow> length bs = (length s + 1) div 2"
  by (induction s arbitrary: bs rule: from_hex_chunks.induct) (auto split: if_splits Option.bind_splits)

lemma from_hex_SomeD: "from_hex s = Some t \<Longrightarrow> trace_id_wf t"
proof -
  assume "from_hex s = Some t"
  then obtain bs where "length s = 32" "from_hex_chunks s = Some bs" "t = TraceId bs"
    by (auto simp: from_hex_def split: if_splits)
  then show "trace_id_wf t" using length_from_hex_chunks [of s bs] by (simp add: wf_simps)
qed

text \<open>
  C38. The text form of a trace id.  \<open>TraceId::to_hex\<close> prints any 16-byte id as 32 characters which
  \<open>TraceId::from_hex\<close> reads back to the same id; and the exact inputs \<open>from_hex\<close> accepts are 32 bytes
  in which every pair is two hex digits of either case \<^emph>\<open>or a plus sign and one hex digit\<close>:
  everything else is \<open>None\<close>, never a panic, and what is accepted is a 16-byte id.
\<close>
theorem hex_text_form:
  "(trace_id_wf t \<longrightarrow> length (to_hex t) = 32 \<and> from_hex (to_hex t) = Some t)
   \<and> (from_hex s \<noteq> None \<longleftrightarrow>
      length s = 32
      \<and> (\<forall>i < 16. (is_hex (s ! (2 * i)) \<or> s ! (2 * i) = CHR ''+'') \<and> is_hex (s ! (2 * i + 1))))
   \<and> (\<forall>u. from_hex s = Some u \<longrightarrow> trace_id_wf u)"
proof (intro conjI allI impI)
  show "length (to_hex t) = 32" "from_hex (to_hex t) = Some t" if "trace_id_wf t"
    using that from_hex_to_hex [OF that] by (simp_all add: wf_simps)
qed (use from_hex_chunks_accepts [of s 16] in \<open>auto simp: from_hex_def hex_pair_def intro: from_hex_SomeD\<close>)

theorem hex_text_form_witness:
  "from_hex (to_hex (TraceId (replicate 16 0xab))) = Some (TraceId (replicate 16 0xab))
   \<and> from_hex (concat (replicate 16 ''+f'')) = Some (TraceId (replicate 16 15))
   \<and> trace_id_wf (TraceId (replicate 16 15))"
proof -
  have "from_hex (concat (replicate 16 ''+f'')) = Some (TraceId (replicate 16 15))"
    by code_simp
  moreover have "trace_id_wf (TraceId (replicate 16 0xab))" by (simp add: wf_simps)
  ultimately show ?thesis
    using hex_text_form [of "TraceId (replicate 16 0xab)" "concat (replicate 16 ''+f'')"] by blast
qed

end
