(* ===== verification/Interner.thy ===== *)
theory Interner
  imports Types
begin

text \<open>
  \<open>src/store/interner.rs\<close>: the capped global interner for attribute keys and service names.
  The interface \<open>string_pool\<close> states what every client of an interning table relies on; it is
  interpreted here on the interner and in \<open>Read_Api\<close> on the per-response string table.
\<close>

section \<open>The interface of an interning table\<close>

text \<open>Interning a sequence of tagged strings and keeping the pairs that were not refused: the
  \<open>into_iter().filter_map(|(k, v)| interner.intern(&k).map(|id| (id, v))).collect()\<close> of
  \<open>Trace::insert\<close>.\<close>
primrec intern_pairs ::
    "('p \<Rightarrow> string \<Rightarrow> 'p \<times> u32 option) \<Rightarrow> 'p \<Rightarrow> (string \<times> 'a) list \<Rightarrow> 'p \<times> (u32 \<times> 'a) list" where
  "intern_pairs f p [] = (p, [])"
| "intern_pairs f p (kv # kvs) =
    (case f p (fst kv) of
       (p1, None) \<Rightarrow> intern_pairs f p1 kvs
     | (p1, Some i) \<Rightarrow> (case intern_pairs f p1 kvs of (p2, out) \<Rightarrow> (p2, (i, snd kv) # out)))"

lemma intern_pairs_ConsE:
  assumes "intern_pairs f p (kv # kvs) = (p', out)"
  obtains (refused) p1 where "f p (fst kv) = (p1, None)" "intern_pairs f p1 kvs = (p', out)"
  | (kept) p1 i rest where "f p (fst kv) = (p1, Some i)" "intern_pairs f p1 kvs = (p', rest)"
      "out = (i, snd kv) # rest"
  using assms by (auto split: prod.splits option.splits)

lemma intern_pairs_length: "intern_pairs f p kvs = (p', out) \<Longrightarrow> length out \<le> length kvs"
proof (induction kvs arbitrary: p out)
  case (Cons kv kvs)
  from Cons.prems show ?case by (rule intern_pairs_ConsE) (use Cons.IH in fastforce)+
qed simp

text \<open>
  \<open>intern\<close> may refuse a string (\<open>None\<close>), \<open>get\<close> panics on an id it never handed out.  \<open>inv n p\<close>: the pool is
  well formed and has room for \<open>n\<close> more strings.  The provider
  promises that an id resolves to its string and that ids once handed out keep their meaning.
\<close>
locale string_pool =
  fixes inv :: "nat \<Rightarrow> 'p \<Rightarrow> bool"
    and intern :: "'p \<Rightarrow> string \<Rightarrow> 'p \<times> u32 option"
    and get :: "'p \<Rightarrow> u32 \<Rightarrow> string panics"
  assumes intern_inv: "inv (Suc n) p \<Longrightarrow> intern p s = (p', r) \<Longrightarrow> inv n p'"
    and intern_get: "inv (Suc n) p \<Longrightarrow> intern p s = (p', Some i) \<Longrightarrow> get p' i = Some s"
    and intern_stable: "inv (Suc n) p \<Longrightarrow> intern p s = (p', r) \<Longrightarrow> get p i = Some x \<Longrightarrow> get p' i = Some x"
begin

lemma intern_pairs_inv: "inv (length kvs + n) p \<Longrightarrow> intern_pairs intern p kvs = (p', out) \<Longrightarrow> inv n p'"
proof (induction kvs arbitrary: p out)
  case (Cons kv kvs)
  from Cons.prems(2) show ?case
    by (rule intern_pairs_ConsE) (use Cons.prems(1) Cons.IH intern_inv in fastforce)+
qed simp

lemma intern_pairs_stable:
  "inv (length kvs + n) p \<Longrightarrow> intern_pairs intern p kvs = (p', out) \<Longrightarrow> get p i = Some x \<Longrightarrow> get p' i = Some x"
proof (induction kvs arbitrary: p out)
  case (Cons kv kvs)
  from Cons.prems(2) show ?case
    by (rule intern_pairs_ConsE) (use Cons.prems Cons.IH intern_inv intern_stable in fastforce)+
qed simp

text \<open>The kept pairs resolve, in the final pool, to a subsequence of what was sent.\<close>
lemma intern_pairs_resolve:
  assumes "inv (length kvs + n) p" and "intern_pairs intern p kvs = (p', out)"
  shows "\<exists>kept. subseq kept kvs \<and> list_all2 (\<lambda>(i, v) (k, w). v = w \<and> get p' i = Some k) out kept"
  using assms
proof (induction kvs arbitrary: p out)
  case Nil
  then show ?case by auto
next
  case (Cons kv kvs)
  have inv0: "inv (Suc (length kvs + n)) p" using Cons.prems(1) by simp
  from Cons.prems(2) show ?case
  proof (rule intern_pairs_ConsE)
    fix p1
    assume i: "intern p (fst kv) = (p1, None)" and o: "intern_pairs intern p1 kvs = (p', out)"
    from Cons.IH [OF intern_inv [OF inv0 i] o] show ?thesis
      by (blast intro: list_emb_Cons)
  next
    fix p1 i rest
    assume i: "intern p (fst kv) = (p1, Some i)" and o: "intern_pairs intern p1 kvs = (p', rest)"
      and out: "out = (i, snd kv) # rest"
    note inv1 = intern_inv [OF inv0 i]
    from intern_pairs_stable [OF inv1 o intern_get [OF inv0 i]]
    have g: "get p' i = Some (fst kv)" .
    from Cons.IH [OF inv1 o] obtain kept where "subseq kept kvs"
      "list_all2 (\<lambda>(i, v) (k, w). v = w \<and> get p' i = Some k) rest kept" by blast
    with g out show ?thesis by (intro exI [of _ "kv # kept"]) (cases kv, auto)
  qed
qed

end

section \<open>The capped interner\<close>

record interner =
  i_map :: "string \<rightharpoonup> u32"
  i_values :: "string list"
  i_cap :: nat
  i_cap_hit_count :: u64

definition interner_new :: "nat \<Rightarrow> interner" where
  "interner_new cap = \<lparr>i_map = Map.empty, i_values = [], i_cap = cap, i_cap_hit_count = 0\<rparr>"

definition intern :: "interner \<Rightarrow> string \<Rightarrow> interner \<times> u32 option" where
  "intern p s =
    (case i_map p s of
       Some i \<Rightarrow> (p, Some i)
     | None \<Rightarrow>
         if i_cap p \<le> length (i_values p)
         then (p\<lparr>i_cap_hit_count := i_cap_hit_count p + 1\<rparr>, None)
         else let i = of_nat (length (i_values p))
              in (p\<lparr>i_values := i_values p @ [s], i_map := (i_map p)(s \<mapsto> i)\<rparr>, Some i))"

definition get :: "interner \<Rightarrow> u32 \<Rightarrow> string panics" where
  "get p i = vec_index (i_values p) (unat i)"

definition lookup :: "interner \<Rightarrow> string \<Rightarrow> u32 option" where
  "lookup p s = i_map p s"

definition cap_hit_count :: "interner \<Rightarrow> u64" where
  "cap_hit_count p = i_cap_hit_count p"

definition len :: "interner \<Rightarrow> nat" where
  "len p = length (i_values p)"

definition is_empty :: "interner \<Rightarrow> bool" where
  "is_empty p \<longleftrightarrow> i_values p = []"

section \<open>Invariant\<close>

text \<open>
  The map is the inverse of the table, the table respects the cap, and the cap is within the
  range of the \<open>u32\<close> ids (the code casts \<open>values.len() as u32\<close>).
\<close>
definition interner_wf :: "interner \<Rightarrow> bool" where
  [wf_simps]: "interner_wf p \<longleftrightarrow>
     distinct (i_values p) \<and> length (i_values p) \<le> i_cap p \<and> i_cap p \<le> 2 ^ 32
     \<and> i_map p = (\<lambda>s. map_option of_nat (index_of (i_values p) s))"

lemma interner_wf_new: "cap \<le> 2 ^ 32 \<Longrightarrow> interner_wf (interner_new cap)"
  by (simp add: wf_simps interner_new_def)

text \<open>The three branches of \<open>intern\<close>.\<close>
lemma intern_known: "i_map p s = Some i \<Longrightarrow> intern p s = (p, Some i)"
  by (simp add: intern_def)

lemma intern_full:
  "i_map p s = None \<Longrightarrow> i_cap p \<le> length (i_values p) \<Longrightarrow>
   intern p s = (p\<lparr>i_cap_hit_count := i_cap_hit_count p + 1\<rparr>, None)"
  by (simp add: intern_def)

lemma intern_new:
  "i_map p s = None \<Longrightarrow> length (i_values p) < i_cap p \<Longrightarrow>
   intern p s = (p\<lparr>i_values := i_values p @ [s], i_map := (i_map p)(s \<mapsto> of_nat (length (i_values p)))\<rparr>,
                 Some (of_nat (length (i_values p))))"
  by (simp add: intern_def Let_def)

lemma intern_cases [consumes 1, case_names known full new]:
  assumes "intern p s = (p', r)"
  obtains (known) i where "i_map p s = Some i" "p' = p" "r = Some i"
  | (full) "i_map p s = None" "i_cap p \<le> length (i_values p)"
    "p' = p\<lparr>i_cap_hit_count := i_cap_hit_count p + 1\<rparr>" "r = None"
  | (new) "i_map p s = None" "length (i_values p) < i_cap p"
    "p' = p\<lparr>i_values := i_values p @ [s], i_map := (i_map p)(s \<mapsto> of_nat (length (i_values p)))\<rparr>"
    "r = Some (of_nat (length (i_values p)))"
proof (cases "i_map p s")
  case None
  show thesis
  proof (cases "i_cap p \<le> length (i_values p)")
    case True
    with assms None show thesis by (intro full) (simp_all add: intern_full)
  next
    case False
    with assms None show thesis by (intro new) (auto simp: intern_new)
  qed
next
  case (Some i)
  with assms show thesis by (intro known [of i]) (auto simp: intern_known)
qed

lemma interner_wf_map_None: "interner_wf p \<Longrightarrow> i_map p s = None \<longleftrightarrow> s \<notin> set (i_values p)"
  by (simp add: wf_simps index_of_None)

lemma interner_wf_intern: "interner_wf p \<Longrightarrow> intern p s = (p', r) \<Longrightarrow> interner_wf p'"
proof (erule intern_cases)
  assume wf: "interner_wf p" and new: "i_map p s = None" "length (i_values p) < i_cap p"
    and p': "p' = p\<lparr>i_values := i_values p @ [s], i_map := (i_map p)(s \<mapsto> of_nat (length (i_values p)))\<rparr>"
  from wf new have "s \<notin> set (i_values p)" by (simp add: interner_wf_map_None)
  with wf new(2) show "interner_wf p'"
    by (auto simp: wf_simps p' index_of_snoc_fresh)
qed (simp_all add: wf_simps)

lemma lookup_iff_get:
  assumes "interner_wf p"
  shows "lookup p s = Some i \<longleftrightarrow> get p i = Some s"
proof -
  have small: "j < length (i_values p) \<Longrightarrow> j < 2 ^ 32" for j using assms by (simp add: wf_simps)
  have "lookup p s = Some i \<longleftrightarrow> (\<exists>j. index_of (i_values p) s = Some j \<and> of_nat j = i)"
    using assms by (auto simp: lookup_def wf_simps)
  also have "\<dots> \<longleftrightarrow> (\<exists>j < length (i_values p). i_values p ! j = s \<and> of_nat j = i)"
    using assms by (auto simp: wf_simps index_of_Some)
  also have "\<dots> \<longleftrightarrow> unat i < length (i_values p) \<and> i_values p ! unat i = s"
    using small by (auto simp: word_unat_eq_iff)
  finally show ?thesis by (simp add: get_def vec_index_eq_Some)
qed

lemma get_stable:
  "interner_wf p \<Longrightarrow> intern p s = (p', r) \<Longrightarrow> get p i = Some x \<Longrightarrow> get p' i = Some x"
  by (erule intern_cases) (auto simp: get_def vec_index_eq_Some nth_append)

lemma intern_resolves:
  assumes "interner_wf p" "intern p s = (p', Some i)"
  shows "get p' i = Some s"
proof -
  from assms(2) have "lookup p' s = Some i" by (rule intern_cases) (auto simp: lookup_def)
  with interner_wf_intern [OF assms] show ?thesis by (simp add: lookup_iff_get)
qed

interpretation si: string_pool "\<lambda>_. interner_wf" intern get
  by unfold_locales (fact interner_wf_intern intern_resolves get_stable)+

lemma intern_frame [frame_simps]:
  "i_cap (fst (intern p s)) = i_cap p"
  "length (i_values p) \<le> length (i_values (fst (intern p s)))"
  by (simp_all add: intern_def Let_def split: option.split)

lemma intern_pairs_cap: "intern_pairs intern p kvs = (p', out) \<Longrightarrow> i_cap p' = i_cap p"
proof (induction kvs arbitrary: p out)
  case (Cons kv kvs)
  from Cons.prems show ?case
    by (rule intern_pairs_ConsE) (metis Cons.IH fst_conv intern_frame(1))+
qed simp

text \<open>Every pair that is dropped is one counted refusal.\<close>
lemma intern_pairs_refusals:
  "intern_pairs intern p kvs = (p', out) \<Longrightarrow>
   i_cap_hit_count p' = i_cap_hit_count p + of_nat (length kvs - length out)"
proof (induction kvs arbitrary: p out)
  case (Cons kv kvs)
  from Cons.prems show ?case
  proof (cases rule: intern_pairs_ConsE)
    case (refused p1)
    from refused(1) have "i_cap_hit_count p1 = i_cap_hit_count p + 1" by (rule intern_cases) auto
    moreover have "length out \<le> length kvs" using refused(2) by (rule intern_pairs_length)
    ultimately show ?thesis using Cons.IH [OF refused(2)] by (simp add: Suc_diff_le)
  next
    case (kept p1 i rest)
    from kept(1) have "i_cap_hit_count p1 = i_cap_hit_count p" by (rule intern_cases) auto
    with Cons.IH [OF kept(2)] kept(3) show ?thesis by simp
  qed
qed simp

section \<open>Properties\<close>

text \<open>Interning every string of a list, discarding the ids.\<close>
primrec intern_all :: "interner \<Rightarrow> string list \<Rightarrow> interner" where
  "intern_all p [] = p"
| "intern_all p (s # ss) = intern_all (fst (intern p s)) ss"

lemma intern_all_inv: "interner_wf p \<Longrightarrow> interner_wf (intern_all p ss) \<and> i_cap (intern_all p ss) = i_cap p"
proof (induction ss arbitrary: p)
  case (Cons s ss)
  then show ?case
    using interner_wf_intern [of p s "fst (intern p s)" "snd (intern p s)"] by (simp add: frame_simps)
qed simp

lemma intern_all_stable: "interner_wf p \<Longrightarrow> get p i = Some x \<Longrightarrow> get (intern_all p ss) i = Some x"
proof (induction ss arbitrary: p)
  case (Cons s ss)
  from Cons.prems show ?case
    using Cons.IH [of "fst (intern p s)"] interner_wf_intern [of p s "fst (intern p s)" "snd (intern p s)"]
      get_stable [of p s "fst (intern p s)" "snd (intern p s)"] by simp
qed simp

text \<open>
  C37. Whatever strings a well-formed interner is asked to intern, in whatever order: it never
  holds more than its cap, an id it hands out resolves to the string it was asked for then and
  after any later interning, and interning that string again returns the same id.
\<close>
theorem intern_sound:
  assumes "interner_wf p" and "intern p s = (p', Some i)"
  shows "len (intern_all p' ss) \<le> i_cap p
    \<and> get (intern_all p' ss) i = Some s
    \<and> intern (intern_all p' ss) s = (intern_all p' ss, Some i)"
proof -
  let ?q = "intern_all p' ss"
  from assms have p': "interner_wf p'" "i_cap p' = i_cap p"
    using interner_wf_intern intern_frame(1) [of p s] by auto
  then have q: "interner_wf ?q" "i_cap ?q = i_cap p" using intern_all_inv by auto
  from intern_all_stable [OF p'(1) intern_resolves [OF assms]] have g: "get ?q i = Some s" .
  with q(1) have "i_map ?q s = Some i" using lookup_iff_get lookup_def by metis
  with g q show ?thesis by (simp add: len_def wf_simps intern_known)
qed

theorem intern_sound_witness:
  "intern_all (fst (intern (interner_new 2) ''a'')) [''b'', ''c'', ''a''] = intern_all (interner_new 2) [''a'', ''b'', ''c'']
   \<and> len (intern_all (interner_new 2) [''a'', ''b'', ''c'']) \<le> 2
   \<and> get (intern_all (interner_new 2) [''a'', ''b'', ''c'']) 0 = Some ''a''"
proof -
  have wf: "interner_wf (interner_new 2)" by (rule interner_wf_new) simp
  have i: "intern (interner_new 2) ''a'' = (fst (intern (interner_new 2) ''a''), Some 0)"
    by (simp add: intern_def interner_new_def)
  have e: "intern_all (fst (intern (interner_new 2) ''a'')) [''b'', ''c'', ''a''] = intern_all (interner_new 2) [''a'', ''b'', ''c'']"
    by (simp add: intern_def interner_new_def)
  from intern_sound [OF wf i, of "[''b'', ''c'', ''a'']"] e show ?thesis by (simp add: interner_new_def)
qed

text \<open>
  A refusal is counted and changes nothing else: \<open>intern\<close> returns \<open>None\<close> exactly for a string
  it does not hold when the table is at its cap, then the refusal counter goes up by one and
  every lookup answers as before.
\<close>
lemma intern_refusal:
  assumes "interner_wf p" and "intern p s = (p', r)"
  shows "(r = None \<longleftrightarrow> lookup p s = None \<and> i_cap p \<le> len p)
    \<and> cap_hit_count p' = (if r = None then cap_hit_count p + 1 else cap_hit_count p)
    \<and> (r = None \<longrightarrow> lookup p' = lookup p \<and> get p' = get p)"
  using assms(2)
  by (rule intern_cases)
     (auto simp: lookup_def len_def cap_hit_count_def get_def fun_eq_iff)

lemma intern_refusal_witness:
  "\<exists>p'. intern (interner_new 0) ''k'' = (p', None) \<and> cap_hit_count p' = 1 \<and> lookup p' ''k'' = None"
proof -
  have wf: "interner_wf (interner_new 0)" by (rule interner_wf_new) simp
  have i: "intern (interner_new 0) ''k'' = (fst (intern (interner_new 0) ''k''), None)"
    by (simp add: intern_def interner_new_def)
  from intern_refusal [OF wf i] i show ?thesis
    by (intro exI [of _ "fst (intern (interner_new 0) ''k'')"]) (simp add: cap_hit_count_def lookup_def interner_new_def)
qed

end
