(* ===== verification/Trace.thy ===== *)
theory Trace
  imports Interner
begin

text \<open>
  \<open>src/store/trace.rs\<close>: one trace's spans as parallel vectors with a compressed-sparse-row
  attribute layout, insertion with last-write-wins deduplication, and the patching of parent
  links when a parent arrives after its children.

  The abstract view of a trace is a list of rows, one per distinct span id in order of first
  arrival (\<open>span_row\<close>, \<open>rows_insert\<close>); \<open>repr\<close> lays such a list out as the vectors and maps of
  the code.  The refinement lemma \<open>trace_insert_refines\<close> says that \<open>Trace::insert\<close> on the layout
  of a list of rows is the layout of the inserted rows.
\<close>

section \<open>State\<close>

record new_span =
  ns_span_id :: span_id
  ns_parent_span_id :: "span_id option"
  ns_name :: string
  ns_start_time_unix_nano :: u64
  ns_end_time_unix_nano :: u64
  ns_status_message :: string
  ns_status_code :: i32
  ns_unknown_service :: bool
  ns_service_name :: "string option"
  ns_attributes :: "(string \<times> attr_value) list"

record insert_outcome =
  local_idx :: nat
  is_duplicate :: bool

record trace =
  t_trace_id :: trace_id
  t_generation :: u32
  t_last_activity :: u64
  t_span_ids :: "span_id list"
  t_names :: "string list"
  t_parent_idx :: "nat option list"
  t_start :: "u64 list"
  t_end :: "u64 list"
  t_status_message :: "string list"
  t_status_code :: "i32 list"
  t_orphan :: "bool list"
  t_unknown_service :: "bool list"
  t_service_name_id :: "u32 option list"
  t_attr_keys :: "u32 list"
  t_attr_values :: "attr_value list"
  t_attr_offsets :: "u32 list"
  t_span_index :: "span_id \<rightharpoonup> nat"
  t_pending_children :: "span_id \<rightharpoonup> nat list"

definition trace_new :: "trace_id \<Rightarrow> u64 \<Rightarrow> trace" where
  "trace_new trace_id now =
    \<lparr>t_trace_id = trace_id, t_generation = 0, t_last_activity = now,
     t_span_ids = [], t_names = [], t_parent_idx = [], t_start = [], t_end = [],
     t_status_message = [], t_status_code = [], t_orphan = [], t_unknown_service = [],
     t_service_name_id = [], t_attr_keys = [], t_attr_values = [], t_attr_offsets = [0],
     t_span_index = Map.empty, t_pending_children = Map.empty\<rparr>"

section \<open>Accessors\<close>

definition span_count :: "trace \<Rightarrow> nat" where
  "span_count t = length (t_span_ids t)"

definition bump_generation :: "trace \<Rightarrow> trace" where
  "bump_generation t = t\<lparr>t_generation := t_generation t + 1\<rparr>"

definition is_orphan :: "trace \<Rightarrow> nat \<Rightarrow> bool panics" where
  "is_orphan t idx = vec_index (t_orphan t) idx"

definition parent_idx :: "trace \<Rightarrow> nat \<Rightarrow> nat option panics" where
  "parent_idx t idx = vec_index (t_parent_idx t) idx"

definition name :: "trace \<Rightarrow> nat \<Rightarrow> string panics" where
  "name t idx = vec_index (t_names t) idx"

definition span_id :: "trace \<Rightarrow> nat \<Rightarrow> span_id panics" where
  "span_id t idx = vec_index (t_span_ids t) idx"

definition service_name_id :: "trace \<Rightarrow> nat \<Rightarrow> u32 option panics" where
  "service_name_id t idx = vec_index (t_service_name_id t) idx"

definition start_time_unix_nano :: "trace \<Rightarrow> nat \<Rightarrow> u64 panics" where
  "start_time_unix_nano t idx = vec_index (t_start t) idx"

definition end_time_unix_nano :: "trace \<Rightarrow> nat \<Rightarrow> u64 panics" where
  "end_time_unix_nano t idx = vec_index (t_end t) idx"

definition status_message :: "trace \<Rightarrow> nat \<Rightarrow> string panics" where
  "status_message t idx = vec_index (t_status_message t) idx"

definition status_code :: "trace \<Rightarrow> nat \<Rightarrow> i32 panics" where
  "status_code t idx = vec_index (t_status_code t) idx"

definition unknown_service :: "trace \<Rightarrow> nat \<Rightarrow> bool panics" where
  "unknown_service t idx = vec_index (t_unknown_service t) idx"

text \<open>\<open>Iterator::min\<close> and \<open>Iterator::max\<close>\<close>
fun iter_min :: "u64 list \<Rightarrow> u64 option" where
  "iter_min [] = None"
| "iter_min (x # xs) = Some (fold min xs x)"

fun iter_max :: "u64 list \<Rightarrow> u64 option" where
  "iter_max [] = None"
| "iter_max (x # xs) = Some (fold max xs x)"

definition duration_nanos :: "trace \<Rightarrow> u64 option" where
  "duration_nanos t =
    do { earliest_start \<leftarrow> iter_min (t_start t);
         latest_end \<leftarrow> iter_max (t_end t);
         checked_sub latest_end earliest_start }"

definition attributes :: "trace \<Rightarrow> nat \<Rightarrow> attr_value list panics" where
  "attributes t idx =
    do { a \<leftarrow> vec_index (t_attr_offsets t) idx;
         b \<leftarrow> vec_index (t_attr_offsets t) (idx + 1);
         vec_slice (t_attr_values t) (unat a) (unat b) }"

definition attribute_keys :: "trace \<Rightarrow> nat \<Rightarrow> u32 list panics" where
  "attribute_keys t idx =
    do { a \<leftarrow> vec_index (t_attr_offsets t) idx;
         b \<leftarrow> vec_index (t_attr_offsets t) (idx + 1);
         vec_slice (t_attr_keys t) (unat a) (unat b) }"

section \<open>Insertion\<close>

text \<open>\<open>(*off as i64 + delta) as u32\<close>\<close>
definition shift_offset :: "int \<Rightarrow> u32 \<Rightarrow> u32" where
  "shift_offset delta off = word_of_int (uint off + delta)"

definition overwrite_at ::
    "trace \<Rightarrow> nat \<Rightarrow> new_span \<Rightarrow> u32 option \<Rightarrow> (u32 \<times> attr_value) list \<Rightarrow> trace panics" where
  "overwrite_at t idx span svc_id interned_attrs =
    do { names \<leftarrow> vec_set (t_names t) idx (ns_name span);
         starts \<leftarrow> vec_set (t_start t) idx (ns_start_time_unix_nano span);
         ends \<leftarrow> vec_set (t_end t) idx (ns_end_time_unix_nano span);
         messages \<leftarrow> vec_set (t_status_message t) idx (ns_status_message span);
         codes \<leftarrow> vec_set (t_status_code t) idx (ns_status_code span);
         unknowns \<leftarrow> vec_set (t_unknown_service t) idx (ns_unknown_service span);
         services \<leftarrow> vec_set (t_service_name_id t) idx svc_id;
         old_start \<leftarrow> vec_index (t_attr_offsets t) idx;
         old_end \<leftarrow> vec_index (t_attr_offsets t) (idx + 1);
         keys \<leftarrow> vec_splice (t_attr_keys t) (unat old_start) (unat old_end) (map fst interned_attrs);
         values \<leftarrow> vec_splice (t_attr_values t) (unat old_start) (unat old_end) (map snd interned_attrs);
         let delta = int (length interned_attrs) - int (unat old_end - unat old_start);
         Some (t\<lparr>t_names := names, t_start := starts, t_end := ends, t_status_message := messages,
                 t_status_code := codes, t_unknown_service := unknowns, t_service_name_id := services,
                 t_attr_keys := keys, t_attr_values := values,
                 t_attr_offsets := take (idx + 1) (t_attr_offsets t)
                   @ map (shift_offset delta) (drop (idx + 1) (t_attr_offsets t))\<rparr>) }"

text \<open>The \<open>match span.parent_span_id\<close> of \<open>Trace::insert\<close>: the new pending map, parent and orphan flag.\<close>
definition resolve_parent ::
    "trace \<Rightarrow> nat \<Rightarrow> span_id option \<Rightarrow> (span_id \<rightharpoonup> nat list) \<times> nat option \<times> bool" where
  "resolve_parent t idx parent =
    (case parent of
       None \<Rightarrow> (t_pending_children t, None, False)
     | Some pid \<Rightarrow>
         (case t_span_index t pid of
            Some pidx \<Rightarrow> (t_pending_children t, Some pidx, False)
          | None \<Rightarrow>
              ((t_pending_children t)
                 (pid \<mapsto> (case t_pending_children t pid of None \<Rightarrow> [] | Some l \<Rightarrow> l) @ [idx]),
               None, True)))"

text \<open>The patch loop: the children that were waiting for this span now point at it.\<close>
definition patch_children :: "trace \<Rightarrow> span_id \<Rightarrow> nat \<Rightarrow> trace panics" where
  "patch_children t sid idx =
    (case t_pending_children t sid of
       None \<Rightarrow> Some t
     | Some children \<Rightarrow>
         foldO (\<lambda>t child_idx.
             do { ps \<leftarrow> vec_set (t_parent_idx t) child_idx (Some idx);
                  os \<leftarrow> vec_set (t_orphan t) child_idx False;
                  Some (t\<lparr>t_parent_idx := ps, t_orphan := os\<rparr>) })
           (t\<lparr>t_pending_children := (t_pending_children t)(sid := None)\<rparr>) children)"

definition trace_insert ::
    "trace \<Rightarrow> new_span \<Rightarrow> u32 option \<Rightarrow> interner \<Rightarrow> u64 \<Rightarrow> (trace \<times> interner \<times> insert_outcome) panics" where
  "trace_insert t0 span svc_id key_interner now =
    (let t = t0\<lparr>t_last_activity := now\<rparr>;
         (key_interner', interned_attrs) = intern_pairs intern key_interner (ns_attributes span)
     in case t_span_index t (ns_span_id span) of
          Some idx \<Rightarrow>
            do { t' \<leftarrow> overwrite_at t idx span svc_id interned_attrs;
                 Some (t', key_interner', \<lparr>local_idx = idx, is_duplicate = True\<rparr>) }
        | None \<Rightarrow>
            (let idx = length (t_span_ids t);
                 (pending, parent, orphan) = resolve_parent t idx (ns_parent_span_id span);
                 keys = t_attr_keys t @ map fst interned_attrs;
                 t1 = t\<lparr>t_span_ids := t_span_ids t @ [ns_span_id span],
                        t_names := t_names t @ [ns_name span],
                        t_start := t_start t @ [ns_start_time_unix_nano span],
                        t_end := t_end t @ [ns_end_time_unix_nano span],
                        t_status_message := t_status_message t @ [ns_status_message span],
                        t_status_code := t_status_code t @ [ns_status_code span],
                        t_unknown_service := t_unknown_service t @ [ns_unknown_service span],
                        t_service_name_id := t_service_name_id t @ [svc_id],
                        t_pending_children := pending,
                        t_parent_idx := t_parent_idx t @ [parent],
                        t_orphan := t_orphan t @ [orphan],
                        t_attr_keys := keys,
                        t_attr_values := t_attr_values t @ map snd interned_attrs,
                        t_attr_offsets := t_attr_offsets t @ [of_nat (length keys)],
                        t_span_index := (t_span_index t)(ns_span_id span \<mapsto> idx)\<rparr>
             in do { t2 \<leftarrow> patch_children t1 (ns_span_id span) idx;
                     Some (t2, key_interner', \<lparr>local_idx = idx, is_duplicate = False\<rparr>) }))"

section \<open>Abstract view: a list of rows\<close>

record span_row =
  r_span_id :: span_id
  r_parent :: "span_id option"
  r_name :: string
  r_start :: u64
  r_end :: u64
  r_status_message :: string
  r_status_code :: i32
  r_unknown_service :: bool
  r_service :: "u32 option"
  r_attrs :: "(u32 \<times> attr_value) list"

definition row_of :: "new_span \<Rightarrow> u32 option \<Rightarrow> (u32 \<times> attr_value) list \<Rightarrow> span_row" where
  "row_of span sid attrs =
    \<lparr>r_span_id = ns_span_id span, r_parent = ns_parent_span_id span, r_name = ns_name span,
     r_start = ns_start_time_unix_nano span, r_end = ns_end_time_unix_nano span,
     r_status_message = ns_status_message span, r_status_code = ns_status_code span,
     r_unknown_service = ns_unknown_service span, r_service = sid, r_attrs = attrs\<rparr>"

text \<open>Last write wins, except for the parent link, which keeps the first write.\<close>
definition rows_insert :: "span_row list \<Rightarrow> span_row \<Rightarrow> span_row list \<times> insert_outcome" where
  "rows_insert rows r =
    (case index_of (map r_span_id rows) (r_span_id r) of
       Some i \<Rightarrow> (rows[i := r\<lparr>r_parent := r_parent (rows ! i)\<rparr>], \<lparr>local_idx = i, is_duplicate = True\<rparr>)
     | None \<Rightarrow> (rows @ [r], \<lparr>local_idx = length rows, is_duplicate = False\<rparr>))"

text \<open>The parent of a row is the position of the span its first write named, if that span has
  arrived; a row that names a parent which has not arrived is an orphan.\<close>
definition parent_in :: "span_id list \<Rightarrow> span_id option \<Rightarrow> nat option" where
  "parent_in ids p = Option.bind p (index_of ids)"

definition orphan_in :: "span_id list \<Rightarrow> span_id option \<Rightarrow> bool" where
  "orphan_in ids p \<longleftrightarrow> p \<noteq> None \<and> parent_in ids p = None"

definition waiting :: "span_id option list \<Rightarrow> span_id \<Rightarrow> nat list" where
  "waiting ps pid = [i \<leftarrow> [0..<length ps]. ps ! i = Some pid]"

definition pending_in :: "span_id list \<Rightarrow> span_id option list \<Rightarrow> span_id \<rightharpoonup> nat list" where
  "pending_in ids ps = (\<lambda>pid. if pid \<in> set ids \<or> waiting ps pid = [] then None else Some (waiting ps pid))"

definition attr_total :: "span_row list \<Rightarrow> nat" where
  "attr_total rows = sum_list (map (length \<circ> r_attrs) rows)"

definition repr :: "trace_id \<Rightarrow> u32 \<Rightarrow> u64 \<Rightarrow> span_row list \<Rightarrow> trace" where
  "repr tid gen la rows =
    (let ids = map r_span_id rows; ps = map r_parent rows
     in \<lparr>t_trace_id = tid, t_generation = gen, t_last_activity = la,
         t_span_ids = ids, t_names = map r_name rows, t_parent_idx = map (parent_in ids) ps,
         t_start = map r_start rows, t_end = map r_end rows,
         t_status_message = map r_status_message rows, t_status_code = map r_status_code rows,
         t_orphan = map (orphan_in ids) ps, t_unknown_service = map r_unknown_service rows,
         t_service_name_id = map r_service rows,
         t_attr_keys = concat (map (map fst \<circ> r_attrs) rows),
         t_attr_values = concat (map (map snd \<circ> r_attrs) rows),
         t_attr_offsets = map of_nat (prefix_sums 0 (map (length \<circ> r_attrs) rows)),
         t_span_index = index_of ids, t_pending_children = pending_in ids ps\<rparr>)"

text \<open>Row lists the layout can hold: distinct span ids and an attribute count within the \<open>u32\<close>
  offsets.\<close>
definition rows_ok :: "span_row list \<Rightarrow> bool" where
  [wf_simps]: "rows_ok rows \<longleftrightarrow> distinct (map r_span_id rows) \<and> attr_total rows < 2 ^ 32"

definition trace_wf :: "trace \<Rightarrow> bool" where
  "trace_wf t \<longleftrightarrow> (\<exists>rows. rows_ok rows \<and> t = repr (t_trace_id t) (t_generation t) (t_last_activity t) rows)"

section \<open>The layout of a list of rows\<close>

lemma repr_sel [simp]:
  "t_trace_id (repr tid gen la rows) = tid"
  "t_generation (repr tid gen la rows) = gen"
  "t_last_activity (repr tid gen la rows) = la"
  "t_span_ids (repr tid gen la rows) = map r_span_id rows"
  "t_names (repr tid gen la rows) = map r_name rows"
  "t_start (repr tid gen la rows) = map r_start rows"
  "t_end (repr tid gen la rows) = map r_end rows"
  "t_span_index (repr tid gen la rows) = index_of (map r_span_id rows)"
  by (simp_all add: repr_def Let_def)

lemma repr_empty: "repr tid 0 now [] = trace_new tid now"
  by (simp add: repr_def trace_new_def pending_in_def waiting_def fun_eq_iff)

lemma repr_generation: "(repr tid gen la rows)\<lparr>t_generation := g\<rparr> = repr tid g la rows"
  by (simp add: repr_def Let_def)

lemma repr_activity: "(repr tid gen la rows)\<lparr>t_last_activity := now\<rparr> = repr tid gen now rows"
  by (simp add: repr_def Let_def)

lemma map_length_attrs:
  "map length (map (map f \<circ> r_attrs) rows) = map (length \<circ> r_attrs) rows"
  by simp

lemma attr_offset:
  assumes "rows_ok rows" "i \<le> length rows"
  shows "vec_index (t_attr_offsets (repr tid gen la rows)) i
           = Some (of_nat (sum_list (take i (map (length \<circ> r_attrs) rows))))"
    and "unat (of_nat (sum_list (take i (map (length \<circ> r_attrs) rows))) :: u32)
           = sum_list (take i (map (length \<circ> r_attrs) rows))"
proof -
  have "sum_list (take i (map (length \<circ> r_attrs) rows)) \<le> attr_total rows"
    unfolding attr_total_def by (rule sum_list_take_le)
  also have "\<dots> < 2 ^ 32" using assms(1) by (simp add: wf_simps)
  finally show "unat (of_nat (sum_list (take i (map (length \<circ> r_attrs) rows))) :: u32)
           = sum_list (take i (map (length \<circ> r_attrs) rows))" by (rule unat_of_nat_u32)
qed (use assms(2) in \<open>simp add: repr_def Let_def\<close>)

lemma length_attr_data:
  "length (t_attr_keys (repr tid gen la rows)) = attr_total rows"
  "length (t_attr_values (repr tid gen la rows)) = attr_total rows"
  by (simp_all add: repr_def Let_def attr_total_def length_concat comp_def)

lemma take_Suc_le_attr_total: "sum_list (take i (map (length \<circ> r_attrs) rows)) \<le> attr_total rows"
  unfolding attr_total_def by (rule sum_list_take_le)

text \<open>What every accessor reads from the layout.\<close>
lemma repr_access:
  assumes "i < length rows"
  shows "name (repr tid gen la rows) i = Some (r_name (rows ! i))"
    "span_id (repr tid gen la rows) i = Some (r_span_id (rows ! i))"
    "start_time_unix_nano (repr tid gen la rows) i = Some (r_start (rows ! i))"
    "end_time_unix_nano (repr tid gen la rows) i = Some (r_end (rows ! i))"
    "status_message (repr tid gen la rows) i = Some (r_status_message (rows ! i))"
    "status_code (repr tid gen la rows) i = Some (r_status_code (rows ! i))"
    "unknown_service (repr tid gen la rows) i = Some (r_unknown_service (rows ! i))"
    "service_name_id (repr tid gen la rows) i = Some (r_service (rows ! i))"
    "parent_idx (repr tid gen la rows) i = Some (parent_in (map r_span_id rows) (r_parent (rows ! i)))"
    "is_orphan (repr tid gen la rows) i = Some (orphan_in (map r_span_id rows) (r_parent (rows ! i)))"
  using assms
  by (simp_all add: repr_def Let_def name_def span_id_def start_time_unix_nano_def end_time_unix_nano_def
      status_message_def status_code_def unknown_service_def service_name_id_def parent_idx_def is_orphan_def)

lemma repr_attrs:
  assumes "rows_ok rows" "i < length rows"
  shows "attributes (repr tid gen la rows) i = Some (map snd (r_attrs (rows ! i)))"
    and "attribute_keys (repr tid gen la rows) i = Some (map fst (r_attrs (rows ! i)))"
proof -
  let ?s = "\<lambda>j. sum_list (take j (map (length \<circ> r_attrs) rows))"
  have le: "?s i \<le> ?s (Suc i)" "?s (Suc i) \<le> attr_total rows"
    by (rule sum_list_take_mono, rule take_Suc_le_attr_total)
  have cut: "drop (?s i) (take (?s (Suc i)) (concat (map (map f \<circ> r_attrs) rows))) = map f (r_attrs (rows ! i))"
    for f :: "u32 \<times> attr_value \<Rightarrow> 'c"
    using slice_concat [of i "map (map f \<circ> r_attrs) rows"] assms(2) by (simp add: comp_def)
  note off = attr_offset [OF assms(1)]
  from assms le show "attributes (repr tid gen la rows) i = Some (map snd (r_attrs (rows ! i)))"
    using cut [of snd] length_attr_data(2) [of tid gen la rows]
    by (simp add: attributes_def off Suc_le_eq) (simp add: repr_def Let_def)
  from assms le show "attribute_keys (repr tid gen la rows) i = Some (map fst (r_attrs (rows ! i)))"
    using cut [of fst] length_attr_data(1) [of tid gen la rows]
    by (simp add: attribute_keys_def off Suc_le_eq) (simp add: repr_def Let_def)
qed

section \<open>Insertion refines insertion of rows\<close>

lemma shift_offset_of_nat: "int n + d = int m \<Longrightarrow> shift_offset d (of_nat n) = of_nat m"
  unfolding shift_offset_def by (metis of_int_add of_int_of_nat_eq word_of_int_uint)

lemma offsets_shift:
  assumes "i < length ns"
  shows "take (i + 1) (map of_nat (prefix_sums 0 ns))
      @ map (shift_offset (int v - int (ns ! i))) (drop (i + 1) (map of_nat (prefix_sums 0 ns)))
    = map of_nat (prefix_sums 0 (ns[i := v]))" (is "?l = ?r")
proof (rule nth_equalityI)
  show "length ?l = length ?r" using assms by simp
next
  fix j
  assume "j < length ?l"
  with assms have j: "j \<le> length ns" by simp
  show "?l ! j = ?r ! j"
  proof (cases "j \<le> i")
    case True
    with j assms show ?thesis by (simp add: nth_append)
  next
    case False
    let ?s = "sum_list (take j ns)" and ?s' = "sum_list (take j (ns[i := v]))"
    have "?s' + ns ! i = ?s + v" using False assms by (intro sum_list_take_update) auto
    then have "int ?s + (int v - int (ns ! i)) = int ?s'" by linarith
    with False j assms show ?thesis
      by (simp add: nth_append shift_offset_of_nat)
  qed
qed

lemma map_update_same: "i < length xs \<Longrightarrow> f (xs ! i) = f y \<Longrightarrow> map f (xs[i := y]) = map f xs"
  by (metis list_update_id map_update)

lemma overwrite_refines:
  assumes ok: "rows_ok rows" and i: "i < length rows" and id: "r_span_id (rows ! i) = ns_span_id span"
  shows "overwrite_at (repr tid gen la rows) i span svc ia
    = Some (repr tid gen la (rows[i := (row_of span svc ia)\<lparr>r_parent := r_parent (rows ! i)\<rparr>]))"
proof -
  let ?r = "(row_of span svc ia)\<lparr>r_parent := r_parent (rows ! i)\<rparr>"
  let ?ns = "map (length \<circ> r_attrs) rows"
  let ?s = "\<lambda>j. sum_list (take j ?ns)"
  have le: "?s i \<le> ?s (Suc i)" "?s (Suc i) \<le> attr_total rows"
    by (rule sum_list_take_mono, rule take_Suc_le_attr_total)
  have diff: "?s (Suc i) - ?s i = ?ns ! i" using i sum_list_take_Suc [of i ?ns] by simp
  have spl: "take (?s i) (concat (map (map f \<circ> r_attrs) rows)) @ map f ia
       @ drop (?s (Suc i)) (concat (map (map f \<circ> r_attrs) rows))
     = concat (map (map f \<circ> r_attrs) (rows[i := ?r]))" for f :: "u32 \<times> attr_value \<Rightarrow> 'c"
    using splice_concat [of i "map (map f \<circ> r_attrs) rows" "map f ia"] i
    by (simp add: map_update row_of_def comp_def)
  have offs: "take (i + 1) (map of_nat (prefix_sums 0 ?ns))
      @ map (shift_offset (int (length ia) - int (?ns ! i))) (drop (i + 1) (map of_nat (prefix_sums 0 ?ns)))
    = map of_nat (prefix_sums 0 (map (length \<circ> r_attrs) (rows[i := ?r])))"
    using offsets_shift [of i ?ns "length ia"] i by (simp add: map_update row_of_def)
  have ids: "map r_span_id (rows[i := ?r]) = map r_span_id rows"
    and ps: "map r_parent (rows[i := ?r]) = map r_parent rows"
    using i id by (simp_all add: map_update_same row_of_def)
  note off = attr_offset [OF ok]
  show ?thesis
    using i le length_attr_data [of tid gen la rows] diff spl [of fst] spl [of snd] offs ids ps
    by (simp add: overwrite_at_def off Suc_le_eq)
       (simp add: repr_def Let_def map_update row_of_def)
qed

lemma waiting_snoc:
  "waiting (ps @ [p]) pid = waiting ps pid @ (if p = Some pid then [length ps] else [])"
proof -
  have "[i \<leftarrow> [0..<length ps]. (ps @ [p]) ! i = Some pid] = waiting ps pid"
    unfolding waiting_def by (rule filter_cong) (auto simp: nth_append)
  then show ?thesis by (simp add: waiting_def)
qed

lemma set_waiting: "set (waiting ps pid) = {i. i < length ps \<and> ps ! i = Some pid}"
  by (auto simp: waiting_def)

text \<open>Queueing the new span under a parent that has not arrived.\<close>
lemma resolve_parent_repr:
  "resolve_parent (repr tid gen la rows) (length rows) p =
     (pending_in (map r_span_id rows) (map r_parent rows @ [p]),
      parent_in (map r_span_id rows) p, orphan_in (map r_span_id rows) p)"
proof -
  let ?ids = "map r_span_id rows" and ?ps = "map r_parent rows"
  have pend: "t_pending_children (repr tid gen la rows) = pending_in ?ids ?ps"
    by (simp add: repr_def Let_def)
  have other: "pending_in ?ids (?ps @ [p]) = pending_in ?ids ?ps"
    if "p = None \<or> (\<exists>pid. p = Some pid \<and> pid \<in> set ?ids)"
    using that by (auto simp: pending_in_def waiting_snoc fun_eq_iff)
  have queue: "pending_in ?ids (?ps @ [Some pid]) = (pending_in ?ids ?ps)
      (pid \<mapsto> (case pending_in ?ids ?ps pid of None \<Rightarrow> [] | Some l \<Rightarrow> l) @ [length rows])"
    if "pid \<notin> set ?ids" for pid
    using that by (auto simp: pending_in_def waiting_snoc fun_eq_iff)
  show ?thesis
  proof (cases p)
    case None
    then show ?thesis using other by (simp add: resolve_parent_def pend parent_in_def orphan_in_def)
  next
    case (Some pid)
    show ?thesis
    proof (cases "index_of ?ids pid")
      case None
      then have "pid \<notin> set ?ids" by (simp add: index_of_None)
      with None Some show ?thesis
        by (simp add: resolve_parent_def pend parent_in_def orphan_in_def queue)
    next
      case (Some i)
      then have "pid \<in> set ?ids" using index_of_SomeD [of ?ids pid i] nth_mem by metis
      with \<open>p = Some pid\<close> Some other show ?thesis
        by (simp add: resolve_parent_def pend parent_in_def orphan_in_def)
    qed
  qed
qed

lemma pending_in_remove: "(pending_in ids qs)(sid := None) = pending_in (ids @ [sid]) qs"
  by (auto simp: pending_in_def)

lemma parent_in_snoc:
  "sid \<notin> set ids \<Longrightarrow>
   parent_in (ids @ [sid]) p = (if p = Some sid then Some (length ids) else parent_in ids p)"
  by (cases p) (auto simp: parent_in_def index_of_snoc_fresh)

lemma patch_parents:
  assumes "sid \<notin> set ids"
  shows "update_all (waiting qs sid) (Some (length ids)) (map (parent_in ids) qs)
           = map (parent_in (ids @ [sid])) qs"
    and "update_all (waiting qs sid) False (map (orphan_in ids) qs) = map (orphan_in (ids @ [sid])) qs"
  using assms
  by (auto intro!: nth_equalityI simp: nth_update_all set_waiting parent_in_snoc orphan_in_def)

lemma patch_loop:
  assumes "\<forall>c \<in> set cs. c < length (t_parent_idx t) \<and> c < length (t_orphan t)"
  shows "foldO (\<lambda>t c. do { ps \<leftarrow> vec_set (t_parent_idx t) c (Some idx);
                         os \<leftarrow> vec_set (t_orphan t) c False;
                         Some (t\<lparr>t_parent_idx := ps, t_orphan := os\<rparr>) }) t cs
    = Some (t\<lparr>t_parent_idx := update_all cs (Some idx) (t_parent_idx t),
              t_orphan := update_all cs False (t_orphan t)\<rparr>)"
  using assms by (induction cs arbitrary: t) simp_all

lemma patch_children_eq:
  assumes "sid \<notin> set ids" and "t_pending_children t = pending_in ids qs"
    and "t_parent_idx t = map (parent_in ids) qs" and "t_orphan t = map (orphan_in ids) qs"
  shows "patch_children t sid (length ids)
    = Some (t\<lparr>t_parent_idx := map (parent_in (ids @ [sid])) qs,
              t_orphan := map (orphan_in (ids @ [sid])) qs,
              t_pending_children := pending_in (ids @ [sid]) qs\<rparr>)"
proof (cases "waiting qs sid = []")
  case True
  with assms have "t_pending_children t sid = None" by (simp add: pending_in_def)
  moreover have "pending_in (ids @ [sid]) qs = pending_in ids qs"
    using True by (auto simp: pending_in_def fun_eq_iff)
  ultimately show ?thesis
    using patch_parents [OF assms(1), of qs] True assms by (simp add: patch_children_def)
next
  case False
  with assms have "t_pending_children t sid = Some (waiting qs sid)" by (simp add: pending_in_def)
  then show ?thesis
    using patch_parents [OF assms(1), of qs] assms
    by (simp add: patch_children_def patch_loop set_waiting pending_in_remove)
qed

lemma insert_fresh_repr:
  fixes rows r
  defines "ids \<equiv> map r_span_id rows" and "ps \<equiv> map r_parent rows"
  assumes "r_span_id r \<notin> set ids"
  shows "repr tid gen la (rows @ [r]) =
    (repr tid gen la rows)\<lparr>
      t_span_ids := ids @ [r_span_id r], t_names := map r_name rows @ [r_name r],
      t_start := map r_start rows @ [r_start r], t_end := map r_end rows @ [r_end r],
      t_status_message := map r_status_message rows @ [r_status_message r],
      t_status_code := map r_status_code rows @ [r_status_code r],
      t_unknown_service := map r_unknown_service rows @ [r_unknown_service r],
      t_service_name_id := map r_service rows @ [r_service r],
      t_pending_children := pending_in (ids @ [r_span_id r]) (ps @ [r_parent r]),
      t_parent_idx := map (parent_in (ids @ [r_span_id r])) (ps @ [r_parent r]),
      t_orphan := map (orphan_in (ids @ [r_span_id r])) (ps @ [r_parent r]),
      t_attr_keys := concat (map (map fst \<circ> r_attrs) rows) @ map fst (r_attrs r),
      t_attr_values := concat (map (map snd \<circ> r_attrs) rows) @ map snd (r_attrs r),
      t_attr_offsets := map of_nat (prefix_sums 0 (map (length \<circ> r_attrs) rows)) @ [of_nat (attr_total rows + length (r_attrs r))],
      t_span_index := (index_of ids)(r_span_id r \<mapsto> length ids)\<rparr>"
  using assms(3)
  by (simp add: repr_def Let_def ids_def ps_def prefix_sums_snoc attr_total_def index_of_snoc_fresh)

text \<open>The refinement: on the layout of a list of rows, \<open>Trace::insert\<close> never panics and produces
  the layout of the inserted rows.\<close>
lemma trace_insert_refines:
  assumes ok: "rows_ok rows" and ia: "intern_pairs intern ki (ns_attributes span) = (ki', ia)"
  shows "trace_insert (repr tid gen la rows) span svc ki now =
    (case rows_insert rows (row_of span svc ia) of
       (rows', out) \<Rightarrow> Some (repr tid gen now rows', ki', out))"
proof (cases "index_of (map r_span_id rows) (ns_span_id span)")
  case (Some i)
  then have i: "i < length rows" "r_span_id (rows ! i) = ns_span_id span"
    using index_of_SomeD [OF Some] by auto
  from Some show ?thesis
    using overwrite_refines [OF ok i, of tid gen now svc ia]
    by (simp add: trace_insert_def rows_insert_def ia repr_activity row_of_def)
next
  case None
  let ?r = "row_of span svc ia"
  have fresh: "r_span_id ?r \<notin> set (map r_span_id rows)"
    using None by (simp add: index_of_None row_of_def)
  have keys: "t_attr_keys (repr tid gen now rows) = concat (map (map fst \<circ> r_attrs) rows)"
    by (simp add: repr_def Let_def)
  have len: "length (concat (map (map fst \<circ> r_attrs) rows)) = attr_total rows"
    using length_attr_data(1) [of tid gen now rows] by (simp add: keys)
  from None show ?thesis
    using patch_children_eq [OF fresh, of _ "map r_parent rows @ [r_parent ?r]"]
      insert_fresh_repr [OF fresh, of tid gen now]
    by (simp add: trace_insert_def rows_insert_def ia repr_activity row_of_def resolve_parent_repr keys len)
       (simp add: repr_def Let_def)
qed

section \<open>Rows\<close>

lemma rows_insert_cases:
  obtains (dup) i where "i < length rows" "r_span_id (rows ! i) = r_span_id r"
      "r_span_id r \<in> set (map r_span_id rows)"
      "rows_insert rows r
         = (rows[i := r\<lparr>r_parent := r_parent (rows ! i)\<rparr>], \<lparr>local_idx = i, is_duplicate = True\<rparr>)"
  | (new) "r_span_id r \<notin> set (map r_span_id rows)"
      "rows_insert rows r = (rows @ [r], \<lparr>local_idx = length rows, is_duplicate = False\<rparr>)"
proof (cases "index_of (map r_span_id rows) (r_span_id r)")
  case None
  then have "r_span_id r \<notin> set (map r_span_id rows)" by (simp add: index_of_None)
  moreover from None have "rows_insert rows r = (rows @ [r], \<lparr>local_idx = length rows, is_duplicate = False\<rparr>)"
    by (simp add: rows_insert_def)
  ultimately show thesis by (rule new)
next
  case (Some i)
  then have "i < length rows" "r_span_id (rows ! i) = r_span_id r" using index_of_SomeD [OF Some] by auto
  with Some show thesis by (intro dup [of i]) (auto simp: rows_insert_def image_iff intro: bexI [of _ "rows ! i"])
qed

lemma rows_insert_attr_total:
  "attr_total (fst (rows_insert rows r)) \<le> attr_total rows + length (r_attrs r)"
proof (cases rule: rows_insert_cases [of rows r])
  case (dup i)
  let ?ns = "map (length \<circ> r_attrs) rows"
  have "sum_list (take (length rows) (?ns[i := length (r_attrs r)])) + ?ns ! i
      = sum_list (take (length rows) ?ns) + length (r_attrs r)"
    using dup(1) by (intro sum_list_take_update) auto
  with dup show ?thesis by (simp add: attr_total_def map_update)
next
  case new
  then show ?thesis by (simp add: attr_total_def)
qed

lemma rows_insert_ids:
  "map r_span_id (fst (rows_insert rows r)) =
     (if r_span_id r \<in> set (map r_span_id rows) then map r_span_id rows
      else map r_span_id rows @ [r_span_id r])"
  by (cases rule: rows_insert_cases [of rows r]) (simp_all add: map_update_same)

lemma rows_insert_ok:
  assumes "rows_ok rows" "attr_total rows + length (r_attrs r) < 2 ^ 32"
  shows "rows_ok (fst (rows_insert rows r))"
  using assms rows_insert_attr_total [of rows r] rows_insert_ids [of rows r]
  by (simp add: wf_simps)

text \<open>Where the written row ends up and what the other rows are.\<close>
lemma rows_insert_nth:
  assumes "rows_insert rows r = (rows', out)"
  shows "local_idx out < length rows'"
    and "rows' ! local_idx out = (if is_duplicate out then r\<lparr>r_parent := r_parent (rows ! local_idx out)\<rparr> else r)"
    and "j < length rows \<Longrightarrow> j \<noteq> local_idx out \<Longrightarrow> rows' ! j = rows ! j"
    and "length rows' = (if is_duplicate out then length rows else length rows + 1)"
    and "is_duplicate out \<longleftrightarrow> r_span_id r \<in> set (map r_span_id rows)"
    and "\<not> is_duplicate out \<Longrightarrow> local_idx out = length rows"
    and "is_duplicate out \<Longrightarrow> r_span_id (rows ! local_idx out) = r_span_id r"
proof -
  have "local_idx out < length rows'
    \<and> rows' ! local_idx out = (if is_duplicate out then r\<lparr>r_parent := r_parent (rows ! local_idx out)\<rparr> else r)
    \<and> (j < length rows \<longrightarrow> j \<noteq> local_idx out \<longrightarrow> rows' ! j = rows ! j)
    \<and> length rows' = (if is_duplicate out then length rows else length rows + 1)
    \<and> (is_duplicate out \<longleftrightarrow> r_span_id r \<in> set (map r_span_id rows))
    \<and> (\<not> is_duplicate out \<longrightarrow> local_idx out = length rows)
    \<and> (is_duplicate out \<longrightarrow> r_span_id (rows ! local_idx out) = r_span_id r)"
    using assms by (cases rule: rows_insert_cases [of rows r]) (auto simp: nth_append)
  then show "local_idx out < length rows'"
    and "rows' ! local_idx out = (if is_duplicate out then r\<lparr>r_parent := r_parent (rows ! local_idx out)\<rparr> else r)"
    and "j < length rows \<Longrightarrow> j \<noteq> local_idx out \<Longrightarrow> rows' ! j = rows ! j"
    and "length rows' = (if is_duplicate out then length rows else length rows + 1)"
    and "is_duplicate out \<longleftrightarrow> r_span_id r \<in> set (map r_span_id rows)"
    and "\<not> is_duplicate out \<Longrightarrow> local_idx out = length rows"
    and "is_duplicate out \<Longrightarrow> r_span_id (rows ! local_idx out) = r_span_id r" by auto
qed

section \<open>The invariant\<close>

lemma trace_wf_repr: "rows_ok rows \<Longrightarrow> trace_wf (repr tid gen la rows)"
  unfolding trace_wf_def by auto

lemma trace_wf_new: "trace_wf (trace_new tid now)"
  unfolding repr_empty [symmetric] by (rule trace_wf_repr) (simp add: wf_simps attr_total_def)

lemma trace_wfE:
  assumes "trace_wf t"
  obtains rows where "rows_ok rows" "t = repr (t_trace_id t) (t_generation t) (t_last_activity t) rows"
  using assms unfolding trace_wf_def by blast

text \<open>The number of attribute pairs a trace stores.\<close>
definition attr_count :: "trace \<Rightarrow> nat" where
  "attr_count t = length (t_attr_keys t)"

lemma attr_count_repr [simp]: "attr_count (repr tid gen la rows) = attr_total rows"
  by (simp add: attr_count_def length_attr_data)

lemma span_count_repr [simp]: "span_count (repr tid gen la rows) = length rows"
  by (simp add: span_count_def)

text \<open>Everything an insertion does to a well-formed trace, in terms of its rows.\<close>
lemma trace_insert_rows:
  assumes "trace_wf t" "interner_wf ki" "attr_count t + length (ns_attributes span) < 2 ^ 32"
  obtains rows rows' ki' ia out where
    "rows_ok rows" "t = repr (t_trace_id t) (t_generation t) (t_last_activity t) rows"
    "intern_pairs intern ki (ns_attributes span) = (ki', ia)" "interner_wf ki'"
    "length ia \<le> length (ns_attributes span)"
    "rows_insert rows (row_of span svc ia) = (rows', out)" "rows_ok rows'"
    "attr_total rows' \<le> attr_count t + length (ns_attributes span)"
    "trace_insert t span svc ki now = Some (repr (t_trace_id t) (t_generation t) now rows', ki', out)"
proof -
  from assms(1) obtain rows where rows: "rows_ok rows"
    "t = repr (t_trace_id t) (t_generation t) (t_last_activity t) rows" by (rule trace_wfE)
  obtain ki' ia where ia: "intern_pairs intern ki (ns_attributes span) = (ki', ia)" by fastforce
  obtain rows' out where ri: "rows_insert rows (row_of span svc ia) = (rows', out)" by fastforce
  have len: "length ia \<le> length (ns_attributes span)" using intern_pairs_length [OF ia] .
  have at: "attr_total rows = attr_count t" using rows(2) attr_count_repr by metis
  have tot: "attr_total rows' \<le> attr_total rows + length ia"
    using rows_insert_attr_total [of rows "row_of span svc ia"] ri by (simp add: row_of_def)
  have ok': "rows_ok rows'"
    using rows_insert_ok [OF rows(1), of "row_of span svc ia"] ri len at assms(3)
    by (simp add: row_of_def)
  have ins: "trace_insert t span svc ki now
      = Some (repr (t_trace_id t) (t_generation t) now rows', ki', out)"
    using trace_insert_refines [OF rows(1) ia, of "t_trace_id t" "t_generation t" "t_last_activity t" svc now]
      rows(2) ri by simp
  from si.intern_pairs_inv [OF assms(2) ia] have "interner_wf ki'" .
  with rows ia len ri ok' tot at ins show thesis by (intro that) auto
qed

section \<open>Properties of one insertion\<close>

text \<open>
  \<open>Trace::insert\<close> never panics on a well-formed trace and keeps it well-formed, as long as the
  attribute pairs fit the \<open>u32\<close> offsets: every vector stays in step, the offsets stay those of the
  stored attributes, the span index and the pending children stay exact.  It marks the trace
  active now and leaves its identity and generation alone.
\<close>
lemma trace_insert_wf:
  assumes "trace_wf t" "interner_wf ki" "attr_count t + length (ns_attributes span) < 2 ^ 32"
  shows "\<exists>t' ki' out. trace_insert t span svc ki now = Some (t', ki', out)
    \<and> trace_wf t' \<and> interner_wf ki' \<and> attr_count t' \<le> attr_count t + length (ns_attributes span)
    \<and> t_trace_id t' = t_trace_id t \<and> t_generation t' = t_generation t \<and> t_last_activity t' = now"
  using assms
proof (rule trace_insert_rows [where svc = svc and now = now])
  fix rows rows' ki' ia out
  assume "rows_ok rows'" "interner_wf ki'" "attr_total rows' \<le> attr_count t + length (ns_attributes span)"
    "trace_insert t span svc ki now = Some (repr (t_trace_id t) (t_generation t) now rows', ki', out)"
  then show ?thesis using trace_wf_repr [of rows'] by (intro exI conjI) (assumption | simp)+
qed

lemma rows_insert_set:
  assumes "rows_insert rows r = (rows', out)"
  shows "set rows' \<subseteq> set rows \<union> {r, r\<lparr>r_parent := r_parent (rows ! local_idx out)\<rparr>}"
  using assms set_update_subset_insert [of rows]
  by (cases rule: rows_insert_cases [of rows r]) fastforce+

lemma set_attr_keys_repr:
  "set (t_attr_keys (repr tid gen la rows)) = (\<Union>r \<in> set rows. fst ` set (r_attrs r))"
  by (auto simp: repr_def Let_def)

lemma set_service_repr: "set (t_service_name_id (repr tid gen la rows)) = r_service ` set rows"
  by (simp add: repr_def Let_def)

text \<open>The key and service ids a trace refers to after an insertion.\<close>
lemma trace_insert_refs:
  assumes "trace_wf t" "interner_wf ki" "attr_count t + length (ns_attributes span) < 2 ^ 32"
    and "trace_insert t span svc ki now = Some (t', ki', out)"
  shows "k \<in> set (t_attr_keys t') \<Longrightarrow> k \<in> set (t_attr_keys t) \<or> get ki' k \<noteq> None"
    and "v \<in> set (t_service_name_id t') \<Longrightarrow> v \<in> set (t_service_name_id t) \<or> v = svc"
    and "get ki i = Some x \<Longrightarrow> get ki' i = Some x"
    and "t_span_ids t' = (if ns_span_id span \<in> set (t_span_ids t) then t_span_ids t
                          else t_span_ids t @ [ns_span_id span])"
proof -
  from assms(1-3) obtain rows rows' ki'' ia out' where
    rows: "t = repr (t_trace_id t) (t_generation t) (t_last_activity t) rows"
    and ia: "intern_pairs intern ki (ns_attributes span) = (ki'', ia)"
    and ri: "rows_insert rows (row_of span svc ia) = (rows', out')"
    and res: "trace_insert t span svc ki now = Some (repr (t_trace_id t) (t_generation t) now rows', ki'', out')"
    by (rule trace_insert_rows [where svc = svc and now = now])
  from res assms(4) have t': "t' = repr (t_trace_id t) (t_generation t) now rows'" "ki'' = ki'" by auto
  obtain tid gen la where t: "t = repr tid gen la rows" using rows by blast
  note set' = rows_insert_set [OF ri]
  from si.intern_pairs_resolve [OF assms(2) ia] obtain kept where
    kept: "list_all2 (\<lambda>(i, v) (k, w). v = w \<and> get ki'' i = Some k) ia kept" by blast
  from kept have new: "\<forall>x \<in> set ia. get ki'' (fst x) \<noteq> None"
    by (induction rule: list_all2_induct) auto
  have row: "r \<in> set rows \<or> r_attrs r = ia \<and> r_service r = svc" if "r \<in> set rows'" for r
    using that set' by (auto simp: row_of_def)
  show "k \<in> set (t_attr_keys t) \<or> get ki' k \<noteq> None" if k: "k \<in> set (t_attr_keys t')"
  proof -
    from k obtain r where r: "r \<in> set rows'" "k \<in> fst ` set (r_attrs r)"
      unfolding t'(1) set_attr_keys_repr by blast
    from row [OF r(1)] show ?thesis
    proof
      assume "r \<in> set rows"
      with r(2) show ?thesis unfolding t set_attr_keys_repr by blast
    next
      assume "r_attrs r = ia \<and> r_service r = svc"
      with r(2) new t'(2) show ?thesis by auto
    qed
  qed
  show "v \<in> set (t_service_name_id t) \<or> v = svc" if v: "v \<in> set (t_service_name_id t')"
  proof -
    from v obtain r where r: "r \<in> set rows'" "v = r_service r" unfolding t'(1) set_service_repr by blast
    with row [OF r(1)] show ?thesis unfolding t set_service_repr by blast
  qed
  show "get ki' i = Some x" if "get ki i = Some x"
    using si.intern_pairs_stable [OF assms(2) ia that] t'(2) by simp
  show "t_span_ids t' = (if ns_span_id span \<in> set (t_span_ids t) then t_span_ids t
                          else t_span_ids t @ [ns_span_id span])"
    unfolding t' t using rows_insert_ids [of rows "row_of span svc ia"] ri by (simp add: row_of_def)
qed

definition sample_span :: "nat \<Rightarrow> nat option \<Rightarrow> (string \<times> attr_value) list \<Rightarrow> new_span" where
  "sample_span i p attrs =
    \<lparr>ns_span_id = SpanId (replicate 8 (of_nat i)),
     ns_parent_span_id = map_option (\<lambda>q. SpanId (replicate 8 (of_nat q))) p,
     ns_name = ''op'', ns_start_time_unix_nano = 100, ns_end_time_unix_nano = 200,
     ns_status_message = [], ns_status_code = 0, ns_unknown_service = False,
     ns_service_name = None, ns_attributes = attrs\<rparr>"

lemma sample_span_sel [simp]:
  "ns_span_id (sample_span i p attrs) = SpanId (replicate 8 (of_nat i))"
  "ns_parent_span_id (sample_span i p attrs) = map_option (\<lambda>q. SpanId (replicate 8 (of_nat q))) p"
  "ns_attributes (sample_span i p attrs) = attrs"
  "ns_service_name (sample_span i p attrs) = None"
  by (simp_all add: sample_span_def)

lemma attr_count_new [simp]: "attr_count (trace_new tid now) = 0"
  by (simp add: attr_count_def trace_new_def)

lemma repr_same_parents:
  assumes "map r_span_id rows' = map r_span_id rows" "map r_parent rows' = map r_parent rows"
  shows "parent_idx (repr tid gen la rows') = parent_idx (repr tid' gen' la' rows)"
    "is_orphan (repr tid gen la rows') = is_orphan (repr tid' gen' la' rows)"
  by (simp_all add: fun_eq_iff parent_idx_def is_orphan_def repr_def Let_def assms)

lemma repr_parent_link:
  assumes "i < length rows"
  shows "case r_parent (rows ! i) of
      None \<Rightarrow> parent_idx (repr tid gen la rows) i = Some None \<and> is_orphan (repr tid gen la rows) i = Some False
    | Some pid \<Rightarrow>
        if pid \<in> set (t_span_ids (repr tid gen la rows))
        then is_orphan (repr tid gen la rows) i = Some False
          \<and> (\<exists>p. parent_idx (repr tid gen la rows) i = Some (Some p) \<and> span_id (repr tid gen la rows) p = Some pid)
        else is_orphan (repr tid gen la rows) i = Some True \<and> parent_idx (repr tid gen la rows) i = Some None"
proof (cases "r_parent (rows ! i)")
  case None
  then show ?thesis by (simp add: repr_access [OF assms] parent_in_def orphan_in_def)
next
  case (Some pid)
  show ?thesis
  proof (cases "index_of (map r_span_id rows) pid")
    case None
    with Some show ?thesis by (simp add: repr_access [OF assms] parent_in_def orphan_in_def index_of_None)
  next
    case (Some p)
    from index_of_SomeD [OF this] have "p < length rows" "r_span_id (rows ! p) = pid" by auto
    with Some \<open>r_parent (rows ! i) = Some pid\<close> show ?thesis
      by (auto simp: repr_access [OF assms] repr_access parent_in_def orphan_in_def)
  qed
qed

lemma rows_insert_parents:
  assumes "rows_insert rows r = (rows', out)" "is_duplicate out"
  shows "map r_span_id rows' = map r_span_id rows" "map r_parent rows' = map r_parent rows"
  using assms by (cases rule: rows_insert_cases [of rows r]; auto simp: map_update_same)+

text \<open>
  C11. Last write wins, but for the parent.  An insertion succeeds as a duplicate exactly when the span's
  id was already stored, and then the trace does not grow.  At its position every accessor reads
  back what was sent: id, name, times, status, service, flag, and as attributes the pairs that the
  interner accepted.  A duplicate leaves the parent position and the orphan flag of every span as
  they were, its own included, whatever parent it names; a new span is appended, linked to the
  parent it names if that is stored and otherwise flagged as an orphan.  No other span changes in any
  other field.
\<close>
theorem insert_last_write_wins:
  assumes "trace_wf t" "interner_wf ki" "attr_count t + length (ns_attributes span) < 2 ^ 32"
    and "trace_insert t span svc ki now = Some (t', ki', out)"
  shows "(is_duplicate out \<longleftrightarrow> ns_span_id span \<in> set (t_span_ids t))
    \<and> span_count t' = (if is_duplicate out then span_count t else span_count t + 1)
    \<and> span_id t' (local_idx out) = Some (ns_span_id span)
    \<and> name t' (local_idx out) = Some (ns_name span)
    \<and> start_time_unix_nano t' (local_idx out) = Some (ns_start_time_unix_nano span)
    \<and> end_time_unix_nano t' (local_idx out) = Some (ns_end_time_unix_nano span)
    \<and> status_message t' (local_idx out) = Some (ns_status_message span)
    \<and> status_code t' (local_idx out) = Some (ns_status_code span)
    \<and> unknown_service t' (local_idx out) = Some (ns_unknown_service span)
    \<and> service_name_id t' (local_idx out) = Some svc
    \<and> attribute_keys t' (local_idx out) = Some (map fst (snd (intern_pairs intern ki (ns_attributes span))))
    \<and> attributes t' (local_idx out) = Some (map snd (snd (intern_pairs intern ki (ns_attributes span))))
    \<and> (if is_duplicate out then parent_idx t' = parent_idx t \<and> is_orphan t' = is_orphan t
       else local_idx out = span_count t
         \<and> (case ns_parent_span_id span of
              None \<Rightarrow> parent_idx t' (local_idx out) = Some None \<and> is_orphan t' (local_idx out) = Some False
            | Some pid \<Rightarrow>
                if pid \<in> set (t_span_ids t')
                then is_orphan t' (local_idx out) = Some False
                  \<and> (\<exists>p. parent_idx t' (local_idx out) = Some (Some p) \<and> span_id t' p = Some pid)
                else is_orphan t' (local_idx out) = Some True \<and> parent_idx t' (local_idx out) = Some None))
    \<and> (\<forall>j < span_count t. j \<noteq> local_idx out \<longrightarrow>
          span_id t' j = span_id t j \<and> name t' j = name t j
        \<and> start_time_unix_nano t' j = start_time_unix_nano t j \<and> end_time_unix_nano t' j = end_time_unix_nano t j
        \<and> status_message t' j = status_message t j \<and> status_code t' j = status_code t j
        \<and> unknown_service t' j = unknown_service t j \<and> service_name_id t' j = service_name_id t j
        \<and> attributes t' j = attributes t j \<and> attribute_keys t' j = attribute_keys t j)"
  using assms(1-3)
proof (rule trace_insert_rows [where svc = svc and now = now])
  fix rows rows' ki'' ia out'
  assume rows: "rows_ok rows" "t = repr (t_trace_id t) (t_generation t) (t_last_activity t) rows"
    and ia: "intern_pairs intern ki (ns_attributes span) = (ki'', ia)"
    and ins: "rows_insert rows (row_of span svc ia) = (rows', out')" and ok': "rows_ok rows'"
    and res: "trace_insert t span svc ki now = Some (repr (t_trace_id t) (t_generation t) now rows', ki'', out')"
  from res assms(4) have t': "t' = repr (t_trace_id t) (t_generation t) now rows'" "out' = out" by auto
  note w = rows_insert_nth [OF ins, unfolded t'(2)]
  obtain tid gen la where t: "t = repr tid gen la rows" using rows(2) by blast
  have lt: "j < length rows \<Longrightarrow> j < length rows'" for j using w(4) by simp
  have same: "parent_idx t' = parent_idx t \<and> is_orphan t' = is_orphan t" if "is_duplicate out"
    using repr_same_parents [OF rows_insert_parents [OF ins], of "t_trace_id t" "t_generation t" now tid gen la] that t'
    by (simp add: t [symmetric])
  have new: "case ns_parent_span_id span of
        None \<Rightarrow> parent_idx t' (local_idx out) = Some None \<and> is_orphan t' (local_idx out) = Some False
      | Some pid \<Rightarrow>
          if pid \<in> set (t_span_ids t')
          then is_orphan t' (local_idx out) = Some False
            \<and> (\<exists>p. parent_idx t' (local_idx out) = Some (Some p) \<and> span_id t' p = Some pid)
          else is_orphan t' (local_idx out) = Some True \<and> parent_idx t' (local_idx out) = Some None"
    if "\<not> is_duplicate out"
  proof -
    have "r_parent (rows' ! local_idx out) = ns_parent_span_id span" using w(2) that by (simp add: row_of_def)
    with repr_parent_link [OF w(1), where tid = "t_trace_id t" and gen = "t_generation t" and la = now]
    show ?thesis unfolding t'(1) by (simp only:)
  qed
  note acc' = repr_access(1-8) [of _ rows' "t_trace_id t" "t_generation t" now, folded t'(1)]
    repr_attrs [OF ok', of _ "t_trace_id t" "t_generation t" now, folded t'(1)]
  note acc = repr_access(1-8) [of _ rows tid gen la, folded t] repr_attrs [OF rows(1), of _ tid gen la, folded t]
  have len: "span_count t = length rows" "span_count t' = length rows'" "t_span_ids t = map r_span_id rows"
    by (simp_all add: t t'(1))
  show ?thesis
    using same new w(1,2,4,5,6) w(3) lt unfolding len(1,2)
    by (auto simp: len(3) ia acc acc' row_of_def split: if_splits)
qed

abbreviation sample_trace_id :: trace_id where
  "sample_trace_id \<equiv> TraceId (replicate 16 1)"

lemma interner_new_wf10 [simp]: "interner_wf (interner_new 10)"
  by (rule interner_wf_new) simp

lemma intern_pairs_new10 [simp]:
  "intern_pairs intern (interner_new 10) [(k, v)] =
    ((interner_new 10)\<lparr>i_values := [k], i_map := [k \<mapsto> 0]\<rparr>, [(0, v)])"
  by (simp add: intern_def interner_new_def Let_def)

text \<open>An orphan that is sent again without a parent stays an orphan.\<close>
theorem insert_last_write_wins_witness:
  "\<exists>t1 k1 o1 t2 k2 o2.
      trace_insert (trace_new sample_trace_id 0) (sample_span 1 (Some 7) []) None (interner_new 10) 5 = Some (t1, k1, o1)
    \<and> \<not> is_duplicate o1 \<and> is_orphan t1 (local_idx o1) = Some True
    \<and> trace_insert t1 (sample_span 1 None [(''k'', Bool True)]) None k1 6 = Some (t2, k2, o2)
    \<and> is_duplicate o2 \<and> span_count t2 = 1 \<and> is_orphan t2 = is_orphan t1 \<and> attributes t2 (local_idx o2) = Some [Bool True]"
proof -
  let ?s1 = "sample_span 1 (Some 7) []" and ?s2 = "sample_span 1 None [(''k'', Bool True)]"
    and ?t = "trace_new sample_trace_id 0"
  have b1: "attr_count ?t + length (ns_attributes ?s1) < 2 ^ 32" by simp
  from trace_insert_wf [OF trace_wf_new interner_new_wf10 b1, of None 5]
  obtain t1 k1 o1 where e1: "trace_insert ?t ?s1 None (interner_new 10) 5 = Some (t1, k1, o1)"
    "trace_wf t1" "interner_wf k1" "attr_count t1 \<le> 0" by auto
  have ki: "k1 = interner_new 10" using e1(1) by (auto simp: trace_insert_def Let_def split: option.splits Option.bind_splits prod.splits)
  have b2: "attr_count t1 + length (ns_attributes ?s2) < 2 ^ 32" using e1(4) by simp
  from trace_insert_wf [OF e1(2,3) b2, of None 6]
  obtain t2 k2 o2 where e2: "trace_insert t1 ?s2 None k1 6 = Some (t2, k2, o2)" by blast
  note first = insert_last_write_wins [OF trace_wf_new interner_new_wf10 b1 e1(1)]
    and second = insert_last_write_wins [OF e1(2,3) b2 e2]
  have o1: "\<not> is_duplicate o1" "span_count t1 = 1" "local_idx o1 = 0" using first by (auto simp: trace_new_def span_count_def)
  then have ids: "t_span_ids t1 = [SpanId (replicate 8 1)]"
    using first by (cases "t_span_ids t1") (auto simp: span_count_def span_id_def)
  have "is_orphan t1 (local_idx o1) = Some True" using first o1(1) by (auto simp: ids)
  moreover have "is_duplicate o2" using second by (simp add: ids)
  ultimately show ?thesis using e1(1) e2 o1(1,2) second by (auto simp: ki intern_def interner_new_def)
qed

text \<open>
  C12. What the compressed-sparse-row layout stores for the written span are the attributes that
  were sent, in order, minus exactly the pairs whose key the full interner refused: the stored
  key ids resolve in the interner to the keys sent, with the values sent, and the refusal counter
  grows by the number of pairs dropped.
\<close>
theorem stored_attributes_resolve:
  assumes "trace_wf t" "interner_wf ki" "attr_count t + length (ns_attributes span) < 2 ^ 32"
    and "trace_insert t span svc ki now = Some (t', ki', out)"
  shows "\<exists>ks vs kept. attribute_keys t' (local_idx out) = Some ks \<and> attributes t' (local_idx out) = Some vs
    \<and> subseq kept (ns_attributes span) \<and> vs = map snd kept
    \<and> map (get ki') ks = map (Some \<circ> fst) kept
    \<and> cap_hit_count ki' = cap_hit_count ki + of_nat (length (ns_attributes span) - length kept)"
  using assms(1-3)
proof (rule trace_insert_rows [where svc = svc and now = now])
  fix rows rows' ki'' ia out'
  assume ia: "intern_pairs intern ki (ns_attributes span) = (ki'', ia)"
    and ins: "rows_insert rows (row_of span svc ia) = (rows', out')" and ok': "rows_ok rows'"
    and res: "trace_insert t span svc ki now = Some (repr (t_trace_id t) (t_generation t) now rows', ki'', out')"
  from res assms(4) have t': "t' = repr (t_trace_id t) (t_generation t) now rows'" "ki'' = ki'" "out' = out" by auto
  note w = rows_insert_nth [OF ins, unfolded t'(3)]
  from si.intern_pairs_resolve [OF assms(2) ia] obtain kept where kept: "subseq kept (ns_attributes span)"
    "list_all2 (\<lambda>(i, v) (k, w). v = w \<and> get ki'' i = Some k) ia kept" by blast
  from kept(2) have len: "length ia = length kept" by (rule list_all2_lengthD)
  from kept(2) have vs: "map snd ia = map snd kept" "map (get ki'' \<circ> fst) ia = map (Some \<circ> fst) kept"
    by (induction rule: list_all2_induct) auto
  have "r_attrs (rows' ! local_idx out) = ia" using w(2) by (simp add: row_of_def)
  then show ?thesis
    using repr_attrs [OF ok' w(1), of "t_trace_id t" "t_generation t" now] kept(1) vs len
      intern_pairs_refusals [OF ia]
    by (intro exI [of _ "map fst ia"] exI [of _ "map snd ia"] exI [of _ kept])
       (simp add: t' cap_hit_count_def comp_def)
qed

theorem stored_attributes_resolve_witness:
  "\<exists>t' ki' out ks vs. trace_insert (trace_new sample_trace_id 0) (sample_span 1 None [(''k'', Bool True)])
      None (interner_new 10) 5 = Some (t', ki', out)
    \<and> attribute_keys t' (local_idx out) = Some ks \<and> attributes t' (local_idx out) = Some vs"
proof -
  let ?s = "sample_span 1 None [(''k'', Bool True)]" and ?t = "trace_new sample_trace_id 0"
  have b: "attr_count ?t + length (ns_attributes ?s) < 2 ^ 32" by simp
  from trace_insert_wf [OF trace_wf_new interner_new_wf10 b, of None 5]
  obtain t' ki' out where e: "trace_insert ?t ?s None (interner_new 10) 5 = Some (t', ki', out)" by blast
  from stored_attributes_resolve [OF trace_wf_new interner_new_wf10 b e] e show ?thesis by blast
qed

text \<open>
  The layout the comments of \<open>Trace\<close> promise: every vector has one entry per span, \<open>attr_offsets\<close>
  has one more, starts at 0, never decreases and ends at the length of the dense arrays, and the
  ragged accessors answer on exactly the span indices below the span count.
\<close>
definition csr_layout :: "trace \<Rightarrow> bool" where
  "csr_layout t \<longleftrightarrow>
    length (t_names t) = span_count t \<and> length (t_parent_idx t) = span_count t
    \<and> length (t_start t) = span_count t \<and> length (t_end t) = span_count t
    \<and> length (t_status_message t) = span_count t \<and> length (t_status_code t) = span_count t
    \<and> length (t_orphan t) = span_count t \<and> length (t_unknown_service t) = span_count t
    \<and> length (t_service_name_id t) = span_count t
    \<and> length (t_attr_offsets t) = span_count t + 1
    \<and> t_attr_offsets t ! 0 = 0 \<and> sorted (map unat (t_attr_offsets t))
    \<and> unat (last (t_attr_offsets t)) = length (t_attr_keys t)
    \<and> length (t_attr_values t) = length (t_attr_keys t)
    \<and> (\<forall>i. (attributes t i \<noteq> None) = (i < span_count t) \<and> (name t i \<noteq> None) = (i < span_count t))"

lemma csr_layout_wf:
  assumes "trace_wf t"
  shows "csr_layout t"
proof -
  from assms obtain tid gen la rows where ok: "rows_ok rows" and t: "t = repr tid gen la rows"
    by (rule trace_wfE)
  let ?ns = "map (length \<circ> r_attrs) rows" and ?o = "t_attr_offsets t"
  have o: "?o = map of_nat (prefix_sums 0 ?ns)" by (simp add: t repr_def Let_def)
  have u: "unat (?o ! j) = sum_list (take j ?ns)" if "j \<le> length rows" for j
    using attr_offset(2) [OF ok that] that by (simp add: o)
  have "sorted (map unat ?o)"
    unfolding sorted_iff_nth_Suc
  proof (intro allI impI)
    fix j assume "Suc j < length (map unat ?o)"
    then have "Suc j \<le> length rows" by (simp add: o)
    then show "map unat ?o ! j \<le> map unat ?o ! Suc j"
      using u [of j] u [of "Suc j"] sum_list_take_mono [of j ?ns] by (simp add: o)
  qed
  moreover have "?o \<noteq> []" "length ?o = Suc (length rows)" by (simp_all add: o flip: length_0_conv)
  then have "last ?o = ?o ! length rows" by (simp add: last_conv_nth)
  then have "unat (last ?o) = length (t_attr_keys t)"
    using u [of "length rows"] length_attr_data(1) [of tid gen la rows] by (simp add: t attr_total_def)
  moreover have "attributes t i \<noteq> None \<longleftrightarrow> i < length rows" for i
  proof (cases "i < length rows")
    case True
    then show ?thesis using repr_attrs(1) [OF ok, of i] by (simp add: t)
  next
    case False
    then have "vec_index ?o (i + 1) = None" by (simp add: o vec_index_eq_None)
    with False show ?thesis by (auto simp: attributes_def split: Option.bind_split)
  qed
  ultimately show ?thesis
    using o length_attr_data [of tid gen la rows]
    by (simp add: csr_layout_def t name_def vec_index_def) (simp add: repr_def Let_def span_count_def)
qed

section \<open>Sequences of insertions\<close>

primrec insert_seq ::
    "trace \<Rightarrow> interner \<Rightarrow> (new_span \<times> u32 option \<times> u64) list \<Rightarrow> (trace \<times> interner) panics" where
  "insert_seq t ki [] = Some (t, ki)"
| "insert_seq t ki (x # xs) =
    do { (t', ki', out) \<leftarrow> trace_insert t (fst x) (fst (snd x)) ki (snd (snd x)); insert_seq t' ki' xs }"

text \<open>The parent the first span with this id named.\<close>
definition first_parent :: "new_span list \<Rightarrow> span_id \<Rightarrow> span_id option" where
  "first_parent ss sid =
    (case find (\<lambda>s. ns_span_id s = sid) ss of Some s \<Rightarrow> ns_parent_span_id s | None \<Rightarrow> None)"

lemma first_parent_append:
  "sid \<in> ns_span_id ` set ss \<Longrightarrow> first_parent (ss @ ss') sid = first_parent ss sid"
  by (induction ss) (auto simp: first_parent_def)

lemma first_parent_new:
  "ns_span_id s \<notin> ns_span_id ` set ss \<Longrightarrow> first_parent (ss @ [s]) (ns_span_id s) = ns_parent_span_id s"
  by (induction ss) (auto simp: first_parent_def)

definition attrs_sent :: "(new_span \<times> u32 option \<times> u64) list \<Rightarrow> nat" where
  "attrs_sent xs = sum_list (map (length \<circ> ns_attributes \<circ> fst) xs)"

text \<open>The rows remember, for every span received so far, the parent its first write named.\<close>
definition rows_history :: "new_span list \<Rightarrow> span_row list \<Rightarrow> bool" where
  "rows_history ss rows \<longleftrightarrow>
     set (map r_span_id rows) = ns_span_id ` set ss
     \<and> (\<forall>r \<in> set rows. r_parent r = first_parent ss (r_span_id r))"

lemma rows_history_insert:
  assumes "rows_history ss rows" "rows_insert rows (row_of s svc ia) = (rows', out)"
  shows "rows_history (ss @ [s]) rows'"
proof (cases rule: rows_insert_cases [of rows "row_of s svc ia"])
  case (dup i)
  then have s: "ns_span_id s \<in> ns_span_id ` set ss" and ids: "set (map r_span_id rows') = set (map r_span_id rows)"
    using assms rows_insert_ids [of rows "row_of s svc ia"] by (auto simp: rows_history_def row_of_def)
  have old: "r_parent r = first_parent ss (r_span_id r)" if "r \<in> set rows" for r
    using that assms(1) by (simp add: rows_history_def)
  have "r_parent r = first_parent ss (r_span_id r)" if "r \<in> set rows'" for r
  proof -
    from that dup(4) assms(2) set_update_subset_insert
    have "r = (row_of s svc ia)\<lparr>r_parent := r_parent (rows ! i)\<rparr> \<or> r \<in> set rows" by fastforce
    with old [of "rows ! i"] old [of r] dup(1,2) show ?thesis by (auto simp: row_of_def)
  qed
  moreover have "r_span_id r \<in> ns_span_id ` set ss" if "r \<in> set rows'" for r
    using that ids assms(1) by (auto simp: rows_history_def)
  ultimately show ?thesis
    using ids s assms(1) by (auto simp: rows_history_def first_parent_append)
next
  case new
  then have "ns_span_id s \<notin> ns_span_id ` set ss" using assms(1) by (auto simp: rows_history_def row_of_def)
  moreover have "r_span_id r \<in> ns_span_id ` set ss" if "r \<in> set rows" for r
    using that assms(1) by (auto simp: rows_history_def)
  ultimately show ?thesis
    using new assms by (auto simp: rows_history_def row_of_def first_parent_append first_parent_new)
qed

lemma insert_seq_rows:
  assumes "rows_ok rows" "interner_wf ki" "attr_total rows + attrs_sent xs < 2 ^ 32" "rows_history ss rows"
  shows "\<exists>la' rows' ki'. insert_seq (repr tid gen la rows) ki xs = Some (repr tid gen la' rows', ki')
    \<and> rows_ok rows' \<and> rows_history (ss @ map fst xs) rows'"
  using assms
proof (induction xs arbitrary: la rows ki ss)
  case Nil
  then show ?case by auto
next
  case (Cons x xs)
  let ?t = "repr tid gen la rows"
  have b: "attr_count ?t + length (ns_attributes (fst x)) < 2 ^ 32" using Cons.prems(3) by (simp add: attrs_sent_def)
  obtain ki' ia where ia: "intern_pairs intern ki (ns_attributes (fst x)) = (ki', ia)" by fastforce
  obtain rows' out where ri: "rows_insert rows (row_of (fst x) (fst (snd x)) ia) = (rows', out)" by fastforce
  have tot: "attr_total rows' \<le> attr_total rows + length ia"
    using rows_insert_attr_total [of rows "row_of (fst x) (fst (snd x)) ia"] ri by (simp add: row_of_def)
  have len: "length ia \<le> length (ns_attributes (fst x))" using intern_pairs_length [OF ia] .
  have ok': "rows_ok rows'"
    using rows_insert_ok [OF Cons.prems(1), of "row_of (fst x) (fst (snd x)) ia"] ri len b by (simp add: row_of_def)
  have "attr_total rows' + attrs_sent xs < 2 ^ 32" using tot len Cons.prems(3) by (simp add: attrs_sent_def)
  from Cons.IH [OF ok' si.intern_pairs_inv [OF Cons.prems(2) ia] this
      rows_history_insert [OF Cons.prems(4) ri], of "snd (snd x)"]
  show ?case
    using trace_insert_refines [OF Cons.prems(1) ia, of tid gen la "fst (snd x)" "snd (snd x)"] ri by simp
qed

text \<open>
  C10. Out-of-order arrival heals itself.  Whatever spans are inserted into a fresh trace, in
  whatever order and with whatever duplicates: the insertions succeed, the trace holds each
  distinct span id once, the parent index of every span is the position of the span its first
  write named if that span has arrived at any time before or after it, and the span is flagged
  an orphan exactly when it named a parent that has not arrived.
\<close>
theorem parent_links_self_heal:
  assumes "interner_wf ki" "attrs_sent xs < 2 ^ 32"
  shows "\<exists>t ki'. insert_seq (trace_new tid now) ki xs = Some (t, ki')
    \<and> distinct (t_span_ids t) \<and> set (t_span_ids t) = ns_span_id ` set (map fst xs)
    \<and> (\<forall>i < span_count t.
          let p = first_parent (map fst xs) (t_span_ids t ! i)
          in parent_idx t i = Some (Option.bind p (index_of (t_span_ids t)))
           \<and> is_orphan t i = Some (\<exists>pid. p = Some pid \<and> pid \<notin> ns_span_id ` set (map fst xs)))"
proof -
  have "rows_history [] []" "rows_ok []" by (simp_all add: rows_history_def wf_simps attr_total_def)
  with insert_seq_rows [of "[]" ki xs "[]" tid 0 now] assms obtain la rows ki' where
    e: "insert_seq (trace_new tid now) ki xs = Some (repr tid 0 la rows, ki')"
    and ok: "rows_ok rows" and h: "rows_history (map fst xs) rows"
    by (auto simp: repr_empty attr_total_def)
  have "parent_idx (repr tid 0 la rows) i = Some (Option.bind p (index_of (map r_span_id rows)))
      \<and> is_orphan (repr tid 0 la rows) i = Some (\<exists>pid. p = Some pid \<and> pid \<notin> ns_span_id ` set (map fst xs))"
    if "i < length rows" "p = first_parent (map fst xs) (map r_span_id rows ! i)" for i p
  proof -
    have "r_parent (rows ! i) = p" using that h by (auto simp: rows_history_def)
    with that(1) h show ?thesis
      by (cases p) (auto simp: repr_access parent_in_def orphan_in_def index_of_None rows_history_def)
  qed
  with e ok h show ?thesis by (auto simp: rows_history_def wf_simps Let_def)
qed

theorem parent_links_self_heal_witness:
  "\<exists>t ki'. insert_seq (trace_new sample_trace_id 0) (interner_new 10)
      [(sample_span 2 (Some 1) [], None, 0), (sample_span 1 None [], None, 1)] = Some (t, ki')
    \<and> span_count t = 2 \<and> parent_idx t 0 = Some (Some 1) \<and> is_orphan t 0 = Some False"
proof -
  let ?xs = "[(sample_span 2 (Some 1) [], None :: u32 option, 0 :: u64), (sample_span 1 None [], None, 1)]"
  have b: "attrs_sent ?xs < 2 ^ 32" by (simp add: attrs_sent_def)
  have "insert_seq (trace_new sample_trace_id 0) (interner_new 10) ?xs
      = Some (the (insert_seq (trace_new sample_trace_id 0) (interner_new 10) ?xs))"
    using parent_links_self_heal [OF interner_new_wf10 b, of sample_trace_id 0] by auto
  then show ?thesis
    by (simp add: trace_insert_def trace_new_def sample_span_def resolve_parent_def patch_children_def
        vec_set_def Let_def span_count_def parent_idx_def is_orphan_def vec_index_def)
qed

text \<open>
  C8. The struct of arrays never comes apart: whatever spans are inserted into a fresh trace, with
  whatever duplicates, as long as they carry fewer than \<open>2 ^ 32\<close> attribute pairs, every insertion
  succeeds and the trace it ends with has the promised layout: one entry per distinct span id in
  every column, and monotone attribute offsets from 0 to the length of the dense arrays, so that
  every accessor answers on every span index and none reaches another span's attributes.
\<close>
theorem trace_layout:
  assumes "interner_wf ki" "attrs_sent xs < 2 ^ 32"
  shows "\<exists>t ki'. insert_seq (trace_new tid now) ki xs = Some (t, ki') \<and> csr_layout t
    \<and> span_count t = card (ns_span_id ` set (map fst xs))"
proof -
  have "rows_history [] []" "rows_ok []" by (simp_all add: rows_history_def wf_simps attr_total_def)
  with insert_seq_rows [of "[]" ki xs "[]" tid 0 now] assms obtain la rows ki' where
    e: "insert_seq (trace_new tid now) ki xs = Some (repr tid 0 la rows, ki')"
    and ok: "rows_ok rows" and h: "rows_history (map fst xs) rows"
    by (auto simp: repr_empty attr_total_def)
  have "length rows = card (ns_span_id ` set (map fst xs))"
    using ok h distinct_card [of "map r_span_id rows"] by (simp add: rows_history_def wf_simps)
  with e csr_layout_wf [OF trace_wf_repr [OF ok]] show ?thesis by auto
qed

theorem trace_layout_witness:
  "\<exists>t ki'. insert_seq (trace_new sample_trace_id 0) (interner_new 10)
      [(sample_span 2 (Some 1) [(''a'', Bool True)], None, 0), (sample_span 1 None [(''b'', Bool False)], None, 1),
       (sample_span 2 None [], None, 2)] = Some (t, ki') \<and> csr_layout t \<and> span_count t = 2"
proof -
  let ?xs = "[(sample_span 2 (Some 1) [(''a'', Bool True)], None :: u32 option, 0 :: u64),
    (sample_span 1 None [(''b'', Bool False)], None, 1), (sample_span 2 None [], None, 2)]"
  have b: "attrs_sent ?xs < 2 ^ 32" by (simp add: attrs_sent_def)
  have "card (ns_span_id ` set (map fst ?xs)) = 2" by (simp add: sample_span_def card_insert_if)
  with trace_layout [OF interner_new_wf10 b, of sample_trace_id 0] show ?thesis by simp
qed

text \<open>The parent of a stored span as a span id, read through the index and the parent vector.\<close>
definition parent_span :: "trace \<Rightarrow> span_id \<Rightarrow> span_id option" where
  "parent_span t sid =
    do { i \<leftarrow> t_span_index t sid; pidx \<leftarrow> vec_index (t_parent_idx t) i; p \<leftarrow> pidx; vec_index (t_span_ids t) p }"

lemma parent_span_repr:
  assumes "rows_ok rows" "rows_history ss rows" "sid \<in> ns_span_id ` set ss"
  shows "parent_span (repr tid gen la rows) sid =
    (case first_parent ss sid of None \<Rightarrow> None | Some p \<Rightarrow> if p \<in> ns_span_id ` set ss then Some p else None)"
proof -
  let ?ids = "map r_span_id rows"
  have ids: "set ?ids = ns_span_id ` set ss" using assms(2) by (simp add: rows_history_def)
  have get: "Option.bind (index_of ?ids p) (vec_index ?ids) = (if p \<in> ns_span_id ` set ss then Some p else None)" for p
    using index_of_None [of ?ids p] index_of_SomeD [of ?ids p] ids
    by (cases "index_of ?ids p") (auto simp: vec_index_def)
  from assms(3) ids obtain i where i: "index_of ?ids sid = Some i" by (metis index_of_None not_None_eq)
  then have i': "i < length rows" "r_span_id (rows ! i) = sid" using index_of_SomeD [OF i] by auto
  then have "r_parent (rows ! i) = first_parent ss sid" using assms(2) by (auto simp: rows_history_def)
  with i i'(1) get show ?thesis
    by (cases "first_parent ss sid") (simp_all add: parent_span_def repr_def Let_def parent_in_def)
qed

lemma first_parent_perm:
  assumes "set ss = set ss'" "distinct (map ns_span_id ss)" "distinct (map ns_span_id ss')"
  shows "first_parent ss sid = first_parent ss' sid"
proof -
  have unique: "s \<in> set ss \<Longrightarrow> distinct (map ns_span_id ss) \<Longrightarrow> first_parent ss (ns_span_id s) = ns_parent_span_id s"
    for s ss by (induction ss) (auto simp: first_parent_def)
  have absent: "sid \<notin> ns_span_id ` set ss \<Longrightarrow> first_parent ss sid = None" for ss
    by (induction ss) (auto simp: first_parent_def)
  show ?thesis
  proof (cases "sid \<in> ns_span_id ` set ss")
    case True
    then obtain s where "s \<in> set ss" "sid = ns_span_id s" by blast
    then show ?thesis using unique [of s] assms by simp
  next
    case False
    then show ?thesis using absent assms(1) by metis
  qed
qed

text \<open>
  C9. The resolved topology does not depend on arrival order: two arrival orders of the same
  spans (one span per id) end with every span having the same parent span.
\<close>
theorem parents_order_independent:
  assumes "interner_wf ki" "attrs_sent xs < 2 ^ 32" "attrs_sent ys < 2 ^ 32"
    and "set (map fst xs) = set (map fst ys)"
    and "distinct (map (ns_span_id \<circ> fst) xs)" "distinct (map (ns_span_id \<circ> fst) ys)"
  shows "\<exists>t kt u ku. insert_seq (trace_new tid now) ki xs = Some (t, kt)
    \<and> insert_seq (trace_new tid now) ki ys = Some (u, ku)
    \<and> set (t_span_ids t) = set (t_span_ids u)
    \<and> (\<forall>sid \<in> set (t_span_ids t). parent_span t sid = parent_span u sid)"
proof -
  have start: "rows_history [] []" "rows_ok []" by (simp_all add: rows_history_def wf_simps attr_total_def)
  have run: "\<exists>la rows k. insert_seq (trace_new tid now) ki zs = Some (repr tid 0 la rows, k)
      \<and> rows_ok rows \<and> rows_history (map fst zs) rows" if "attrs_sent zs < 2 ^ 32" for zs
    using insert_seq_rows [OF start(2) assms(1) _ start(1), of zs tid 0 now] that
    by (auto simp: repr_empty attr_total_def)
  from run [OF assms(2)] run [OF assms(3)] obtain la rows kt la' rows' ku where
    x: "insert_seq (trace_new tid now) ki xs = Some (repr tid 0 la rows, kt)" "rows_ok rows" "rows_history (map fst xs) rows"
    and y: "insert_seq (trace_new tid now) ki ys = Some (repr tid 0 la' rows', ku)" "rows_ok rows'" "rows_history (map fst ys) rows'"
    by blast
  have fp: "first_parent (map fst xs) sid = first_parent (map fst ys) sid" for sid
    using assms(4-6) by (intro first_parent_perm) simp_all
  have ids: "set (t_span_ids (repr tid 0 la rows)) = ns_span_id ` set (map fst xs)"
    "set (t_span_ids (repr tid 0 la' rows')) = ns_span_id ` set (map fst ys)"
    using x(3) y(3) by (simp_all add: rows_history_def)
  have "parent_span (repr tid 0 la rows) sid = parent_span (repr tid 0 la' rows') sid"
    if "sid \<in> ns_span_id ` set (map fst xs)" for sid
    using parent_span_repr [OF x(2,3) that] parent_span_repr [OF y(2,3), of sid] that fp assms(4)
    by (simp cong: option.case_cong)
  with x(1) y(1) ids assms(4) show ?thesis
    by (intro exI [of _ "repr tid 0 la rows"] exI [of _ kt] exI [of _ "repr tid 0 la' rows'"] exI [of _ ku]) simp
qed

theorem parents_order_independent_witness:
  "\<exists>t kt u ku.
     insert_seq (trace_new sample_trace_id 0) (interner_new 10)
       [(sample_span 2 (Some 1) [], None, 0), (sample_span 1 None [], None, 1)] = Some (t, kt)
   \<and> insert_seq (trace_new sample_trace_id 0) (interner_new 10)
       [(sample_span 1 None [], None, 0), (sample_span 2 (Some 1) [], None, 1)] = Some (u, ku)
   \<and> (\<forall>sid \<in> set (t_span_ids t). parent_span t sid = parent_span u sid)"
proof -
  let ?xs = "[(sample_span 2 (Some 1) [], None :: u32 option, 0 :: u64), (sample_span 1 None [], None, 1)]"
  let ?ys = "[(sample_span 1 None [], None :: u32 option, 0 :: u64), (sample_span 2 (Some 1) [], None, 1)]"
  have "attrs_sent ?xs < 2 ^ 32" "attrs_sent ?ys < 2 ^ 32" "set (map fst ?xs) = set (map fst ?ys)"
    "distinct (map (ns_span_id \<circ> fst) ?xs)" "distinct (map (ns_span_id \<circ> fst) ?ys)"
    by (simp_all add: attrs_sent_def insert_commute)
  from parents_order_independent [OF interner_new_wf10 this, of sample_trace_id 0] show ?thesis by blast
qed

text \<open>
  \<open>Trace::duration_nanos\<close> never underflows: it returns \<open>d\<close> exactly when the trace has spans,
  the latest end is not before the earliest start, and \<open>d\<close> is their difference as mathematical
  integers; in every other case it is \<open>None\<close>.
\<close>
lemma duration_nanos_exact:
  assumes "trace_wf t"
  shows "duration_nanos t = Some d \<longleftrightarrow>
    0 < span_count t \<and> unat (Min (set (t_start t))) \<le> unat (Max (set (t_end t)))
    \<and> unat d = unat (Max (set (t_end t))) - unat (Min (set (t_start t)))"
proof -
  from assms obtain tid gen la rows where t: "t = repr tid gen la rows" by (rule trace_wfE)
  show ?thesis
  proof (cases rows)
    case Nil
    then show ?thesis by (simp add: t duration_nanos_def)
  next
    case (Cons r rs)
    then show ?thesis
      using Min.set_eq_fold [of "r_start r" "map r_start rs"] Max.set_eq_fold [of "r_end r" "map r_end rs"]
      by (simp add: t duration_nanos_def checked_sub_eq_Some)
  qed
qed

lemma duration_nanos_exact_witness:
  "trace_wf (trace_new sample_trace_id 0) \<and> duration_nanos (trace_new sample_trace_id 0) = None"
  using duration_nanos_exact [OF trace_wf_new [of sample_trace_id 0]] trace_wf_new [of sample_trace_id 0]
  by (cases "duration_nanos (trace_new sample_trace_id 0)") (simp_all add: trace_new_def span_count_def)

end
