(* ===== verification/Convert.thy ===== *)
theory Convert
  imports Trace
begin

text \<open>
  \<open>src/ingest/convert.rs\<close>: the one conversion from a decoded OTLP request to a batch of spans that
  both transports share.

  The request types come from the \<open>opentelemetry-proto\<close> crate; they are records with the fields
  the conversion reads.  The wire decoders (\<open>prost\<close>, \<open>serde_json\<close>) are the parameters \<open>decode_pb\<close>
  and \<open>decode_json\<close> of \<open>decode\<close>.  \<open>convert\<close> returns \<open>None\<close> when it panics, which only the feature
  \<open>panic-injection\<close> (its first argument) makes possible.
\<close>

section \<open>The request\<close>

datatype any_value =
    StringValue string | IntValue i64 | DoubleValue f64 | BoolValue bool
  | ArrayValue | KvlistValue | BytesValue "u8 list" | StringValueStrindex i32

text \<open>\<open>KeyValue.value\<close> is an optional \<open>AnyValue\<close> whose own \<open>value\<close> is optional.\<close>
record key_value =
  kv_key :: string
  kv_value :: "any_value option option"

record pb_status =
  pb_message :: string
  pb_code :: i32

record pb_span =
  pb_trace_id :: "u8 list"
  pb_span_id :: "u8 list"
  pb_parent_span_id :: "u8 list"
  pb_name :: string
  pb_start_time_unix_nano :: u64
  pb_end_time_unix_nano :: u64
  pb_attributes :: "key_value list"
  pb_status :: "pb_status option"

text \<open>\<open>scope_spans\<close> of \<open>ScopeSpans\<close>, each holding its \<open>spans\<close>; the optional \<open>Resource\<close> is its
  attributes.\<close>
record resource_spans =
  rs_resource :: "key_value list option"
  rs_scope_spans :: "pb_span list list"

type_synonym request = "resource_spans list"

section \<open>The batch\<close>

datatype reject_reason = EmptyPayload | DecodeError string

datatype content_type = Protobuf | Json

record span_batch =
  sb_spans :: "(trace_id \<times> new_span) list"
  sb_partial :: bool
  sb_malformed_span_count :: nat

section \<open>Decoding\<close>

definition decode ::
    "(u8 list \<Rightarrow> string + request) \<Rightarrow> (u8 list \<Rightarrow> string + request) \<Rightarrow> u8 list \<Rightarrow> content_type
     \<Rightarrow> reject_reason + request" where
  "decode decode_pb decode_json bytes content_type =
    (case (case content_type of Protobuf \<Rightarrow> decode_pb bytes | Json \<Rightarrow> decode_json bytes) of
       Inr req \<Rightarrow> Inr req
     | Inl e \<Rightarrow> Inl (DecodeError e))"

section \<open>Conversion\<close>

text \<open>\<open>Iterator::find_map\<close>\<close>
fun find_map :: "('a \<Rightarrow> 'b option) \<Rightarrow> 'a list \<Rightarrow> 'b option" where
  "find_map f [] = None"
| "find_map f (x # xs) = (case f x of Some y \<Rightarrow> Some y | None \<Rightarrow> find_map f xs)"

definition service_name_of :: "resource_spans \<Rightarrow> string option" where
  "service_name_of rs =
    do { attrs \<leftarrow> rs_resource rs;
         find_map (\<lambda>kv.
             if kv_key kv \<noteq> ''service.name'' then None
             else do { av \<leftarrow> kv_value kv; v \<leftarrow> av; case v of StringValue s \<Rightarrow> Some s | _ \<Rightarrow> None }) attrs }"

definition trace_id_of :: "u8 list \<Rightarrow> trace_id option" where
  "trace_id_of bytes = (if length bytes = 16 then Some (TraceId bytes) else None)"

definition span_id_of :: "u8 list \<Rightarrow> span_id option" where
  "span_id_of bytes = (if length bytes = 8 then Some (SpanId bytes) else None)"

definition attr_of :: "key_value \<Rightarrow> (string \<times> attr_value) option" where
  "attr_of kv =
    do { av \<leftarrow> kv_value kv; v \<leftarrow> av;
         value \<leftarrow> (case v of
             StringValue s \<Rightarrow> Some (Str s)
           | IntValue i \<Rightarrow> Some (Int64 i)
           | DoubleValue d \<Rightarrow> Some (Double d)
           | BoolValue b \<Rightarrow> Some (Bool b)
           | ArrayValue \<Rightarrow> None | KvlistValue \<Rightarrow> None | BytesValue _ \<Rightarrow> None
           | StringValueStrindex _ \<Rightarrow> None);
         Some (kv_key kv, value) }"

text \<open>The three mutable locals of \<open>convert\<close>.\<close>
record convert_state =
  cs_spans :: "(trace_id \<times> new_span) list"
  cs_malformed :: nat
  cs_saw_any :: bool

text \<open>The body of the innermost loop.\<close>
definition convert_span :: "bool \<Rightarrow> string option \<Rightarrow> convert_state \<Rightarrow> pb_span \<Rightarrow> convert_state panics" where
  "convert_span panic_injection service_name st0 pb =
    (let st = st0\<lparr>cs_saw_any := True\<rparr>
     in if panic_injection \<and> pb_name pb = ''__spanfall_panic_injection__'' then None
        else case trace_id_of (pb_trace_id pb) of
          None \<Rightarrow> Some (st\<lparr>cs_malformed := cs_malformed st + 1\<rparr>)
        | Some trace_id \<Rightarrow>
            (case span_id_of (pb_span_id pb) of
               None \<Rightarrow> Some (st\<lparr>cs_malformed := cs_malformed st + 1\<rparr>)
             | Some sid \<Rightarrow>
                 (let new_span =
                   \<lparr>ns_span_id = sid, ns_parent_span_id = span_id_of (pb_parent_span_id pb),
                    ns_name = pb_name pb, ns_start_time_unix_nano = pb_start_time_unix_nano pb,
                    ns_end_time_unix_nano = pb_end_time_unix_nano pb,
                    ns_status_message = (case pb_status pb of Some s \<Rightarrow> pb_message s | None \<Rightarrow> []),
                    ns_status_code = (case pb_status pb of Some s \<Rightarrow> pb_code s | None \<Rightarrow> 0),
                    ns_unknown_service = (service_name = None), ns_service_name = service_name,
                    ns_attributes = List.map_filter attr_of (pb_attributes pb)\<rparr>
                  in Some (st\<lparr>cs_spans := cs_spans st @ [(trace_id, new_span)]\<rparr>))))"

definition convert_resource :: "bool \<Rightarrow> convert_state \<Rightarrow> resource_spans \<Rightarrow> convert_state panics" where
  "convert_resource panic_injection st rs =
    (let service_name = service_name_of rs
     in foldO (foldO (convert_span panic_injection service_name)) st (rs_scope_spans rs))"

definition convert :: "bool \<Rightarrow> request \<Rightarrow> (reject_reason + span_batch) panics" where
  "convert panic_injection req =
    do { st \<leftarrow> foldO (convert_resource panic_injection)
                 \<lparr>cs_spans = [], cs_malformed = 0, cs_saw_any = False\<rparr> req;
         Some (if \<not> cs_saw_any st then Inl EmptyPayload
               else Inr \<lparr>sb_spans = cs_spans st, sb_partial = (0 < cs_malformed st),
                         sb_malformed_span_count = cs_malformed st\<rparr>) }"

section \<open>Specification: span by span\<close>

text \<open>Every span of the request with the service name of its resource, in order.\<close>
definition request_spans :: "request \<Rightarrow> (string option \<times> pb_span) list" where
  "request_spans req =
    concat (map (\<lambda>rs. map (Pair (service_name_of rs)) (concat (rs_scope_spans rs))) req)"

text \<open>A span converts on its own: it needs a 16-byte trace id and an 8-byte span id.\<close>
definition convert_one :: "string option \<times> pb_span \<Rightarrow> (trace_id \<times> new_span) option" where
  "convert_one x =
    (case x of (service_name, pb) \<Rightarrow>
       if length (pb_trace_id pb) = 16 \<and> length (pb_span_id pb) = 8
       then Some (TraceId (pb_trace_id pb),
         \<lparr>ns_span_id = SpanId (pb_span_id pb),
          ns_parent_span_id = (if length (pb_parent_span_id pb) = 8 then Some (SpanId (pb_parent_span_id pb)) else None),
          ns_name = pb_name pb, ns_start_time_unix_nano = pb_start_time_unix_nano pb,
          ns_end_time_unix_nano = pb_end_time_unix_nano pb,
          ns_status_message = (case pb_status pb of Some s \<Rightarrow> pb_message s | None \<Rightarrow> []),
          ns_status_code = (case pb_status pb of Some s \<Rightarrow> pb_code s | None \<Rightarrow> 0),
          ns_unknown_service = (service_name = None), ns_service_name = service_name,
          ns_attributes = List.map_filter attr_of (pb_attributes pb)\<rparr>)
       else None)"

definition injected :: "bool \<Rightarrow> request \<Rightarrow> bool" where
  "injected panic_injection req \<longleftrightarrow>
     panic_injection \<and> (\<exists>x \<in> set (request_spans req). pb_name (snd x) = ''__spanfall_panic_injection__'')"

definition step_one :: "convert_state \<Rightarrow> string option \<times> pb_span \<Rightarrow> convert_state" where
  "step_one st x =
    (case convert_one x of
       Some s \<Rightarrow> st\<lparr>cs_saw_any := True, cs_spans := cs_spans st @ [s]\<rparr>
     | None \<Rightarrow> st\<lparr>cs_saw_any := True, cs_malformed := cs_malformed st + 1\<rparr>)"

lemma convert_span_eq:
  "convert_span panic svc st pb =
    (if panic \<and> pb_name pb = ''__spanfall_panic_injection__'' then None else Some (step_one st (svc, pb)))"
  by (simp add: convert_span_def step_one_def convert_one_def trace_id_of_def span_id_of_def Let_def)

lemma foldO_concat: "foldO (foldO f) st xss = foldO f st (concat xss)"
  by (induction xss arbitrary: st) (simp_all add: foldO_append)

lemma foldO_map: "foldO f st (map g xs) = foldO (\<lambda>st x. f st (g x)) st xs"
  by (induction xs arbitrary: st) simp_all

lemma convert_loop:
  "foldO (convert_resource panic) st req =
     foldO (\<lambda>st x. convert_span panic (fst x) st (snd x)) st (request_spans req)"
proof -
  have "convert_resource panic = (\<lambda>st rs. foldO (\<lambda>st x. convert_span panic (fst x) st (snd x)) st
      (map (Pair (service_name_of rs)) (concat (rs_scope_spans rs))))"
    by (intro ext) (simp add: convert_resource_def Let_def foldO_concat foldO_map)
  then show ?thesis
    by (simp add: request_spans_def foldO_concat [symmetric] foldO_map)
qed

lemma foldO_total: "(\<And>st x. x \<in> set xs \<Longrightarrow> f st x = Some (g st x)) \<Longrightarrow> foldO f st xs = Some (foldl g st xs)"
  by (induction xs arbitrary: st) auto

lemma foldO_panic: "x \<in> set xs \<Longrightarrow> (\<And>st. f st x = None) \<Longrightarrow> foldO f st xs = None"
  by (induction xs arbitrary: st) (auto split: Option.bind_split)

lemma foldl_step_one:
  "foldl step_one st xs =
    \<lparr>cs_spans = cs_spans st @ List.map_filter convert_one xs,
     cs_malformed = cs_malformed st + length (filter (\<lambda>x. convert_one x = None) xs),
     cs_saw_any = (cs_saw_any st \<or> xs \<noteq> [])\<rparr>"
  by (induction xs arbitrary: st) (auto simp: step_one_def split: option.split)

text \<open>The batch a request with spans converts to.\<close>
definition batch_of :: "request \<Rightarrow> span_batch" where
  "batch_of req =
    \<lparr>sb_spans = List.map_filter convert_one (request_spans req),
     sb_partial = (\<exists>x \<in> set (request_spans req). convert_one x = None),
     sb_malformed_span_count = length (filter (\<lambda>x. convert_one x = None) (request_spans req))\<rparr>"

lemma convert_eq:
  "convert panic req =
    (if injected panic req then None
     else if request_spans req = [] then Some (Inl EmptyPayload)
     else Some (Inr (batch_of req)))"
proof (cases "injected panic req")
  case True
  then obtain x where x: "x \<in> set (request_spans req)" "panic" "pb_name (snd x) = ''__spanfall_panic_injection__''"
    by (auto simp: injected_def)
  then have "foldO (\<lambda>st x. convert_span panic (fst x) st (snd x)) st (request_spans req) = None" for st
    by (intro foldO_panic [of x]) (simp_all add: convert_span_eq)
  with True show ?thesis by (simp add: convert_def convert_loop)
next
  case False
  have "foldO (\<lambda>st x. convert_span panic (fst x) st (snd x)) st (request_spans req)
      = Some (foldl step_one st (request_spans req))" for st
    by (rule foldO_total) (use False in \<open>auto simp: convert_span_eq injected_def\<close>)
  with False show ?thesis
    by (simp add: convert_def convert_loop foldl_step_one filter_empty_conv batch_of_def del: not_None_eq)
qed

text \<open>
  C17. \<open>convert\<close> converts span by span: it panics exactly when the panic-injection feature is
  compiled in and a span carries the sentinel name; otherwise a request with no span at all is the
  envelope error \<open>EmptyPayload\<close>, and any other request is a batch holding, in order, the conversion
  of every span with well-formed ids, with the others counted.  One malformed span never discards
  another, and \<open>DecodeError\<close> never comes out of \<open>convert\<close>.
\<close>
theorem convert_span_by_span:
  "convert panic req =
    (if injected panic req then None
     else if request_spans req = [] then Some (Inl EmptyPayload)
     else Some (Inr \<lparr>sb_spans = List.map_filter convert_one (request_spans req),
       sb_partial = (\<exists>x \<in> set (request_spans req). convert_one x = None),
       sb_malformed_span_count = length (filter (\<lambda>x. convert_one x = None) (request_spans req))\<rparr>))"
  by (simp add: convert_eq batch_of_def)

end
