(* ===== verification/Receiver_State.thy ===== *)
theory Receiver_State
  imports Prelude
begin

text \<open>
  \<open>src/ingest/receiver_state.rs\<close>: the ingest half of the Receiver data, that is the arrival counts
  per protocol and the ring of recent envelope rejects.  The interface \<open>reject_sink\<close> states what the
  handlers rely on: a sink that keeps the most recent entries, oldest first.
\<close>

section \<open>State\<close>

definition REJECT_RING_CAPACITY :: nat where "REJECT_RING_CAPACITY = 100"

record reject_record =
  rr_reason :: string
  rr_at_unix_nano :: u64

datatype transport = GrpcV4317 | HttpProtobufV4318 | HttpJsonV4318

record arrival_counts =
  grpc_v4317 :: u64
  http_protobuf_v4318 :: u64
  http_json_v4318 :: u64

record reject_log =
  ring :: "reject_record list"

record receiver_state =
  rejects :: reject_log
  arrivals :: arrival_counts

definition receiver_default :: receiver_state where
  "receiver_default =
    \<lparr>rejects = \<lparr>ring = []\<rparr>,
     arrivals = \<lparr>grpc_v4317 = 0, http_protobuf_v4318 = 0, http_json_v4318 = 0\<rparr>\<rparr>"

section \<open>Operations\<close>

text \<open>\<open>ArrivalCounts::record\<close>\<close>
definition record_arrivals :: "arrival_counts \<Rightarrow> transport \<Rightarrow> u64 \<Rightarrow> arrival_counts" where
  "record_arrivals c t span_count =
    (case t of
       GrpcV4317 \<Rightarrow> c\<lparr>grpc_v4317 := grpc_v4317 c + span_count\<rparr>
     | HttpProtobufV4318 \<Rightarrow> c\<lparr>http_protobuf_v4318 := http_protobuf_v4318 c + span_count\<rparr>
     | HttpJsonV4318 \<Rightarrow> c\<lparr>http_json_v4318 := http_json_v4318 c + span_count\<rparr>)"

text \<open>\<open>RejectLog::push\<close>; \<open>pop_front\<close> on a deque is \<^const>\<open>tl\<close>.\<close>
definition push :: "reject_log \<Rightarrow> string \<Rightarrow> u64 \<Rightarrow> reject_log" where
  "push l reason at_unix_nano =
    (let l = (if length (ring l) = REJECT_RING_CAPACITY then l\<lparr>ring := tl (ring l)\<rparr> else l)
     in l\<lparr>ring := ring l @ [\<lparr>rr_reason = reason, rr_at_unix_nano = at_unix_nano\<rparr>]\<rparr>)"

definition recent :: "reject_log \<Rightarrow> reject_record list" where
  "recent l = ring l"

definition reject_log_len :: "reject_log \<Rightarrow> nat" where
  "reject_log_len l = length (ring l)"

definition reject_log_is_empty :: "reject_log \<Rightarrow> bool" where
  "reject_log_is_empty l \<longleftrightarrow> ring l = []"

section \<open>The interface of a sink of recent entries\<close>

text \<open>The last \<open>n\<close> elements.\<close>
definition last_n :: "nat \<Rightarrow> 'a list \<Rightarrow> 'a list" where
  "last_n n xs = drop (length xs - n) xs"

lemma last_n_last_n: "last_n n (last_n n xs @ ys) = last_n n (xs @ ys)"
proof (cases "length xs \<le> n")
  case True
  then show ?thesis by (simp add: last_n_def)
next
  case False
  then have "drop (length ys) (drop (length xs - n) xs) = drop (length xs + length ys - n) xs"
    by (simp add: add.commute)
  with False show ?thesis by (auto simp: last_n_def)
qed

locale reject_sink =
  fixes entries :: "'l \<Rightarrow> 'e list"
    and put :: "'l \<Rightarrow> 'e \<Rightarrow> 'l"
    and capacity :: nat
    and sane :: "'l \<Rightarrow> bool"
  assumes put_sane: "sane l \<Longrightarrow> sane (put l x)"
    and put_entries: "sane l \<Longrightarrow> entries (put l x) = last_n capacity (entries l @ [x])"
    and sane_entries: "sane l \<Longrightarrow> length (entries l) \<le> capacity"
begin

lemma put_all_sane: "sane l \<Longrightarrow> sane (foldl put l xs)"
  by (induction xs arbitrary: l) (simp_all add: put_sane)

lemma put_all_entries: "sane l \<Longrightarrow> entries (foldl put l xs) = last_n capacity (entries l @ xs)"
proof (induction xs arbitrary: l)
  case Nil
  then show ?case using sane_entries by (simp add: last_n_def)
next
  case (Cons x xs)
  then show ?case using last_n_last_n [of capacity "entries l @ [x]" xs] by (simp add: put_sane put_entries)
qed

end

definition push_record :: "reject_log \<Rightarrow> reject_record \<Rightarrow> reject_log" where
  "push_record l r = push l (rr_reason r) (rr_at_unix_nano r)"

definition reject_log_wf :: "reject_log \<Rightarrow> bool" where
  [wf_simps]: "reject_log_wf l \<longleftrightarrow> length (ring l) \<le> REJECT_RING_CAPACITY"

lemma ring_push:
  assumes "reject_log_wf l"
  shows "ring (push l reason t) = last_n REJECT_RING_CAPACITY (ring l @ [\<lparr>rr_reason = reason, rr_at_unix_nano = t\<rparr>])"
proof (cases "length (ring l) = REJECT_RING_CAPACITY")
  case True
  then have "ring l \<noteq> []" by (auto simp: REJECT_RING_CAPACITY_def)
  with True show ?thesis
    by (simp add: push_def Let_def last_n_def REJECT_RING_CAPACITY_def drop_Suc)
next
  case False
  with assms show ?thesis by (simp add: push_def wf_simps last_n_def Let_def)
qed

lemma ring_push_record:
  "reject_log_wf l \<Longrightarrow> ring (push_record l r) = last_n REJECT_RING_CAPACITY (ring l @ [r])"
  by (cases r) (simp add: push_record_def ring_push)

lemma reject_log_wf_push: "reject_log_wf l \<Longrightarrow> reject_log_wf (push_record l r)"
  using ring_push_record [of l r] by (auto simp: wf_simps last_n_def)

interpretation rl: reject_sink recent push_record REJECT_RING_CAPACITY reject_log_wf
  by unfold_locales (simp_all add: reject_log_wf_push recent_def ring_push_record, simp add: wf_simps)

lemma reject_log_wf_default [simp]: "reject_log_wf (rejects receiver_default)"
  by (simp add: receiver_default_def wf_simps)

text \<open>
  C36. The reject ring: starting from an empty log, after any sequence of rejects the log holds
  exactly the last hundred of them, oldest first.
\<close>
theorem reject_ring_keeps_latest:
  "recent (foldl push_record (rejects receiver_default) rs) = last_n 100 rs
   \<and> reject_log_len (foldl push_record (rejects receiver_default) rs) = min 100 (length rs)"
proof -
  have "recent (foldl push_record (rejects receiver_default) rs) = last_n 100 rs"
    using rl.put_all_entries [OF reject_log_wf_default, of rs]
    by (simp add: recent_def receiver_default_def REJECT_RING_CAPACITY_def)
  then show ?thesis by (auto simp: reject_log_len_def recent_def last_n_def)
qed

end
