(* ===== verification/Handler.thy ===== *)
theory Handler
  imports Convert Receiver_State
begin

text \<open>
  \<open>src/ingest/handler.rs\<close>, \<open>src/ingest/http.rs\<close> and \<open>src/ingest/grpc.rs\<close>: the accept-or-reject
  decision both transports share, and how each transport reports it on the wire.

  Code outside the repository is the record \<open>ingest_env\<close>: the two OTLP decoders, the \<open>Debug\<close> form
  of a string (it consults Unicode tables), and \<open>timeout_send\<close>, that is
  \<open>tokio::time::timeout(ingest_timeout, tx.send(batch))\<close> on the writer's channel.  What the
  theorems need of the latter is its documented behaviour \<open>delivers\<close>: a batch is enqueued exactly
  when the send succeeds, and a send that is closed or timed out leaves the channel as it was.
  The reading of the system clock is an argument: nanoseconds since the epoch, \<open>None\<close> before it.
  The lock around \<open>ReceiverState\<close> makes each update atomic; no two are held at once.
\<close>

section \<open>Shared accept-or-reject decision\<close>

datatype ingest_error = Reject reject_reason | ConversionPanicked | Backpressure | WriterGone

datatype send_outcome = Sent | Closed | TimedOut

record 'c ingest_env =
  panic_injection :: bool
  decode_pb :: "u8 list \<Rightarrow> string + request"
  decode_json :: "u8 list \<Rightarrow> string + request"
  debug_str :: "string \<Rightarrow> string"
  timeout_send :: "nat \<Rightarrow> 'c \<Rightarrow> span_batch \<Rightarrow> 'c \<times> send_outcome"

record 'c ingest_state =
  tx :: 'c
  receiver :: receiver_state
  ingest_timeout :: nat

definition ingest_state_new :: "'c \<Rightarrow> receiver_state \<Rightarrow> nat \<Rightarrow> 'c ingest_state" where
  "ingest_state_new t r d = \<lparr>tx = t, receiver = r, ingest_timeout = d\<rparr>"

definition now_unix_nano :: "nat option \<Rightarrow> u64" where
  "now_unix_nano clock = (case clock of Some nanos \<Rightarrow> of_nat nanos | None \<Rightarrow> 0)"

text \<open>The derived \<open>Debug\<close> of \<open>RejectReason\<close>.\<close>
definition debug_reason :: "(string \<Rightarrow> string) \<Rightarrow> reject_reason \<Rightarrow> string" where
  "debug_reason dbg r =
    (case r of EmptyPayload \<Rightarrow> ''EmptyPayload'' | DecodeError e \<Rightarrow> ''DecodeError('' @ dbg e @ '')'')"

text \<open>\<open>catch_unwind\<close>: a panic becomes \<open>Err(())\<close>.\<close>
definition catch_conversion_panic :: "'r panics \<Rightarrow> unit + 'r" where
  "catch_conversion_panic f = (case f of Some r \<Rightarrow> Inr r | None \<Rightarrow> Inl ())"

definition record_reject :: "nat option \<Rightarrow> 'c ingest_state \<Rightarrow> string \<Rightarrow> 'c ingest_state" where
  "record_reject clock st reason =
    st\<lparr>receiver := (receiver st)\<lparr>rejects := push (rejects (receiver st)) reason (now_unix_nano clock)\<rparr>\<rparr>"

definition accept ::
    "'c ingest_env \<Rightarrow> nat option \<Rightarrow> 'c ingest_state \<Rightarrow> request \<Rightarrow> transport
     \<Rightarrow> 'c ingest_state \<times> (ingest_error + unit)" where
  "accept env clock st req t =
    (case catch_conversion_panic (convert (panic_injection env) req) of
       Inr (Inr batch) \<Rightarrow>
         (let span_count = of_nat (length (sb_spans batch));
              (tx', r) = timeout_send env (ingest_timeout st) (tx st) batch;
              st = st\<lparr>tx := tx'\<rparr>
          in case r of
               Sent \<Rightarrow>
                 (st\<lparr>receiver := (receiver st)\<lparr>arrivals := record_arrivals (arrivals (receiver st)) t span_count\<rparr>\<rparr>,
                  Inr ())
             | Closed \<Rightarrow> (st, Inl WriterGone)
             | TimedOut \<Rightarrow> (st, Inl Backpressure))
     | Inr (Inl reason) \<Rightarrow>
         (record_reject clock st (debug_reason (debug_str env) reason), Inl (Reject reason))
     | Inl _ \<Rightarrow> (record_reject clock st ''panic during conversion'', Inl ConversionPanicked))"

section \<open>OTLP/HTTP\<close>

record http_response =
  status :: nat
  retry_after :: "string option"
  body :: string

definition status_only :: "nat \<Rightarrow> http_response" where
  "status_only code = \<lparr>status = code, retry_after = None, body = []\<rparr>"

text \<open>The \<open>Content-Type\<close> header, when present and visible ASCII.\<close>
definition content_type_of :: "string option \<Rightarrow> content_type \<times> transport" where
  "content_type_of header =
    (case header of
       Some ct \<Rightarrow> if starts_with ct ''application/json'' then (Json, HttpJsonV4318)
                  else (Protobuf, HttpProtobufV4318)
     | None \<Rightarrow> (Protobuf, HttpProtobufV4318))"

definition http_reply :: "(string \<Rightarrow> string) \<Rightarrow> ingest_error + unit \<Rightarrow> http_response" where
  "http_reply dbg r =
    (case r of
       Inr _ \<Rightarrow> status_only 200
     | Inl (Reject EmptyPayload) \<Rightarrow> status_only 200
     | Inl (Reject reason) \<Rightarrow> \<lparr>status = 400, retry_after = None, body = debug_reason dbg reason\<rparr>
     | Inl ConversionPanicked \<Rightarrow> status_only 500
     | Inl Backpressure \<Rightarrow> \<lparr>status = 429, retry_after = Some ''1'', body = []\<rparr>
     | Inl WriterGone \<Rightarrow> status_only 500)"

definition http_export ::
    "'c ingest_env \<Rightarrow> nat option \<Rightarrow> 'c ingest_state \<Rightarrow> string option \<Rightarrow> u8 list
     \<Rightarrow> 'c ingest_state \<times> http_response" where
  "http_export env clock st header bytes =
    (let (content_type, t) = content_type_of header
     in case decode (decode_pb env) (decode_json env) bytes content_type of
          Inl reason \<Rightarrow> (st, \<lparr>status = 400, retry_after = None, body = debug_reason (debug_str env) reason\<rparr>)
        | Inr req \<Rightarrow> (case accept env clock st req t of (st', r) \<Rightarrow> (st', http_reply (debug_str env) r)))"

section \<open>OTLP/gRPC\<close>

datatype grpc_code = InvalidArgument | Internal | ResourceExhausted

datatype grpc_reply = GrpcOk | GrpcStatus grpc_code string

definition grpc_reply_of :: "(string \<Rightarrow> string) \<Rightarrow> ingest_error + unit \<Rightarrow> grpc_reply" where
  "grpc_reply_of dbg r =
    (case r of
       Inr _ \<Rightarrow> GrpcOk
     | Inl (Reject EmptyPayload) \<Rightarrow> GrpcOk
     | Inl (Reject reason) \<Rightarrow> GrpcStatus InvalidArgument (debug_reason dbg reason)
     | Inl ConversionPanicked \<Rightarrow> GrpcStatus Internal ''conversion panicked''
     | Inl Backpressure \<Rightarrow> GrpcStatus ResourceExhausted ''store write backlog exceeded --ingest-timeout, retry''
     | Inl WriterGone \<Rightarrow> GrpcStatus Internal ''writer task not running'')"

definition grpc_export ::
    "'c ingest_env \<Rightarrow> nat option \<Rightarrow> 'c ingest_state \<Rightarrow> request \<Rightarrow> 'c ingest_state \<times> grpc_reply" where
  "grpc_export env clock st req =
    (case accept env clock st req GrpcV4317 of (st', r) \<Rightarrow> (st', grpc_reply_of (debug_str env) r))"

section \<open>The contract of \<open>accept\<close>\<close>

text \<open>Documented behaviour of the bounded channel under a timeout; \<open>queued\<close> reads the batches the
  channel holds for the writer.\<close>
definition delivers :: "('c \<Rightarrow> span_batch list) \<Rightarrow> 'c ingest_env \<Rightarrow> bool" where
  "delivers queued env \<longleftrightarrow>
     (\<forall>d ch b. queued (fst (timeout_send env d ch b))
        = queued ch @ (if snd (timeout_send env d ch b) = Sent then [b] else []))"

lemma accept_injected:
  "injected (panic_injection env) req \<Longrightarrow>
   accept env clock st req t = (record_reject clock st ''panic during conversion'', Inl ConversionPanicked)"
  by (simp add: accept_def convert_eq catch_conversion_panic_def)

lemma accept_empty:
  "\<not> injected (panic_injection env) req \<Longrightarrow> request_spans req = [] \<Longrightarrow>
   accept env clock st req t = (record_reject clock st ''EmptyPayload'', Inl (Reject EmptyPayload))"
  by (simp add: accept_def convert_eq catch_conversion_panic_def debug_reason_def)

lemma accept_batch:
  "\<not> injected (panic_injection env) req \<Longrightarrow> request_spans req \<noteq> [] \<Longrightarrow>
   timeout_send env (ingest_timeout st) (tx st) (batch_of req) = (tx', r) \<Longrightarrow>
   accept env clock st req t =
     (case r of
        Sent \<Rightarrow> (st\<lparr>tx := tx', receiver := (receiver st)\<lparr>arrivals :=
                    record_arrivals (arrivals (receiver st)) t (of_nat (length (sb_spans (batch_of req))))\<rparr>\<rparr>, Inr ())
      | Closed \<Rightarrow> (st\<lparr>tx := tx'\<rparr>, Inl WriterGone)
      | TimedOut \<Rightarrow> (st\<lparr>tx := tx'\<rparr>, Inl Backpressure))"
  by (simp add: accept_def convert_eq catch_conversion_panic_def Let_def cong: send_outcome.case_cong)

lemma accept_cases [consumes 1, case_names panicked empty sent closed timed_out]:
  assumes "accept env clock st req t = (st', r)"
  obtains (panicked) "injected (panic_injection env) req"
      "st' = record_reject clock st ''panic during conversion''" "r = Inl ConversionPanicked"
  | (empty) "\<not> injected (panic_injection env) req" "request_spans req = []"
      "st' = record_reject clock st ''EmptyPayload''" "r = Inl (Reject EmptyPayload)"
  | (sent) tx' where "\<not> injected (panic_injection env) req" "request_spans req \<noteq> []"
      "timeout_send env (ingest_timeout st) (tx st) (batch_of req) = (tx', Sent)"
      "st' = st\<lparr>tx := tx', receiver := (receiver st)\<lparr>arrivals :=
         record_arrivals (arrivals (receiver st)) t (of_nat (length (sb_spans (batch_of req))))\<rparr>\<rparr>" "r = Inr ()"
  | (closed) tx' where "\<not> injected (panic_injection env) req" "request_spans req \<noteq> []"
      "timeout_send env (ingest_timeout st) (tx st) (batch_of req) = (tx', Closed)"
      "st' = st\<lparr>tx := tx'\<rparr>" "r = Inl WriterGone"
  | (timed_out) tx' where "\<not> injected (panic_injection env) req" "request_spans req \<noteq> []"
      "timeout_send env (ingest_timeout st) (tx st) (batch_of req) = (tx', TimedOut)"
      "st' = st\<lparr>tx := tx'\<rparr>" "r = Inl Backpressure"
proof (cases "injected (panic_injection env) req")
  case True
  with assms show thesis by (intro panicked) (simp_all add: accept_injected)
next
  case inj: False
  show thesis
  proof (cases "request_spans req = []")
    case True
    with inj assms show thesis by (intro empty) (simp_all add: accept_empty)
  next
    case False
    obtain tx' o' where s: "timeout_send env (ingest_timeout st) (tx st) (batch_of req) = (tx', o')" by fastforce
    note a = accept_batch [OF inj False s, of clock t, unfolded assms]
    show thesis
    proof (cases o')
      case Sent
      with a s inj False show thesis by (intro sent [of tx']) simp_all
    next
      case Closed
      with a s inj False show thesis by (intro closed [of tx']) simp_all
    next
      case TimedOut
      with a s inj False show thesis by (intro timed_out [of tx']) simp_all
    qed
  qed
qed

lemma delivers_queued:
  "delivers queued env \<Longrightarrow> timeout_send env d ch b = (ch', r) \<Longrightarrow>
   queued ch' = queued ch @ (if r = Sent then [b] else [])"
  unfolding delivers_def by (metis fst_conv snd_conv)

text \<open>
  C15. The accept-or-reject decision.  A request is acknowledged exactly when its batch was handed
  to the writer, and then it is the whole batch, once; on every error nothing is queued, so a retry
  cannot lose or half-apply it.  A caught panic and an empty payload, and nothing else, are
  appended to the reject ring with the clock reading; arrivals are counted exactly for acknowledged
  batches.  The errors are the panic, the empty payload, backpressure and a gone writer:
  \<open>accept\<close> never reports a decode error.
\<close>
theorem accept_decision:
  assumes "delivers queued env" "reject_log_wf (rejects (receiver st))"
    and "accept env clock st req t = (st', r)"
  shows "queued (tx st') = queued (tx st) @ (if r = Inr () then [batch_of req] else [])
    \<and> (r = Inl ConversionPanicked \<longleftrightarrow> injected (panic_injection env) req)
    \<and> (\<forall>e. r = Inl (Reject e) \<longleftrightarrow>
          e = EmptyPayload \<and> \<not> injected (panic_injection env) req \<and> request_spans req = [])
    \<and> recent (rejects (receiver st')) =
        (if r = Inl ConversionPanicked
         then last_n 100 (recent (rejects (receiver st)) @
                [\<lparr>rr_reason = ''panic during conversion'', rr_at_unix_nano = now_unix_nano clock\<rparr>])
         else if r = Inl (Reject EmptyPayload)
         then last_n 100 (recent (rejects (receiver st)) @
                [\<lparr>rr_reason = ''EmptyPayload'', rr_at_unix_nano = now_unix_nano clock\<rparr>])
         else recent (rejects (receiver st)))
    \<and> arrivals (receiver st') =
        (if r = Inr () then record_arrivals (arrivals (receiver st)) t (of_nat (length (sb_spans (batch_of req))))
         else arrivals (receiver st))
    \<and> reject_log_wf (rejects (receiver st'))"
proof -
  have wf: "reject_log_wf (push (rejects (receiver st)) reason time)"
    and ring: "recent (push (rejects (receiver st)) reason time)
      = last_n 100 (recent (rejects (receiver st)) @ [\<lparr>rr_reason = reason, rr_at_unix_nano = time\<rparr>])" for reason time
    using rl.put_sane [OF assms(2), of "\<lparr>rr_reason = reason, rr_at_unix_nano = time\<rparr>"]
      rl.put_entries [OF assms(2), of "\<lparr>rr_reason = reason, rr_at_unix_nano = time\<rparr>"]
    by (simp_all add: push_record_def REJECT_RING_CAPACITY_def)
  from assms(3) show ?thesis
  proof (cases rule: accept_cases)
    case (sent tx')
    with delivers_queued [OF assms(1) sent(3)] assms(2) show ?thesis by simp
  next
    case (closed tx')
    with delivers_queued [OF assms(1) closed(3)] assms(2) show ?thesis by simp
  next
    case (timed_out tx')
    with delivers_queued [OF assms(1) timed_out(3)] assms(2) show ?thesis by simp
  qed (auto simp: record_reject_def wf ring)
qed

text \<open>A bounded channel: what \<open>tokio::sync::mpsc::channel(capacity)\<close> does when nothing is received
  while the sender waits, so that a full channel times out.\<close>
record channel =
  ch_queue :: "span_batch list"
  ch_capacity :: nat
  ch_open :: bool

definition bounded_send :: "nat \<Rightarrow> channel \<Rightarrow> span_batch \<Rightarrow> channel \<times> send_outcome" where
  "bounded_send d ch b =
    (if \<not> ch_open ch then (ch, Closed)
     else if length (ch_queue ch) < ch_capacity ch then (ch\<lparr>ch_queue := ch_queue ch @ [b]\<rparr>, Sent)
     else (ch, TimedOut))"

definition sample_env :: "channel ingest_env" where
  "sample_env = \<lparr>panic_injection = False, decode_pb = (\<lambda>_. Inl ''truncated''), decode_json = (\<lambda>_. Inr []),
     debug_str = id, timeout_send = bounded_send\<rparr>"

definition sample_state :: "channel ingest_state" where
  "sample_state = ingest_state_new \<lparr>ch_queue = [], ch_capacity = 1, ch_open = True\<rparr> receiver_default 5000"

definition sample_request :: request where
  "sample_request = [\<lparr>rs_resource = Some [\<lparr>kv_key = ''service.name'', kv_value = Some (Some (StringValue ''web''))\<rparr>],
     rs_scope_spans = [[\<lparr>pb_trace_id = replicate 16 1, pb_span_id = replicate 8 2, pb_parent_span_id = [],
       pb_name = ''GET'', pb_start_time_unix_nano = 1, pb_end_time_unix_nano = 2, pb_attributes = [],
       pb_status = None\<rparr>]]\<rparr>]"

lemma delivers_sample: "delivers ch_queue sample_env"
  by (simp add: delivers_def sample_env_def bounded_send_def)

lemma sample_state_wf [simp]: "reject_log_wf (rejects (receiver sample_state))"
  by (simp add: sample_state_def ingest_state_new_def)

theorem accept_decision_witness:
  "delivers ch_queue sample_env
   \<and> snd (accept sample_env (Some 7) sample_state sample_request GrpcV4317) = Inr ()
   \<and> ch_queue (tx (fst (accept sample_env (Some 7) sample_state sample_request GrpcV4317))) = [batch_of sample_request]"
proof -
  obtain st' r where a: "accept sample_env (Some 7) sample_state sample_request GrpcV4317 = (st', r)" by fastforce
  have "r = Inr ()"
    using a by (rule accept_cases)
      (simp_all add: sample_env_def sample_state_def ingest_state_new_def bounded_send_def injected_def
        sample_request_def request_spans_def)
  with accept_decision [OF delivers_sample sample_state_wf a] a delivers_sample show ?thesis
    by (simp add: sample_state_def ingest_state_new_def)
qed

section \<open>Two transports, one decision\<close>

text \<open>What an exporter learns from a reply, whatever the transport.\<close>
datatype wire_class = Acknowledged | Refused | Retry | ServerFault

definition wire_class_of :: "ingest_error + unit \<Rightarrow> wire_class" where
  "wire_class_of r =
    (case r of
       Inr _ \<Rightarrow> Acknowledged
     | Inl (Reject EmptyPayload) \<Rightarrow> Acknowledged
     | Inl (Reject (DecodeError _)) \<Rightarrow> Refused
     | Inl ConversionPanicked \<Rightarrow> ServerFault
     | Inl Backpressure \<Rightarrow> Retry
     | Inl WriterGone \<Rightarrow> ServerFault)"

definition http_class :: "http_response \<Rightarrow> wire_class" where
  "http_class resp =
    (if status resp = 200 then Acknowledged
     else if status resp = 429 \<and> retry_after resp \<noteq> None then Retry
     else if status resp = 400 then Refused else ServerFault)"

definition grpc_class :: "grpc_reply \<Rightarrow> wire_class" where
  "grpc_class reply =
    (case reply of
       GrpcOk \<Rightarrow> Acknowledged
     | GrpcStatus InvalidArgument _ \<Rightarrow> Refused
     | GrpcStatus ResourceExhausted _ \<Rightarrow> Retry
     | GrpcStatus Internal _ \<Rightarrow> ServerFault)"

lemma http_class_reply: "http_class (http_reply dbg r) = wire_class_of r"
  by (simp add: http_class_def http_reply_def wire_class_of_def status_only_def
      split: sum.split ingest_error.split reject_reason.split)

lemma http_class_400: "http_class \<lparr>status = 400, retry_after = None, body = b\<rparr> = Refused"
  by (simp add: http_class_def)

lemma grpc_class_reply: "grpc_class (grpc_reply_of dbg r) = wire_class_of r"
  by (simp add: grpc_class_def grpc_reply_of_def wire_class_of_def
      split: sum.split ingest_error.split reject_reason.split)

text \<open>The effect of a decision, read off the class of the reply alone.\<close>
definition newly_acked :: "wire_class \<Rightarrow> request \<Rightarrow> span_batch list" where
  "newly_acked c req = (if c = Acknowledged \<and> request_spans req \<noteq> [] then [batch_of req] else [])"

definition arrivals_total :: "arrival_counts \<Rightarrow> u64" where
  "arrivals_total c = grpc_v4317 c + http_protobuf_v4318 c + http_json_v4318 c"

lemma arrivals_total_record: "arrivals_total (record_arrivals c t n) = arrivals_total c + n"
  by (simp add: arrivals_total_def record_arrivals_def split: transport.split)

lemma record_reject_sel [simp]:
  "tx (record_reject clock st reason) = tx st" "arrivals (receiver (record_reject clock st reason)) = arrivals (receiver st)"
  by (simp_all add: record_reject_def)

lemma record_reject_wf: "reject_log_wf (rejects (receiver st)) \<Longrightarrow>
    reject_log_wf (rejects (receiver (record_reject clock st reason)))"
  using rl.put_sane [of "rejects (receiver st)" "\<lparr>rr_reason = reason, rr_at_unix_nano = now_unix_nano clock\<rparr>"]
  by (simp add: record_reject_def push_record_def)

lemma accept_effect:
  assumes "accept env clock st req t = (st', r)" "delivers queued env"
  shows "queued (tx st') = queued (tx st) @ newly_acked (wire_class_of r) req"
    and "arrivals_total (arrivals (receiver st'))
      = arrivals_total (arrivals (receiver st)) + of_nat (sum_list (map (length \<circ> sb_spans) (newly_acked (wire_class_of r) req)))"
    and "reject_log_wf (rejects (receiver st)) \<Longrightarrow> reject_log_wf (rejects (receiver st'))"
    and "tx st' = tx st \<or> (\<exists>b. tx st' = fst (timeout_send env (ingest_timeout st) (tx st) b))"
proof -
  have "queued (tx st') = queued (tx st) @ newly_acked (wire_class_of r) req
    \<and> arrivals_total (arrivals (receiver st'))
      = arrivals_total (arrivals (receiver st)) + of_nat (sum_list (map (length \<circ> sb_spans) (newly_acked (wire_class_of r) req)))
    \<and> (reject_log_wf (rejects (receiver st)) \<longrightarrow> reject_log_wf (rejects (receiver st')))
    \<and> (tx st' = tx st \<or> (\<exists>b. tx st' = fst (timeout_send env (ingest_timeout st) (tx st) b)))"
    using assms(1)
  proof (cases rule: accept_cases)
    case (sent tx')
    with delivers_queued [OF assms(2) sent(3)] show ?thesis
      by (auto simp: newly_acked_def wire_class_of_def arrivals_total_record intro: exI [of _ "batch_of req"])
  next
    case (closed tx')
    with delivers_queued [OF assms(2) closed(3)] show ?thesis
      by (auto simp: newly_acked_def wire_class_of_def intro: exI [of _ "batch_of req"])
  next
    case (timed_out tx')
    with delivers_queued [OF assms(2) timed_out(3)] show ?thesis
      by (auto simp: newly_acked_def wire_class_of_def intro: exI [of _ "batch_of req"])
  qed (simp_all add: newly_acked_def wire_class_of_def record_reject_wf)
  then show "queued (tx st') = queued (tx st) @ newly_acked (wire_class_of r) req"
    and "arrivals_total (arrivals (receiver st'))
      = arrivals_total (arrivals (receiver st)) + of_nat (sum_list (map (length \<circ> sb_spans) (newly_acked (wire_class_of r) req)))"
    and "reject_log_wf (rejects (receiver st)) \<Longrightarrow> reject_log_wf (rejects (receiver st'))"
    and "tx st' = tx st \<or> (\<exists>b. tx st' = fst (timeout_send env (ingest_timeout st) (tx st) b))" by blast+
qed

text \<open>
  An endpoint decodes its input into a request and a transport tag, runs the shared decision on it
  and reports the class of the decision; an input it cannot decode changes nothing and is refused.
\<close>
locale ingest_endpoint =
  fixes decide :: "nat option \<Rightarrow> 's \<Rightarrow> 'q \<Rightarrow> transport \<Rightarrow> 's \<times> (ingest_error + unit)"
    and decoded :: "'i \<Rightarrow> ('q \<times> transport) option"
    and export :: "nat option \<Rightarrow> 's \<Rightarrow> 'i \<Rightarrow> 's \<times> 'r"
    and class_of :: "'r \<Rightarrow> wire_class"
  assumes export_decoded: "decoded i = Some (q, t) \<Longrightarrow> decide clock s q t = (s', r) \<Longrightarrow>
      fst (export clock s i) = s' \<and> class_of (snd (export clock s i)) = wire_class_of r"
    and export_undecoded: "decoded i = None \<Longrightarrow>
      fst (export clock s i) = s \<and> class_of (snd (export clock s i)) = Refused"
begin

text \<open>Serving a sequence of inputs is deciding, in order, on those that decode.\<close>
lemma serve_all:
  "foldl (\<lambda>s (clock, i). fst (export clock s i)) s is
     = foldl (\<lambda>s (clock, q, t). fst (decide clock s q t)) s
         (List.map_filter (\<lambda>(clock, i). map_option (Pair clock) (decoded i)) is)"
proof (induction "is" arbitrary: s)
  case (Cons x "is")
  obtain clock i where x: "x = (clock, i)" by fastforce
  show ?case
  proof (cases "decoded i")
    case None
    with Cons.IH x show ?thesis by (simp add: export_undecoded List.map_filter_simps)
  next
    case (Some qt)
    obtain q t where qt: "qt = (q, t)" by fastforce
    obtain s' r where "decide clock s q t = (s', r)" by fastforce
    with export_decoded [OF Some [unfolded qt] this] Cons.IH x Some qt show ?thesis
      by (simp add: List.map_filter_simps)
  qed
qed (simp add: List.map_filter_simps)

end

definition http_decoded :: "'c ingest_env \<Rightarrow> string option \<times> u8 list \<Rightarrow> (request \<times> transport) option" where
  "http_decoded env i =
    (case content_type_of (fst i) of (ct, t) \<Rightarrow>
       (case decode (decode_pb env) (decode_json env) (snd i) ct of Inr req \<Rightarrow> Some (req, t) | Inl _ \<Rightarrow> None))"

interpretation http: ingest_endpoint "accept env" "http_decoded env"
    "\<lambda>clock st i. http_export env clock st (fst i) (snd i)" http_class
  for env :: "'c ingest_env"
  by unfold_locales
    (auto simp: http_decoded_def http_export_def http_class_reply http_class_400 split: prod.splits sum.splits)

interpretation grpc: ingest_endpoint "accept env" "\<lambda>req. Some (req, GrpcV4317)" "grpc_export env" grpc_class
  for env :: "'c ingest_env"
  by unfold_locales (auto simp: grpc_export_def grpc_class_reply)

lemma accept_transport:
  "snd (accept env clock st req t) = snd (accept env clock st req t')"
  "tx (fst (accept env clock st req t)) = tx (fst (accept env clock st req t'))"
  "rejects (receiver (fst (accept env clock st req t))) = rejects (receiver (fst (accept env clock st req t')))"
  by (simp_all add: accept_def Let_def record_reject_def split: sum.split prod.split send_outcome.split)

text \<open>
  C16. A wrong-port and a right-port exporter get the same answer: a request that arrives as bytes
  over HTTP and decodes, and the same request over gRPC, in the same state and at the same time,
  get replies of the same class (acknowledged, retry, server fault), queue the same batch and
  record the same rejects; only the per-protocol arrival counter differs.
\<close>
theorem transports_agree:
  assumes "http_decoded env (header, bytes) = Some (req, t)"
  shows "http_class (snd (http_export env clock st header bytes)) = grpc_class (snd (grpc_export env clock st req))
    \<and> tx (fst (http_export env clock st header bytes)) = tx (fst (grpc_export env clock st req))
    \<and> rejects (receiver (fst (http_export env clock st header bytes)))
        = rejects (receiver (fst (grpc_export env clock st req)))"
proof -
  obtain s1 r1 where h: "accept env clock st req t = (s1, r1)" by fastforce
  obtain s2 r2 where g: "accept env clock st req GrpcV4317 = (s2, r2)" by fastforce
  from accept_transport [of env clock st req t GrpcV4317] h g
  have "r1 = r2" "tx s1 = tx s2" "rejects (receiver s1) = rejects (receiver s2)" by simp_all
  with http.export_decoded [OF assms h] grpc.export_decoded [OF refl g] show ?thesis by simp
qed

theorem transports_agree_witness:
  "http_decoded sample_env (Some ''application/json; charset=utf-8'', []) = Some ([], HttpJsonV4318)
   \<and> http_class (snd (http_export sample_env (Some 7) sample_state (Some ''application/json; charset=utf-8'') []))
       = grpc_class (snd (grpc_export sample_env (Some 7) sample_state []))"
proof -
  have d: "http_decoded sample_env (Some ''application/json; charset=utf-8'', []) = Some ([], HttpJsonV4318)"
    by (simp add: http_decoded_def content_type_of_def starts_with_def decode_def sample_env_def)
  with transports_agree [OF d, of "Some 7" sample_state] show ?thesis by blast
qed

text \<open>
  A body that does not decode is answered with status 400 and the reason, and leaves no trace:
  nothing is queued, no arrival is counted, and the reject ring is not written.
\<close>
lemma http_decode_error_unrecorded:
  assumes "decode_pb env bytes = Inl e" "\<not> (\<exists>ct. header = Some ct \<and> starts_with ct ''application/json'')"
  shows "http_export env clock st header bytes =
    (st, \<lparr>status = 400, retry_after = None, body = ''DecodeError('' @ debug_str env e @ '')''\<rparr>)"
  using assms by (auto simp: http_export_def content_type_of_def decode_def debug_reason_def split: option.split)

lemma http_decode_error_unrecorded_witness:
  "http_export sample_env None sample_state (Some ''text/plain'') [255] =
    (sample_state, \<lparr>status = 400, retry_after = None, body = ''DecodeError(truncated)''\<rparr>)"
  using http_decode_error_unrecorded [of sample_env "[255]" "''truncated''" "Some ''text/plain''" None sample_state]
  by (simp add: sample_env_def starts_with_def)

end
