(* ===== verification/Store.thy ===== *)
theory Store
  imports Trace "HOL-Library.AList" "HOL-Library.Multiset"
begin

text \<open>
  \<open>src/store/mod.rs\<close> and \<open>src/receiver.rs\<close>: the trace-partitioned store, insertion with
  resurrection of evicted traces, the counters, and oldest-activity eviction under a memory budget.

  \<open>FxHashMap<TraceId, Trace>\<close> is an association list with distinct keys.  Where the code iterates
  over it, the order is unspecified: it is the parameter \<open>ord\<close> of the definitions, and all the
  theorems assume of it is that an iteration visits each entry once (\<open>iterates\<close>).
  The two other hash maps are never iterated and are plain maps.
\<close>

section \<open>State\<close>

record counters =
  duplicate_span :: u64
  attribute_key_cap_hit :: u64
  late_span_after_eviction :: u64
  evicted_traces :: u64
  malformed_span :: u64

definition counters_default :: counters where
  "counters_default =
    \<lparr>duplicate_span = 0, attribute_key_cap_hit = 0, late_span_after_eviction = 0,
     evicted_traces = 0, malformed_span = 0\<rparr>"

definition GLOBAL_INTERNER_CAP :: nat where "GLOBAL_INTERNER_CAP = 100000"
definition APPROX_SPAN_FIXED_BYTES :: nat where "APPROX_SPAN_FIXED_BYTES = 64"
definition APPROX_ATTR_FIXED_BYTES :: nat where "APPROX_ATTR_FIXED_BYTES = 24"

type_synonym trace_map = "(trace_id \<times> trace) list"
type_synonym hash_order = "trace_map \<Rightarrow> trace_map"

record store =
  s_traces :: trace_map
  s_key_interner :: interner
  s_service_interner :: interner
  s_max_memory_bytes :: nat
  s_evicted_generations :: "trace_id \<rightharpoonup> u32"
  s_counters :: counters

record store_insert_outcome =
  so_local_idx :: nat
  so_is_duplicate :: bool
  so_resurrected :: bool

text \<open>Documented behaviour of hash map iteration: every entry exactly once, in any order.\<close>
definition iterates :: "hash_order \<Rightarrow> bool" where
  "iterates ord \<longleftrightarrow> (\<forall>m. mset (ord m) = mset m)"

definition store_new :: "nat \<Rightarrow> store" where
  "store_new max_memory_bytes =
    \<lparr>s_traces = [], s_key_interner = interner_new GLOBAL_INTERNER_CAP,
     s_service_interner = interner_new GLOBAL_INTERNER_CAP, s_max_memory_bytes = max_memory_bytes,
     s_evicted_generations = Map.empty, s_counters = counters_default\<rparr>"

section \<open>Reading\<close>

definition trace_count :: "store \<Rightarrow> nat" where
  "trace_count s = length (s_traces s)"

definition trace :: "store \<Rightarrow> trace_id \<Rightarrow> trace option" where
  "trace s tid = map_of (s_traces s) tid"

definition traces :: "hash_order \<Rightarrow> store \<Rightarrow> trace_map" where
  "traces ord s = ord (s_traces s)"

definition intern_service_name :: "store \<Rightarrow> string \<Rightarrow> store \<times> u32 option" where
  "intern_service_name s nm =
    (case intern (s_service_interner s) nm of (p, r) \<Rightarrow> (s\<lparr>s_service_interner := p\<rparr>, r))"

definition service_name :: "store \<Rightarrow> u32 \<Rightarrow> string panics" where
  "service_name s i = get (s_service_interner s) i"

definition attribute_key :: "store \<Rightarrow> u32 \<Rightarrow> string panics" where
  "attribute_key s i = get (s_key_interner s) i"

definition attribute_key_id :: "store \<Rightarrow> string \<Rightarrow> u32 option" where
  "attribute_key_id s key = lookup (s_key_interner s) key"

section \<open>Insertion\<close>

text \<open>\<open>self.traces.entry(trace_id).or_insert_with(..)\<close>: the trace to insert into and what is left
  of the evicted generations.\<close>
definition entry_or_insert :: "store \<Rightarrow> trace_id \<Rightarrow> u64 \<Rightarrow> trace \<times> (trace_id \<rightharpoonup> u32)" where
  "entry_or_insert s tid now =
    (case trace s tid of
       Some t \<Rightarrow> (t, s_evicted_generations s)
     | None \<Rightarrow>
         (let generation = (case s_evicted_generations s tid of Some g \<Rightarrow> g + 1 | None \<Rightarrow> 0)
          in ((trace_new tid now)\<lparr>t_generation := generation\<rparr>, (s_evicted_generations s)(tid := None))))"

definition insert_span_no_evict ::
    "store \<Rightarrow> trace_id \<Rightarrow> new_span \<Rightarrow> u64 \<Rightarrow> (store \<times> store_insert_outcome) panics" where
  "insert_span_no_evict s tid span0 now =
    (let (svc_interner, svc_id) =
           (case ns_service_name span0 of
              None \<Rightarrow> (s_service_interner s, None)
            | Some nm \<Rightarrow> intern (s_service_interner s) nm);
         span = span0\<lparr>ns_service_name := None\<rparr>;
         resurrected = (trace s tid = None \<and> s_evicted_generations s tid \<noteq> None);
         (t, evicted) = entry_or_insert s tid now
     in do { (t', key_interner, out) \<leftarrow> trace_insert t span svc_id (s_key_interner s) now;
             let c = s_counters s;
             let c = (if is_duplicate out then c\<lparr>duplicate_span := duplicate_span c + 1\<rparr> else c);
             let c = (if resurrected then c\<lparr>late_span_after_eviction := late_span_after_eviction c + 1\<rparr> else c);
             let c = c\<lparr>attribute_key_cap_hit := cap_hit_count key_interner\<rparr>;
             Some (s\<lparr>s_traces := AList.update tid t' (s_traces s), s_key_interner := key_interner,
                     s_service_interner := svc_interner, s_evicted_generations := evicted, s_counters := c\<rparr>,
                   \<lparr>so_local_idx = local_idx out, so_is_duplicate = is_duplicate out, so_resurrected = resurrected\<rparr>) })"

section \<open>Eviction\<close>

definition approx_bytes :: "trace \<Rightarrow> nat panics" where
  "approx_bytes t =
    foldO (\<lambda>total idx.
        do { nm \<leftarrow> name t idx; attrs \<leftarrow> attributes t idx;
             Some (total + APPROX_SPAN_FIXED_BYTES + length nm + length attrs * APPROX_ATTR_FIXED_BYTES) })
      0 [0..<span_count t]"

definition total_approx_bytes :: "hash_order \<Rightarrow> store \<Rightarrow> nat panics" where
  "total_approx_bytes ord s =
    foldO (\<lambda>total e. do { b \<leftarrow> approx_bytes (snd e); Some (total + b) }) 0 (traces ord s)"

text \<open>\<open>Iterator::min_by_key\<close>: the first of the entries with the least key.\<close>
fun min_by_key :: "('a \<Rightarrow> 'b :: linorder) \<Rightarrow> 'a list \<Rightarrow> 'a option" where
  "min_by_key f [] = None"
| "min_by_key f (x # xs) = Some (fold (\<lambda>y best. if f y < f best then y else best) xs x)"

definition oldest :: "hash_order \<Rightarrow> store \<Rightarrow> trace_id option" where
  "oldest ord s = map_option fst (min_by_key (t_last_activity \<circ> snd) (traces ord s))"

definition evict :: "store \<Rightarrow> trace_id \<Rightarrow> store" where
  "evict s tid =
    (case trace s tid of
       None \<Rightarrow> s
     | Some t \<Rightarrow>
         s\<lparr>s_traces := AList.delete tid (s_traces s),
           s_evicted_generations := (s_evicted_generations s)(tid \<mapsto> t_generation t),
           s_counters := (s_counters s)\<lparr>evicted_traces := evicted_traces (s_counters s) + 1\<rparr>\<rparr>)"

partial_function (option) evict_over_budget :: "hash_order \<Rightarrow> store \<Rightarrow> store panics" where
  "evict_over_budget ord s =
    do { total \<leftarrow> total_approx_bytes ord s;
         if s_max_memory_bytes s < total \<and> 1 < trace_count s
         then (case oldest ord s of
                 None \<Rightarrow> Some s
               | Some tid \<Rightarrow> evict_over_budget ord (evict s tid))
         else Some s }"

definition insert_span ::
    "hash_order \<Rightarrow> store \<Rightarrow> trace_id \<Rightarrow> new_span \<Rightarrow> u64 \<Rightarrow> (store \<times> store_insert_outcome) panics" where
  "insert_span ord s tid span now =
    do { (s', out) \<leftarrow> insert_span_no_evict s tid span now;
         s'' \<leftarrow> evict_over_budget ord s';
         Some (s'', out) }"

section \<open>Invariant\<close>

text \<open>Ids stored in a trace resolve in the interners; \<open>n\<close> bounds its attribute pairs.\<close>
definition trace_ok :: "nat \<Rightarrow> interner \<Rightarrow> interner \<Rightarrow> trace_id \<Rightarrow> trace \<Rightarrow> bool" where
  "trace_ok n ki si tid t \<longleftrightarrow>
     t_trace_id t = tid \<and> trace_wf t \<and> attr_count t \<le> n
     \<and> (\<forall>k \<in> set (t_attr_keys t). get ki k \<noteq> None)
     \<and> (\<forall>i. Some i \<in> set (t_service_name_id t) \<longrightarrow> get si i \<noteq> None)"

definition store_inv :: "nat \<Rightarrow> store \<Rightarrow> bool" where
  "store_inv n s \<longleftrightarrow>
     distinct (map fst (s_traces s))
     \<and> (\<forall>(tid, t) \<in> set (s_traces s). trace_ok n (s_key_interner s) (s_service_interner s) tid t)
     \<and> interner_wf (s_key_interner s) \<and> interner_wf (s_service_interner s)
     \<and> finite (dom (s_evicted_generations s))
     \<and> fst ` set (s_traces s) \<inter> dom (s_evicted_generations s) = {}
     \<and> attribute_key_cap_hit (s_counters s) = cap_hit_count (s_key_interner s)
     \<and> of_nat (card (dom (s_evicted_generations s))) + late_span_after_eviction (s_counters s)
         = evicted_traces (s_counters s)"

lemma trace_SomeD: "trace s tid = Some t \<Longrightarrow> (tid, t) \<in> set (s_traces s)"
  by (simp add: trace_def map_of_SomeD)

lemma store_invD:
  assumes "store_inv n s"
  shows "distinct (map fst (s_traces s))"
    and "trace s tid = Some t \<Longrightarrow> trace_ok n (s_key_interner s) (s_service_interner s) tid t"
    and "interner_wf (s_key_interner s)" and "interner_wf (s_service_interner s)"
    and "trace s tid = Some t \<Longrightarrow> s_evicted_generations s tid = None"
    and "finite (dom (s_evicted_generations s))"
    and "fst ` set (s_traces s) \<inter> dom (s_evicted_generations s) = {}"
  using assms trace_SomeD [of s tid t] by (auto simp: store_inv_def)

lemma trace_ok_mono:
  assumes "trace_ok n ki si tid t" "n \<le> n'"
    and "\<And>i x. get ki i = Some x \<Longrightarrow> get ki' i = Some x"
    and "\<And>i x. get si i = Some x \<Longrightarrow> get si' i = Some x"
  shows "trace_ok n' ki' si' tid t"
  using assms by (fastforce simp: trace_ok_def)

lemma store_inv_mono: "store_inv n s \<Longrightarrow> n \<le> n' \<Longrightarrow> store_inv n' s"
  by (auto simp: store_inv_def intro: trace_ok_mono)

lemma trace_ok_new: "trace_ok n ki si tid ((trace_new tid now)\<lparr>t_generation := g\<rparr>)"
proof -
  have "(trace_new tid now)\<lparr>t_generation := g\<rparr> = repr tid g now []"
    by (simp add: repr_empty [symmetric] repr_generation)
  then show ?thesis
    using trace_wf_repr [of "[]" tid g now]
    by (simp add: trace_ok_def wf_simps attr_total_def set_attr_keys_repr set_service_repr)
qed

lemma store_inv_new: "store_inv n (store_new budget)"
proof -
  have "interner_wf (interner_new GLOBAL_INTERNER_CAP)"
    by (rule interner_wf_new) (simp add: GLOBAL_INTERNER_CAP_def)
  then show ?thesis
    by (simp add: store_inv_def store_new_def counters_default_def cap_hit_count_def interner_new_def)
qed

text \<open>What readers rely on: a resident trace is a list of rows whose ids resolve.\<close>
definition row_resolves :: "interner \<Rightarrow> interner \<Rightarrow> span_row \<Rightarrow> bool" where
  "row_resolves ki si r \<longleftrightarrow>
     (\<forall>kv \<in> set (r_attrs r). get ki (fst kv) \<noteq> None) \<and> (\<forall>i. r_service r = Some i \<longrightarrow> get si i \<noteq> None)"

lemma resident_rows:
  assumes "store_inv n s" "trace s tid = Some t"
  obtains rows where "rows_ok rows" "t = repr tid (t_generation t) (t_last_activity t) rows"
    "\<forall>r \<in> set rows. row_resolves (s_key_interner s) (s_service_interner s) r"
proof -
  have ok: "trace_ok n (s_key_interner s) (s_service_interner s) tid t" using store_invD(2) [OF assms] .
  then obtain rows where rows: "rows_ok rows" "t = repr tid (t_generation t) (t_last_activity t) rows"
    by (auto simp: trace_ok_def trace_wf_def)
  have refs: "\<forall>k \<in> set (t_attr_keys t). get (s_key_interner s) k \<noteq> None"
    "\<forall>i. Some i \<in> set (t_service_name_id t) \<longrightarrow> get (s_service_interner s) i \<noteq> None"
    using ok by (simp_all add: trace_ok_def)
  have keys: "set (t_attr_keys t) = (\<Union>r \<in> set rows. fst ` set (r_attrs r))"
    and svcs: "set (t_service_name_id t) = r_service ` set rows"
    using set_attr_keys_repr set_service_repr rows(2) by metis+
  have "\<forall>r \<in> set rows. row_resolves (s_key_interner s) (s_service_interner s) r"
    unfolding row_resolves_def
  proof (intro conjI ballI allI impI)
    fix r kv assume "r \<in> set rows" "kv \<in> set (r_attrs r)"
    with keys refs(1) show "get (s_key_interner s) (fst kv) \<noteq> None" by blast
  next
    fix r i assume "r \<in> set rows" "r_service r = Some i"
    with svcs have "Some i \<in> set (t_service_name_id t)" by (metis image_eqI)
    with refs(2) show "get (s_service_interner s) i \<noteq> None" by blast
  qed
  with rows show thesis by (rule that)
qed

subsection \<open>Insertion keeps the invariant\<close>

text \<open>The result of \<open>insert_span_no_evict\<close>, component by component.\<close>
lemma insert_span_no_evict_result:
  assumes inv: "store_inv n s" and room: "n + length (ns_attributes span) < 2 ^ 32"
  obtains t evicted si' svc t' ki' out c where
    "entry_or_insert s tid now = (t, evicted)"
    "(case ns_service_name span of None \<Rightarrow> (s_service_interner s, None)
      | Some nm \<Rightarrow> intern (s_service_interner s) nm) = (si', svc)"
    "trace_ok n (s_key_interner s) si' tid t"
    "trace_insert t (span\<lparr>ns_service_name := None\<rparr>) svc (s_key_interner s) now = Some (t', ki', out)"
    "trace_ok (n + length (ns_attributes span)) ki' si' tid t'"
    "interner_wf ki'" "interner_wf si'"
    "\<And>i x. get (s_key_interner s) i = Some x \<Longrightarrow> get ki' i = Some x"
    "\<And>i x. get (s_service_interner s) i = Some x \<Longrightarrow> get si' i = Some x"
    "c = (s_counters s)\<lparr>
        duplicate_span := duplicate_span (s_counters s) + (if is_duplicate out then 1 else 0),
        late_span_after_eviction := late_span_after_eviction (s_counters s)
          + (if trace s tid = None \<and> s_evicted_generations s tid \<noteq> None then 1 else 0),
        attribute_key_cap_hit := cap_hit_count ki'\<rparr>"
    "insert_span_no_evict s tid span now =
       Some (s\<lparr>s_traces := AList.update tid t' (s_traces s), s_key_interner := ki',
               s_service_interner := si', s_evicted_generations := evicted, s_counters := c\<rparr>,
             \<lparr>so_local_idx = local_idx out, so_is_duplicate = is_duplicate out,
              so_resurrected = (trace s tid = None \<and> s_evicted_generations s tid \<noteq> None)\<rparr>)"
proof -
  obtain t evicted where e: "entry_or_insert s tid now = (t, evicted)" by fastforce
  obtain si' svc where sv: "(case ns_service_name span of None \<Rightarrow> (s_service_interner s, None)
      | Some nm \<Rightarrow> intern (s_service_interner s) nm) = (si', svc)" by fastforce
  note d = store_invD [OF inv]
  have si': "interner_wf si'" and stable: "\<And>i x. get (s_service_interner s) i = Some x \<Longrightarrow> get si' i = Some x"
    and svc: "\<And>i. svc = Some i \<Longrightarrow> get si' i \<noteq> None"
    using sv d(4) interner_wf_intern get_stable intern_resolves
    by (fastforce split: option.splits)+
  have ok: "trace_ok n (s_key_interner s) si' tid t"
  proof (cases "trace s tid")
    case None
    then show ?thesis using e trace_ok_new by (auto simp: entry_or_insert_def Let_def)
  next
    case (Some u)
    with e have "t = u" by (simp add: entry_or_insert_def)
    with d(2) [OF Some] stable show ?thesis by (auto intro: trace_ok_mono)
  qed
  let ?span = "span\<lparr>ns_service_name := None\<rparr>"
  have room': "attr_count t + length (ns_attributes ?span) < 2 ^ 32" and wf: "trace_wf t"
    using ok room by (auto simp: trace_ok_def)
  from trace_insert_wf [OF wf d(3) room', of svc now] obtain t' ki' out where
    ins: "trace_insert t ?span svc (s_key_interner s) now = Some (t', ki', out)"
    and t': "trace_wf t'" "interner_wf ki'" "attr_count t' \<le> attr_count t + length (ns_attributes ?span)"
      "t_trace_id t' = t_trace_id t" by blast
  note refs = trace_insert_refs [OF wf d(3) room' ins]
  have ok': "trace_ok (n + length (ns_attributes span)) ki' si' tid t'"
    using ok t' refs(1) refs(2) refs(3) svc by (fastforce simp: trace_ok_def)
  show thesis
    by (rule that [OF e sv ok ins ok' t'(2) si' refs(3) stable refl])
       (auto simp: insert_span_no_evict_def sv e ins Let_def)
qed

lemma set_alist_update: "(k, v) \<in> set (AList.update tid t al) \<Longrightarrow> (k, v) = (tid, t) \<or> (k, v) \<in> set al"
  by (induction al) (auto split: if_splits)

lemma fst_set_alist_update: "fst ` set (AList.update tid t al) = insert tid (fst ` set al)"
  by (induction al) auto

lemma entry_or_insert_evicted:
  assumes "store_inv n s" "entry_or_insert s tid now = (t, evicted)"
  shows "evicted = (s_evicted_generations s)(tid := None)"
proof (cases "trace s tid")
  case None
  with assms(2) show ?thesis by (auto simp: entry_or_insert_def Let_def)
next
  case (Some u)
  with assms(2) store_invD(5) [OF assms(1) Some] show ?thesis by (auto simp: entry_or_insert_def)
qed

lemma insert_span_no_evict_inv:
  assumes inv: "store_inv n s" and room: "n + length (ns_attributes span) < 2 ^ 32"
  shows "\<exists>s' out. insert_span_no_evict s tid span now = Some (s', out)
    \<and> store_inv (n + length (ns_attributes span)) s'"
  using inv room
proof (rule insert_span_no_evict_result [where tid = tid and now = now])
  fix t evicted si' svc t' ki' out c
  assume e: "entry_or_insert s tid now = (t, evicted)"
    and ok': "trace_ok (n + length (ns_attributes span)) ki' si' tid t'"
    and wf: "interner_wf ki'" "interner_wf si'"
    and ks: "\<And>i x. get (s_key_interner s) i = Some x \<Longrightarrow> get ki' i = Some x"
    and ss: "\<And>i x. get (s_service_interner s) i = Some x \<Longrightarrow> get si' i = Some x"
    and c: "c = (s_counters s)\<lparr>
        duplicate_span := duplicate_span (s_counters s) + (if is_duplicate out then 1 else 0),
        late_span_after_eviction := late_span_after_eviction (s_counters s)
          + (if trace s tid = None \<and> s_evicted_generations s tid \<noteq> None then 1 else 0),
        attribute_key_cap_hit := cap_hit_count ki'\<rparr>"
    and res: "insert_span_no_evict s tid span now =
       Some (s\<lparr>s_traces := AList.update tid t' (s_traces s), s_key_interner := ki',
               s_service_interner := si', s_evicted_generations := evicted, s_counters := c\<rparr>,
             \<lparr>so_local_idx = local_idx out, so_is_duplicate = is_duplicate out,
              so_resurrected = (trace s tid = None \<and> s_evicted_generations s tid \<noteq> None)\<rparr>)"
  note d = store_invD [OF inv]
  have old: "trace_ok (n + length (ns_attributes span)) ki' si' k u" if "(k, u) \<in> set (s_traces s)" for k u
    using inv that ks ss by (auto simp: store_inv_def intro: trace_ok_mono)
  have entries: "\<forall>(k, u) \<in> set (AList.update tid t' (s_traces s)). trace_ok (n + length (ns_attributes span)) ki' si' k u"
    using old ok' by (auto dest: set_alist_update)
  have evicted: "evicted = (s_evicted_generations s)(tid := None)"
    using entry_or_insert_evicted [OF inv e] .
  have count: "of_nat (card (dom evicted)) + late_span_after_eviction c = evicted_traces c"
  proof (cases "tid \<in> dom (s_evicted_generations s)")
    case True
    then have "trace s tid = None" using d(5) by fastforce
    moreover have "card (dom (s_evicted_generations s)) = Suc (card (dom evicted))"
      using True d(6) card_Suc_Diff1 [of "dom (s_evicted_generations s)" tid] by (simp add: evicted)
    ultimately show ?thesis using inv True by (auto simp: store_inv_def c algebra_simps)
  next
    case False
    then have "evicted = s_evicted_generations s" by (auto simp: evicted)
    with False inv show ?thesis by (auto simp: store_inv_def c)
  qed
  have "store_inv (n + length (ns_attributes span))
     (s\<lparr>s_traces := AList.update tid t' (s_traces s), s_key_interner := ki',
        s_service_interner := si', s_evicted_generations := evicted, s_counters := c\<rparr>)"
    unfolding store_inv_def
    using d(1,6,7) entries wf count by (auto simp: distinct_update fst_set_alist_update evicted c)
  with res show ?thesis by blast
qed

section \<open>Footprint\<close>

text \<open>What the code's loop computes, as a closed expression.\<close>
definition trace_bytes :: "trace \<Rightarrow> nat" where
  "trace_bytes t = APPROX_SPAN_FIXED_BYTES * span_count t + sum_list (map length (t_names t))
     + APPROX_ATTR_FIXED_BYTES * attr_count t"

definition store_bytes :: "store \<Rightarrow> nat" where
  "store_bytes s = sum_list (map (trace_bytes \<circ> snd) (s_traces s))"

lemma foldO_sum:
  "(\<And>x. x \<in> set xs \<Longrightarrow> f x = Some (g x)) \<Longrightarrow>
   foldO (\<lambda>total x. do { b \<leftarrow> f x; Some (total + b) }) a xs = Some (a + sum_list (map g xs) :: nat)"
  by (induction xs arbitrary: a) auto

lemma approx_bytes_eq:
  assumes "trace_wf t"
  shows "approx_bytes t = Some (trace_bytes t)"
proof -
  from assms obtain tid gen la rows where ok: "rows_ok rows" and t: "t = repr tid gen la rows" by (rule trace_wfE)
  let ?f = "\<lambda>r. APPROX_SPAN_FIXED_BYTES + length (r_name r) + length (r_attrs r) * APPROX_ATTR_FIXED_BYTES"
  have step: "(\<lambda>total idx. do { nm \<leftarrow> name t idx; attrs \<leftarrow> attributes t idx;
             Some (total + APPROX_SPAN_FIXED_BYTES + length nm + length attrs * APPROX_ATTR_FIXED_BYTES) })
      = (\<lambda>total idx. do { b \<leftarrow> do { nm \<leftarrow> name t idx; attrs \<leftarrow> attributes t idx;
             Some (APPROX_SPAN_FIXED_BYTES + length nm + length attrs * APPROX_ATTR_FIXED_BYTES) };
           Some (total + b) })"
    by (intro ext) (simp add: add.assoc)
  have "approx_bytes t = Some (0 + sum_list (map (\<lambda>i. ?f (rows ! i)) [0..<length rows]))"
    unfolding approx_bytes_def step
    by (subst foldO_sum [where g = "\<lambda>i. ?f (rows ! i)"]) (simp_all add: t repr_access repr_attrs [OF ok])
  also have "map (\<lambda>i. ?f (rows ! i)) [0..<length rows] = map ?f rows"
    by (rule nth_equalityI) auto
  also have "sum_list (map ?f rows) = APPROX_SPAN_FIXED_BYTES * length rows
      + sum_list (map length (map r_name rows)) + APPROX_ATTR_FIXED_BYTES * attr_total rows"
    by (induction rows) (simp_all add: attr_total_def algebra_simps)
  also have "0 + \<dots> = trace_bytes t" by (simp add: t trace_bytes_def)
  finally show ?thesis .
qed

lemma iterates_set: "iterates ord \<Longrightarrow> set (ord m) = set m"
  unfolding iterates_def by (metis set_mset_mset)

lemma total_approx_bytes_eq:
  assumes "iterates ord" "store_inv n s"
  shows "total_approx_bytes ord s = Some (store_bytes s)"
proof -
  have wf: "approx_bytes (snd e) = Some (trace_bytes (snd e))" if "e \<in> set (ord (s_traces s))" for e
    using that assms iterates_set [OF assms(1)] by (auto simp: store_inv_def trace_ok_def intro!: approx_bytes_eq)
  have "total_approx_bytes ord s = Some (0 + sum_list (map (trace_bytes \<circ> snd) (ord (s_traces s))))"
    unfolding total_approx_bytes_def traces_def
    by (subst foldO_sum [where g = "trace_bytes \<circ> snd"]) (simp_all add: wf)
  also have "sum_list (map (trace_bytes \<circ> snd) (ord (s_traces s))) = store_bytes s"
    using assms(1) unfolding store_bytes_def iterates_def
    by (metis mset_map sum_mset_sum_list)
  finally show ?thesis by simp
qed

section \<open>Eviction\<close>

lemma min_by_key_Some:
  assumes "min_by_key f xs = Some m"
  shows "m \<in> set xs \<and> (\<forall>x \<in> set xs. f m \<le> f x)"
proof -
  have step: "fold (\<lambda>y best. if f y < f best then y else best) ys b \<in> insert b (set ys)
      \<and> (\<forall>x \<in> insert b (set ys). f (fold (\<lambda>y best. if f y < f best then y else best) ys b) \<le> f x)"
    for ys b
  proof (induction ys arbitrary: b)
    case (Cons y ys)
    from Cons.IH [of y] Cons.IH [of b] show ?case by (auto intro: order_trans less_imp_le)
  qed simp
  from assms show ?thesis by (cases xs) (use step in auto)
qed

lemma min_by_key_None: "min_by_key f xs = None \<longleftrightarrow> xs = []"
  by (cases xs) auto

lemma oldest_Some:
  assumes "iterates ord" "store_inv n s" "s_traces s \<noteq> []"
  obtains tid t where "oldest ord s = Some tid" "trace s tid = Some t"
    "\<And>k u. trace s k = Some u \<Longrightarrow> t_last_activity t \<le> t_last_activity u"
proof -
  have set: "set (traces ord s) = set (s_traces s)" using assms(1) by (simp add: traces_def iterates_set)
  with assms(3) have "traces ord s \<noteq> []" by auto
  then obtain m where m: "min_by_key (t_last_activity \<circ> snd) (traces ord s) = Some m"
    using min_by_key_None by (metis not_None_eq)
  note mm = min_by_key_Some [OF m, unfolded set]
  have "trace s (fst m) = Some (snd m)"
    using mm store_invD(1) [OF assms(2)] by (simp add: trace_def map_of_eq_Some_iff)
  moreover have "t_last_activity (snd m) \<le> t_last_activity u" if "trace s k = Some u" for k u
    using mm trace_SomeD [OF that] by force
  ultimately show thesis using m by (intro that [of "fst m" "snd m"]) (auto simp: oldest_def)
qed

lemma evict_sel:
  assumes "trace s tid = Some t"
  shows "trace (evict s tid) = (trace s)(tid := None)"
    and "s_key_interner (evict s tid) = s_key_interner s"
    and "s_service_interner (evict s tid) = s_service_interner s"
    and "s_max_memory_bytes (evict s tid) = s_max_memory_bytes s"
    and "s_evicted_generations (evict s tid) = (s_evicted_generations s)(tid \<mapsto> t_generation t)"
    and "s_counters (evict s tid) = (s_counters s)\<lparr>evicted_traces := evicted_traces (s_counters s) + 1\<rparr>"
    and "s_traces (evict s tid) = AList.delete tid (s_traces s)"
  using assms by (simp_all add: evict_def trace_def delete_conv' fun_eq_iff)

lemma alist_delete_split:
  assumes "distinct (map fst al)" "map_of al k = Some v"
  shows "length al = Suc (length (AList.delete k al))"
    and "sum_list (map (f \<circ> snd) al) = sum_list (map (f \<circ> snd) (AList.delete k al)) + (f v :: nat)"
proof -
  have "length al = Suc (length (AList.delete k al))
    \<and> sum_list (map (f \<circ> snd) al) = sum_list (map (f \<circ> snd) (AList.delete k al)) + f v"
    using assms
  proof (induction al)
    case (Cons e al)
    show ?case
    proof (cases "fst e = k")
      case True
      with Cons.prems have "AList.delete k al = al" "snd e = v"
        by (auto simp: AList.delete_idem image_iff)
      with True show ?thesis by (cases e) simp
    next
      case False
      with Cons.prems Cons.IH show ?thesis by (cases e) simp
    qed
  qed simp
  then show "length al = Suc (length (AList.delete k al))"
    and "sum_list (map (f \<circ> snd) al) = sum_list (map (f \<circ> snd) (AList.delete k al)) + f v" by auto
qed

lemma evict_inv:
  assumes inv: "store_inv n s" and t: "trace s tid = Some t"
  shows "store_inv n (evict s tid)"
    and "trace_count s = Suc (trace_count (evict s tid))"
    and "store_bytes s = store_bytes (evict s tid) + trace_bytes t"
proof -
  note d = store_invD [OF inv] and e = evict_sel [OF t]
  have sub: "set (AList.delete tid (s_traces s)) \<subseteq> set (s_traces s)" by (simp add: AList.delete_eq)
  have keys: "fst ` set (AList.delete tid (s_traces s)) = fst ` set (s_traces s) - {tid}"
    by (auto simp: AList.delete_eq)
  have "tid \<notin> dom (s_evicted_generations s)" using d(5) [OF t] by (simp add: domIff)
  then have "card (dom (s_evicted_generations (evict s tid))) = Suc (card (dom (s_evicted_generations s)))"
    using d(6) by (simp add: e)
  then show "store_inv n (evict s tid)"
    using inv sub d(1) unfolding store_inv_def
    by (auto simp: e keys distinct_delete algebra_simps)
  show "trace_count s = Suc (trace_count (evict s tid))"
    and "store_bytes s = store_bytes (evict s tid) + trace_bytes t"
    using alist_delete_split(1) [OF d(1)] alist_delete_split(2) [OF d(1), where f = trace_bytes] t
    by (simp_all add: trace_def e trace_count_def store_bytes_def)
qed

text \<open>
  What an eviction sweep from \<open>s\<close> to \<open>s'\<close> may do: drop traces, none of which was active after a
  survivor was last active, remember the generation of each, count them, and touch nothing else.
\<close>
definition sweep_of :: "store \<Rightarrow> store \<Rightarrow> bool" where
  "sweep_of s s' \<longleftrightarrow>
     (\<forall>k. trace s' k = None \<or> trace s' k = trace s k)
     \<and> (\<forall>k u k' u'. trace s k = Some u \<and> trace s' k = None \<and> trace s' k' = Some u'
          \<longrightarrow> t_last_activity u \<le> t_last_activity u')
     \<and> (\<forall>k. s_evicted_generations s' k =
          (if trace s' k = None \<and> trace s k \<noteq> None then map_option t_generation (trace s k)
           else s_evicted_generations s k))
     \<and> trace_count s' \<le> trace_count s
     \<and> s_counters s' = (s_counters s)\<lparr>evicted_traces := evicted_traces (s_counters s)
          + of_nat (trace_count s - trace_count s')\<rparr>
     \<and> s_key_interner s' = s_key_interner s \<and> s_service_interner s' = s_service_interner s
     \<and> s_max_memory_bytes s' = s_max_memory_bytes s"

lemma sweep_of_refl: "sweep_of s s"
  by (auto simp: sweep_of_def)

lemma sweep_of_step:
  assumes inv: "store_inv n s" and t: "trace s tid = Some t"
    and min: "\<And>k u. trace s k = Some u \<Longrightarrow> t_last_activity t \<le> t_last_activity u"
    and sw: "sweep_of (evict s tid) s'"
  shows "sweep_of s s'"
proof -
  note e = evict_sel [OF t]
  have sub: "trace s' k = None \<or> k \<noteq> tid \<and> trace s' k = trace s k" for k
  proof -
    have "trace s' k = None \<or> trace s' k = trace (evict s tid) k" using sw by (simp add: sweep_of_def)
    then show ?thesis by (auto simp: e split: if_splits)
  qed
  have cnt: "trace_count s = Suc (trace_count (evict s tid))" by (rule evict_inv(2) [OF inv t])
  have "t_last_activity u \<le> t_last_activity u'"
    if "trace s k = Some u" "trace s' k = None" "trace s' k' = Some u'" for k u k' u'
  proof (cases "k = tid")
    case True
    with that sub [of k'] t min show ?thesis by auto
  next
    case False
    with that(1) have "trace (evict s tid) k = Some u" by (simp add: e)
    with that(2,3) sw show ?thesis unfolding sweep_of_def by blast
  qed
  moreover have "s_evicted_generations s' k =
      (if trace s' k = None \<and> trace s k \<noteq> None then map_option t_generation (trace s k)
       else s_evicted_generations s k)" for k
    using sw t sub [of tid] by (auto simp: sweep_of_def e)
  moreover have "s_counters s' = (s_counters s)\<lparr>evicted_traces := evicted_traces (s_counters s)
          + of_nat (trace_count s - trace_count s')\<rparr>"
    using sw cnt by (simp add: sweep_of_def e Suc_diff_le algebra_simps)
  moreover have "trace s' k = None \<or> trace s' k = trace s k" for k using sub [of k] by blast
  moreover have "trace_count s' \<le> trace_count s" "s_key_interner s' = s_key_interner s"
    "s_service_interner s' = s_service_interner s" "s_max_memory_bytes s' = s_max_memory_bytes s"
    using sw cnt by (simp_all add: sweep_of_def e)
  ultimately show ?thesis unfolding sweep_of_def by blast
qed

lemma evict_over_budget_sweep:
  assumes "iterates ord" "store_inv n s"
  shows "\<exists>s'. evict_over_budget ord s = Some s' \<and> store_inv n s' \<and> sweep_of s s'
    \<and> (store_bytes s' \<le> s_max_memory_bytes s \<or> trace_count s' \<le> 1)
    \<and> (store_bytes s \<le> s_max_memory_bytes s \<or> trace_count s \<le> 1 \<longrightarrow> s' = s)
    \<and> (s_traces s \<noteq> [] \<longrightarrow> s_traces s' \<noteq> [])
    \<and> (s' \<noteq> s \<longrightarrow> (\<exists>k u. trace s k = Some u \<and> trace s' k = None
         \<and> s_max_memory_bytes s < store_bytes s' + trace_bytes u))"
  using assms(2)
proof (induction "trace_count s" arbitrary: s rule: less_induct)
  case less
  have tot: "total_approx_bytes ord s = Some (store_bytes s)"
    by (rule total_approx_bytes_eq [OF assms(1) less.prems])
  show ?case
  proof (cases "s_max_memory_bytes s < store_bytes s \<and> 1 < trace_count s")
    case False
    then have "evict_over_budget ord s = Some s" using tot by (subst evict_over_budget.simps) auto
    with False less.prems show ?thesis by (auto simp: sweep_of_refl)
  next
    case True
    then have "s_traces s \<noteq> []" by (auto simp: trace_count_def)
    with assms(1) less.prems obtain tid t where old: "oldest ord s = Some tid" "trace s tid = Some t"
      "\<And>k u. trace s k = Some u \<Longrightarrow> t_last_activity t \<le> t_last_activity u"
      by (rule oldest_Some) blast
    note e = evict_sel [OF old(2)] and ei = evict_inv [OF less.prems old(2)]
    have eq: "evict_over_budget ord s = evict_over_budget ord (evict s tid)"
      using tot True old(1) by (subst evict_over_budget.simps) simp
    from less.hyps [OF _ ei(1)] ei(2) obtain s' where
      s': "evict_over_budget ord (evict s tid) = Some s'" "store_inv n s'" "sweep_of (evict s tid) s'"
        "store_bytes s' \<le> s_max_memory_bytes s \<or> trace_count s' \<le> 1"
        "s_traces (evict s tid) \<noteq> [] \<longrightarrow> s_traces s' \<noteq> []"
        "s' \<noteq> evict s tid \<longrightarrow> (\<exists>k u. trace (evict s tid) k = Some u \<and> trace s' k = None
         \<and> s_max_memory_bytes s < store_bytes s' + trace_bytes u)"
      by (auto simp: e)
    have "\<exists>k u. trace s k = Some u \<and> trace s' k = None \<and> s_max_memory_bytes s < store_bytes s' + trace_bytes u"
    proof (cases "s' = evict s tid")
      case True': True
      with True ei(3) old(2) show ?thesis by (intro exI [of _ tid] exI [of _ t]) (simp add: e)
    next
      case False
      with s'(6) show ?thesis by (auto simp: e split: if_splits)
    qed
    moreover have "s_traces (evict s tid) \<noteq> []" using True ei(2) by (auto simp: trace_count_def)
    ultimately show ?thesis using True s' eq sweep_of_step [OF less.prems old(2,3) s'(3)] by auto
  qed
qed

section \<open>Properties\<close>

lemma trace_update [simp]:
  "trace (s\<lparr>s_traces := AList.update tid t (s_traces s), s_key_interner := ki, s_service_interner := si,
             s_evicted_generations := ev, s_counters := c\<rparr>) = (trace s)(tid \<mapsto> t)"
  by (simp add: trace_def fun_eq_iff update_conv')

lemma is_duplicate_iff:
  assumes "trace_wf t" "interner_wf ki" "attr_count t + length (ns_attributes span) < 2 ^ 32"
    and "trace_insert t span svc ki now = Some (t', ki', out)"
  shows "is_duplicate out \<longleftrightarrow> ns_span_id span \<in> set (t_span_ids t)"
    and "t_generation t' = t_generation t" and "t_last_activity t' = now"
proof -
  from assms(1-3) obtain rows rows' ki'' ia out' where
    rows: "t = repr (t_trace_id t) (t_generation t) (t_last_activity t) rows"
    and ri: "rows_insert rows (row_of span svc ia) = (rows', out')"
    and res: "trace_insert t span svc ki now = Some (repr (t_trace_id t) (t_generation t) now rows', ki'', out')"
    by (rule trace_insert_rows [where svc = svc and now = now])
  obtain tid gen la where t: "t = repr tid gen la rows" using rows by blast
  from rows_insert_nth(5) [OF ri] have "is_duplicate out' \<longleftrightarrow> ns_span_id span \<in> set (map r_span_id rows)"
    by (simp add: row_of_def)
  with res assms(4) t show "is_duplicate out \<longleftrightarrow> ns_span_id span \<in> set (t_span_ids t)"
    and "t_generation t' = t_generation t" and "t_last_activity t' = now" by auto
qed

text \<open>The span ids a trace id holds: none when it is not resident.\<close>
definition resident_ids :: "store \<Rightarrow> trace_id \<Rightarrow> span_id list" where
  "resident_ids s tid = (case trace s tid of Some t \<Rightarrow> t_span_ids t | None \<Rightarrow> [])"

text \<open>The generation an insertion continues or starts.\<close>
definition next_generation :: "store \<Rightarrow> trace_id \<Rightarrow> u32" where
  "next_generation s tid =
    (case trace s tid of
       Some t \<Rightarrow> t_generation t
     | None \<Rightarrow> (case s_evicted_generations s tid of Some g \<Rightarrow> g + 1 | None \<Rightarrow> 0))"

lemma entry_or_insert_trace:
  assumes "entry_or_insert s tid now = (t, evicted)"
  shows "t_span_ids t = resident_ids s tid" and "t_generation t = next_generation s tid"
  using assms
  by (auto simp: entry_or_insert_def resident_ids_def next_generation_def Let_def trace_new_def split: option.splits)

lemma insert_effect:
  assumes inv: "store_inv n s" and room: "n + length (ns_attributes span) < 2 ^ 32"
    and ins: "insert_span_no_evict s tid span now = Some (s', out)"
  shows "\<exists>t'. trace s' = (trace s)(tid \<mapsto> t') \<and> t_last_activity t' = now
       \<and> t_generation t' = next_generation s tid
       \<and> t_span_ids t' = (if ns_span_id span \<in> set (resident_ids s tid) then resident_ids s tid
                           else resident_ids s tid @ [ns_span_id span])"
    and "so_is_duplicate out \<longleftrightarrow> ns_span_id span \<in> set (resident_ids s tid)"
    and "so_resurrected out \<longleftrightarrow> trace s tid = None \<and> s_evicted_generations s tid \<noteq> None"
    and "s_evicted_generations s' = (s_evicted_generations s)(tid := None)"
    and "s_counters s' = (s_counters s)\<lparr>
        duplicate_span := duplicate_span (s_counters s) + (if so_is_duplicate out then 1 else 0),
        late_span_after_eviction := late_span_after_eviction (s_counters s) + (if so_resurrected out then 1 else 0),
        attribute_key_cap_hit := cap_hit_count (s_key_interner s')\<rparr>"
    and "s_max_memory_bytes s' = s_max_memory_bytes s"
proof -
  from inv room obtain t evicted si' svc t' ki' o' c where
    e: "entry_or_insert s tid now = (t, evicted)"
    and ok: "trace_ok n (s_key_interner s) si' tid t"
    and ti: "trace_insert t (span\<lparr>ns_service_name := None\<rparr>) svc (s_key_interner s) now = Some (t', ki', o')"
    and c: "c = (s_counters s)\<lparr>
        duplicate_span := duplicate_span (s_counters s) + (if is_duplicate o' then 1 else 0),
        late_span_after_eviction := late_span_after_eviction (s_counters s)
          + (if trace s tid = None \<and> s_evicted_generations s tid \<noteq> None then 1 else 0),
        attribute_key_cap_hit := cap_hit_count ki'\<rparr>"
    and res: "insert_span_no_evict s tid span now =
       Some (s\<lparr>s_traces := AList.update tid t' (s_traces s), s_key_interner := ki',
               s_service_interner := si', s_evicted_generations := evicted, s_counters := c\<rparr>,
             \<lparr>so_local_idx = local_idx o', so_is_duplicate = is_duplicate o',
              so_resurrected = (trace s tid = None \<and> s_evicted_generations s tid \<noteq> None)\<rparr>)"
    by (rule insert_span_no_evict_result [where tid = tid and now = now])
  have wf: "trace_wf t" and room': "attr_count t + length (ns_attributes (span\<lparr>ns_service_name := None\<rparr>)) < 2 ^ 32"
    using ok room by (auto simp: trace_ok_def)
  note dup = is_duplicate_iff [OF wf store_invD(3) [OF inv] room' ti]
    and ids = trace_insert_refs(4) [OF wf store_invD(3) [OF inv] room' ti]
    and ev = entry_or_insert_evicted [OF inv e] and et = entry_or_insert_trace [OF e]
  have s': "s' = s\<lparr>s_traces := AList.update tid t' (s_traces s), s_key_interner := ki',
               s_service_interner := si', s_evicted_generations := evicted, s_counters := c\<rparr>"
    and out: "out = \<lparr>so_local_idx = local_idx o', so_is_duplicate = is_duplicate o',
              so_resurrected = (trace s tid = None \<and> s_evicted_generations s tid \<noteq> None)\<rparr>"
    using res ins by auto
  from dup ids et show "\<exists>t'. trace s' = (trace s)(tid \<mapsto> t') \<and> t_last_activity t' = now
       \<and> t_generation t' = next_generation s tid
       \<and> t_span_ids t' = (if ns_span_id span \<in> set (resident_ids s tid) then resident_ids s tid
                           else resident_ids s tid @ [ns_span_id span])"
    unfolding s' trace_update by (intro exI [of _ t']) simp
  show "so_is_duplicate out \<longleftrightarrow> ns_span_id span \<in> set (resident_ids s tid)"
    using dup(1) et(1) by (simp add: out)
  show "so_resurrected out \<longleftrightarrow> trace s tid = None \<and> s_evicted_generations s tid \<noteq> None"
    and "s_evicted_generations s' = (s_evicted_generations s)(tid := None)"
    and "s_counters s' = (s_counters s)\<lparr>
        duplicate_span := duplicate_span (s_counters s) + (if so_is_duplicate out then 1 else 0),
        late_span_after_eviction := late_span_after_eviction (s_counters s) + (if so_resurrected out then 1 else 0),
        attribute_key_cap_hit := cap_hit_count (s_key_interner s')\<rparr>"
    and "s_max_memory_bytes s' = s_max_memory_bytes s"
    by (simp_all add: s' out ev c)
qed

text \<open>
  C6. Eviction.  On any store satisfying the invariant and for any hash iteration order,
  \<open>evict_over_budget\<close> terminates without a panic, within the budget or with a single trace left;
  it drops only traces whose last activity is not after that of any survivor, survivors are
  untouched, each dropped trace's generation is remembered, the counter grows by the number
  dropped, nothing happens under budget, a store with traces is never emptied, and it never drops
  more than needed: with the last dropped trace the store was over budget.
\<close>
theorem evict_over_budget_correct:
  assumes "iterates ord" "store_inv n s"
  shows "\<exists>s'. evict_over_budget ord s = Some s' \<and> store_inv n s'
    \<and> (store_bytes s' \<le> s_max_memory_bytes s \<or> trace_count s' \<le> 1)
    \<and> (store_bytes s \<le> s_max_memory_bytes s \<longrightarrow> s' = s)
    \<and> (s_traces s \<noteq> [] \<longrightarrow> s_traces s' \<noteq> [])
    \<and> (s' \<noteq> s \<longrightarrow> (\<exists>k u. trace s k = Some u \<and> trace s' k = None
         \<and> s_max_memory_bytes s < store_bytes s' + trace_bytes u))
    \<and> (\<forall>k. trace s' k = None \<or> trace s' k = trace s k)
    \<and> (\<forall>k u k' u'. trace s k = Some u \<and> trace s' k = None \<and> trace s' k' = Some u'
          \<longrightarrow> t_last_activity u \<le> t_last_activity u')
    \<and> (\<forall>k u. trace s k = Some u \<and> trace s' k = None
          \<longrightarrow> s_evicted_generations s' k = Some (t_generation u))
    \<and> evicted_traces (s_counters s') = evicted_traces (s_counters s) + of_nat (trace_count s - trace_count s')"
proof -
  from evict_over_budget_sweep [OF assms] obtain s' where
    s': "evict_over_budget ord s = Some s'" "store_inv n s'" "sweep_of s s'"
      "store_bytes s' \<le> s_max_memory_bytes s \<or> trace_count s' \<le> 1"
      "store_bytes s \<le> s_max_memory_bytes s \<longrightarrow> s' = s" "s_traces s \<noteq> [] \<longrightarrow> s_traces s' \<noteq> []"
      "s' \<noteq> s \<longrightarrow> (\<exists>k u. trace s k = Some u \<and> trace s' k = None
         \<and> s_max_memory_bytes s < store_bytes s' + trace_bytes u)" by blast
  from s'(3) have "\<forall>k u. trace s k = Some u \<and> trace s' k = None
          \<longrightarrow> s_evicted_generations s' k = Some (t_generation u)" by (simp add: sweep_of_def)
  with s' show ?thesis unfolding sweep_of_def by (intro exI [of _ s'] conjI) (blast | simp)+
qed

lemma iterates_id: "iterates id" by (simp add: iterates_def)
lemma iterates_rev: "iterates rev" by (simp add: iterates_def)

text \<open>Two traces of one span each, the first less recently active, in a store without any budget.\<close>
lemma sample_two_traces:
  obtains s t1 t2 where "store_inv 0 s" "s_max_memory_bytes s = 0"
    "trace s (TraceId (replicate 16 1)) = Some t1" "t_last_activity t1 = 1" "span_count t1 = 1"
    "trace s (TraceId (replicate 16 2)) = Some t2" "t_last_activity t2 = 2" "span_count t2 = 1"
proof -
  let ?a = "TraceId (replicate 16 1)" and ?b = "TraceId (replicate 16 2)" and ?span = "sample_span 1 None []"
  have room: "0 + length (ns_attributes ?span) < 2 ^ 32" by simp
  have empty: "resident_ids (store_new 0) k = []" for k by (simp add: resident_ids_def store_new_def trace_def)
  from insert_span_no_evict_inv [OF store_inv_new [of 0 0] room] obtain s1 o1 where
    s1: "insert_span_no_evict (store_new 0) ?a ?span 1 = Some (s1, o1)" "store_inv 0 s1" by force
  from insert_effect(1,6) [OF store_inv_new room s1(1)] obtain t1 where
    t1: "trace s1 = (trace (store_new 0))(?a \<mapsto> t1)" "t_last_activity t1 = 1" "length (t_span_ids t1) = 1"
      "s_max_memory_bytes s1 = s_max_memory_bytes (store_new 0)" by (auto simp: empty)
  from insert_span_no_evict_inv [OF s1(2) room] obtain s2 o2 where
    s2: "insert_span_no_evict s1 ?b ?span 2 = Some (s2, o2)" "store_inv 0 s2" by force
  have "resident_ids s1 ?b = []" by (simp add: resident_ids_def t1(1) store_new_def trace_def)
  with insert_effect(1,6) [OF s1(2) room s2(1)] obtain t2 where
    t2: "trace s2 = (trace s1)(?b \<mapsto> t2)" "t_last_activity t2 = 2" "length (t_span_ids t2) = 1"
      "s_max_memory_bytes s2 = s_max_memory_bytes s1" by auto
  show thesis by (rule that [of s2 t1 t2]) (use s2(2) t1 t2 in \<open>simp_all add: span_count_def store_new_def\<close>)
qed

theorem evict_over_budget_correct_witness:
  "\<exists>s s'. store_inv 0 s \<and> trace s (TraceId (replicate 16 1)) \<noteq> None \<and> trace s (TraceId (replicate 16 2)) \<noteq> None
     \<and> evict_over_budget rev s = Some s'
     \<and> trace s' (TraceId (replicate 16 1)) = None \<and> s_evicted_generations s' (TraceId (replicate 16 1)) \<noteq> None"
proof -
  let ?a = "TraceId (replicate 16 1)" and ?b = "TraceId (replicate 16 2)"
  obtain s t1 t2 where s: "store_inv 0 s" "s_max_memory_bytes s = 0"
    "trace s ?a = Some t1" "t_last_activity t1 = 1" "span_count t1 = 1"
    "trace s ?b = Some t2" "t_last_activity t2 = 2" "span_count t2 = 1" by (rule sample_two_traces)
  from evict_over_budget_correct [OF iterates_rev s(1)] obtain s' where
    s': "evict_over_budget rev s = Some s'" "store_bytes s' \<le> s_max_memory_bytes s \<or> trace_count s' \<le> 1"
      "\<forall>k. trace s' k = None \<or> trace s' k = trace s k"
      "\<forall>k u k' u'. trace s k = Some u \<and> trace s' k = None \<and> trace s' k' = Some u'
          \<longrightarrow> t_last_activity u \<le> t_last_activity u'"
      "\<forall>k u. trace s k = Some u \<and> trace s' k = None \<longrightarrow> s_evicted_generations s' k = Some (t_generation u)"
    by blast
  have "trace s' ?a = None"
  proof (rule ccontr)
    assume "trace s' ?a \<noteq> None"
    with s'(3) s(3) have a: "trace s' ?a = Some t1" by metis
    have b: "trace s' ?b = Some t2"
    proof (rule ccontr)
      assume "trace s' ?b \<noteq> Some t2"
      with s'(3) s(6) have "trace s' ?b = None" by metis
      with s'(4) s(6) a have "t_last_activity t2 \<le> t_last_activity t1" by blast
      with s(4,7) show False by (simp add: word_le_nat_alt)
    qed
    have "trace_bytes t1 \<le> store_bytes s'"
      unfolding store_bytes_def using trace_SomeD [OF a] by (intro member_le_sum_list) (force simp: image_iff, simp)
    then have "\<not> store_bytes s' \<le> s_max_memory_bytes s"
      using s(2,5) by (simp add: trace_bytes_def APPROX_SPAN_FIXED_BYTES_def)
    with s'(2) have "length (s_traces s') \<le> Suc 0" by (simp add: trace_count_def)
    with trace_SomeD [OF a] trace_SomeD [OF b] show False by (cases "s_traces s'") auto
  qed
  with s s' show ?thesis by (intro exI [of _ s] exI [of _ s']) auto
qed

text \<open>
  C20. Insertion into the store: a trace already resident keeps its generation, a trace that was
  evicted comes back one generation later, is reported as resurrected and counted once as a late
  span, any other trace starts at generation 0; the span is a duplicate exactly when its id is
  already resident in that trace, then the span list is unchanged and the duplicate counter goes
  up, otherwise the span is appended; no other trace changes.
\<close>
theorem insert_span_no_evict_effect:
  assumes "store_inv n s" "n + length (ns_attributes span) < 2 ^ 32"
    and "insert_span_no_evict s tid span now = Some (s', out)"
  shows "\<exists>t'. trace s' = (trace s)(tid \<mapsto> t') \<and> t_last_activity t' = now
    \<and> t_generation t' = (case trace s tid of Some t \<Rightarrow> t_generation t
        | None \<Rightarrow> (case s_evicted_generations s tid of Some g \<Rightarrow> g + 1 | None \<Rightarrow> 0))
    \<and> so_resurrected out = (trace s tid = None \<and> s_evicted_generations s tid \<noteq> None)
    \<and> so_is_duplicate out = (ns_span_id span \<in> set (resident_ids s tid))
    \<and> t_span_ids t' = (if so_is_duplicate out then resident_ids s tid else resident_ids s tid @ [ns_span_id span])
    \<and> duplicate_span (s_counters s') = duplicate_span (s_counters s) + (if so_is_duplicate out then 1 else 0)
    \<and> late_span_after_eviction (s_counters s')
        = late_span_after_eviction (s_counters s) + (if so_resurrected out then 1 else 0)
    \<and> s_evicted_generations s' tid = None"
  using insert_effect [OF assms] by (auto simp: next_generation_def)

lemma insert_new_store:
  "length (ns_attributes span) < 2 ^ 32 \<Longrightarrow>
   \<exists>s' out. insert_span_no_evict (store_new b) tid span now = Some (s', out) \<and> store_inv (length (ns_attributes span)) s'"
  using insert_span_no_evict_inv [OF store_inv_new [of 0 b], of span tid now] by simp

theorem insert_span_no_evict_effect_witness:
  "\<exists>s' out t'. insert_span_no_evict (store_new 80) sample_trace_id (sample_span 1 None []) 7 = Some (s', out)
     \<and> trace s' sample_trace_id = Some t' \<and> t_generation t' = 0 \<and> t_last_activity t' = 7 \<and> \<not> so_resurrected out"
proof -
  have "length (ns_attributes (sample_span 1 None [])) < 2 ^ 32" by simp
  from insert_new_store [OF this] obtain s' out where
    e: "insert_span_no_evict (store_new 80) sample_trace_id (sample_span 1 None []) 7 = Some (s', out)" by blast
  from insert_span_no_evict_effect [OF store_inv_new [of 0 80] _ e] obtain t' where
    "trace s' = (trace (store_new 80))(sample_trace_id \<mapsto> t')" "t_last_activity t' = 7" "t_generation t' = 0"
    "\<not> so_resurrected out" by (auto simp: store_new_def trace_def)
  with e show ?thesis by auto
qed

text \<open>
  C21. A trace still receiving spans survives: when every other resident trace was last active
  strictly before the insertion's clock reading, the trace that \<open>insert_span\<close> wrote is resident
  afterwards, whatever the budget and the iteration order, and the store keeps its invariant.
\<close>
theorem active_trace_survives:
  assumes "iterates ord" "store_inv n s" "n + length (ns_attributes span) < 2 ^ 32"
    and "\<And>k u. trace s k = Some u \<Longrightarrow> k \<noteq> tid \<Longrightarrow> t_last_activity u < now"
  shows "\<exists>s' out t'. insert_span ord s tid span now = Some (s', out)
    \<and> trace s' tid = Some t' \<and> ns_span_id span \<in> set (t_span_ids t')
    \<and> store_inv (n + length (ns_attributes span)) s'"
proof -
  from insert_span_no_evict_inv [OF assms(2,3)] obtain s1 out where
    i: "insert_span_no_evict s tid span now = Some (s1, out)" "store_inv (n + length (ns_attributes span)) s1" by blast
  from insert_effect(1) [OF assms(2,3) i(1)] obtain t' where
    t': "trace s1 = (trace s)(tid \<mapsto> t')" "t_last_activity t' = now" "ns_span_id span \<in> set (t_span_ids t')"
    by (auto split: if_splits)
  from evict_over_budget_sweep [OF assms(1) i(2)] obtain s2 where
    s2: "evict_over_budget ord s1 = Some s2" "store_inv (n + length (ns_attributes span)) s2" "sweep_of s1 s2"
      "s_traces s1 \<noteq> [] \<longrightarrow> s_traces s2 \<noteq> []" by blast
  have "trace s1 tid = Some t'" by (simp add: t'(1))
  then have "s_traces s1 \<noteq> []" by (auto simp: trace_def)
  with s2(4) obtain k u where "(k, u) \<in> set (s_traces s2)" by (cases "s_traces s2") auto
  then have k: "trace s2 k = Some u" using store_invD(1) [OF s2(2)] by (simp add: trace_def)
  have sub: "trace s2 j = None \<or> trace s2 j = trace s1 j" for j using s2(3) by (simp add: sweep_of_def)
  have "trace s2 tid = Some t'"
  proof (rule ccontr)
    assume "\<not> ?thesis"
    with sub [of tid] t'(1) have gone: "trace s2 tid = None" by simp
    with k have "k \<noteq> tid" by auto
    with k sub [of k] t'(1) have "trace s k = Some u" by simp
    with assms(4) \<open>k \<noteq> tid\<close> have "t_last_activity u < now" by blast
    moreover have "now \<le> t_last_activity u"
      using s2(3) gone k \<open>trace s1 tid = Some t'\<close> t'(2) unfolding sweep_of_def by metis
    ultimately show False by simp
  qed
  with i s2 t' show ?thesis by (auto simp: insert_span_def)
qed

theorem active_trace_survives_witness:
  "\<exists>s' out t'. insert_span rev (store_new 0) sample_trace_id (sample_span 1 None []) 7 = Some (s', out)
     \<and> trace s' sample_trace_id = Some t'"
  using active_trace_survives [OF iterates_rev store_inv_new [of 0 0], of "sample_span 1 None []" sample_trace_id 7]
  by (auto simp: store_new_def trace_def)

end
