(* ===== verification/Writer.thy ===== *)
theory Writer
  imports Store Convert
begin

text \<open>
  \<open>src/store/writer.rs\<close>: the single task that owns all store mutation.  It receives batches one at
  a time, inserts every span of a batch at one clock reading, counts the malformed ones, sweeps
  once and bumps the sequence number that \<open>/api/events\<close> streams.

  A run of the task is the fold of its loop body over the batches received, each with the clock
  reading and the hash iteration order of that moment.  The loop body holds the store's write lock
  throughout, so it is one atomic step.
\<close>

section \<open>The writer task\<close>

record writer_state =
  w_store :: store
  w_seq :: u64

definition writer_now_unix_nano :: "nat option \<Rightarrow> u64" where
  "writer_now_unix_nano clock = (case clock of Some nanos \<Rightarrow> of_nat nanos | None \<Rightarrow> 0)"

text \<open>The \<open>for\<close> loop over the spans of a batch; the outcomes are not used.\<close>
definition insert_all :: "u64 \<Rightarrow> store \<Rightarrow> (trace_id \<times> new_span) list \<Rightarrow> store panics" where
  "insert_all now s xs =
    foldO (\<lambda>s x. map_option fst (insert_span_no_evict s (fst x) (snd x) now)) s xs"

definition count_malformed :: "store \<Rightarrow> u64 \<Rightarrow> store" where
  "count_malformed s malformed =
    s\<lparr>s_counters := (s_counters s)\<lparr>malformed_span := malformed_span (s_counters s) + malformed\<rparr>\<rparr>"

text \<open>The body of the \<open>while\<close> loop of \<open>run\<close>.\<close>
definition apply_batch :: "hash_order \<Rightarrow> nat option \<Rightarrow> writer_state \<Rightarrow> span_batch \<Rightarrow> writer_state panics" where
  "apply_batch ord clock w batch =
    (let now = writer_now_unix_nano clock;
         malformed = of_nat (sb_malformed_span_count batch)
     in do { s \<leftarrow> insert_all now (w_store w) (sb_spans batch);
             s' \<leftarrow> evict_over_budget ord (count_malformed s malformed);
             Some (w\<lparr>w_store := s', w_seq := w_seq w + 1\<rparr>) })"

type_synonym arrival = "hash_order \<times> nat option \<times> span_batch"

definition run :: "writer_state \<Rightarrow> arrival list \<Rightarrow> writer_state panics" where
  "run w arrivals = foldO (\<lambda>w (ord, clock, batch). apply_batch ord clock w batch) w arrivals"

definition spawn_writer :: "store \<Rightarrow> writer_state" where
  "spawn_writer s = \<lparr>w_store = s, w_seq = 0\<rparr>"

section \<open>The contract between the writer and a store\<close>

text \<open>
  The writer needs a store whose insertions succeed while there is room (here: \<open>cost\<close> units, of
  which less than \<open>limit\<close> may be used) and whose sweep always ends.
\<close>
locale batch_sink =
  fixes ok :: "nat \<Rightarrow> 's \<Rightarrow> bool"
    and put :: "u64 \<Rightarrow> 's \<Rightarrow> 'e \<Rightarrow> 's panics"
    and cost :: "'e \<Rightarrow> nat"
    and limit :: nat
    and note_bad :: "'s \<Rightarrow> u64 \<Rightarrow> 's"
    and sweep :: "'o \<Rightarrow> 's \<Rightarrow> 's panics"
    and fair :: "'o \<Rightarrow> bool"
  assumes put_ok: "ok n s \<Longrightarrow> n + cost e < limit \<Longrightarrow> \<exists>s'. put now s e = Some s' \<and> ok (n + cost e) s'"
    and note_bad_ok: "ok n s \<Longrightarrow> ok n (note_bad s m)"
    and sweep_ok: "fair ord \<Longrightarrow> ok n s \<Longrightarrow> \<exists>s'. sweep ord s = Some s' \<and> ok n s'"
begin

lemma put_all_ok:
  "ok n s \<Longrightarrow> n + sum_list (map cost es) < limit \<Longrightarrow>
   \<exists>s'. foldO (put now) s es = Some s' \<and> ok (n + sum_list (map cost es)) s'"
proof (induction es arbitrary: n s)
  case (Cons e es)
  from Cons.prems obtain s1 where s1: "put now s e = Some s1" "ok (n + cost e) s1"
    using put_ok [of n s e now] by auto
  from Cons.IH [OF s1(2)] Cons.prems(2) s1(1) show ?case by (simp add: add.assoc)
qed simp

lemma batch_ok:
  assumes "fair ord" "ok n s" "n + sum_list (map cost es) < limit"
  shows "\<exists>s1 s2. foldO (put now) s es = Some s1 \<and> sweep ord (note_bad s1 m) = Some s2
    \<and> ok (n + sum_list (map cost es)) s1 \<and> ok (n + sum_list (map cost es)) s2"
  using put_all_ok [OF assms(2,3)] note_bad_ok sweep_ok [OF assms(1)] by metis

end

text \<open>Attribute pairs of a batch: what may use up the \<open>u32\<close> offsets of a trace.\<close>
definition batch_attrs :: "span_batch \<Rightarrow> nat" where
  "batch_attrs b = sum_list (map (\<lambda>x. length (ns_attributes (snd x))) (sb_spans b))"

lemma store_inv_count_malformed: "store_inv n s \<Longrightarrow> store_inv n (count_malformed s m)"
  by (simp add: store_inv_def count_malformed_def)

interpretation sink: batch_sink store_inv
    "\<lambda>now s x. map_option fst (insert_span_no_evict s (fst x) (snd x) now)"
    "\<lambda>x. length (ns_attributes (snd x))" "2 ^ 32" count_malformed evict_over_budget iterates
proof unfold_locales
  fix n s now and x :: "trace_id \<times> new_span"
  assume "store_inv n s" "n + length (ns_attributes (snd x)) < 2 ^ 32"
  from insert_span_no_evict_inv [OF this, of "fst x" now]
  show "\<exists>s'. map_option fst (insert_span_no_evict s (fst x) (snd x) now) = Some s'
      \<and> store_inv (n + length (ns_attributes (snd x))) s'" by auto
next
  fix ord n s
  assume "iterates ord" "store_inv n s"
  then show "\<exists>s'. evict_over_budget ord s = Some s' \<and> store_inv n s'"
    using evict_over_budget_sweep by blast
qed (fact store_inv_count_malformed)

lemma apply_batch_ok:
  assumes "iterates ord" "store_inv n (w_store w)" "n + batch_attrs b < 2 ^ 32"
  obtains s1 s2 where
    "insert_all (writer_now_unix_nano clock) (w_store w) (sb_spans b) = Some s1"
    "store_inv (n + batch_attrs b) s1"
    "evict_over_budget ord (count_malformed s1 (of_nat (sb_malformed_span_count b))) = Some s2"
    "store_inv (n + batch_attrs b) s2"
    "apply_batch ord clock w b = Some (w\<lparr>w_store := s2, w_seq := w_seq w + 1\<rparr>)"
proof -
  from sink.batch_ok [OF assms(1,2), of "sb_spans b" "writer_now_unix_nano clock" "of_nat (sb_malformed_span_count b)"]
    assms(3) obtain s1 s2 where
    "insert_all (writer_now_unix_nano clock) (w_store w) (sb_spans b) = Some s1"
    "evict_over_budget ord (count_malformed s1 (of_nat (sb_malformed_span_count b))) = Some s2"
    "store_inv (n + batch_attrs b) s1" "store_inv (n + batch_attrs b) s2"
    by (auto simp: batch_attrs_def insert_all_def)
  then show thesis by (intro that) (simp_all add: apply_batch_def)
qed

section \<open>Abstract specification: which spans are resident\<close>

text \<open>A batch seen abstractly: a sequence of trace id and span id; the store: the span ids of each
  trace, in arrival order and without repetition.\<close>
type_synonym residents = "trace_id \<Rightarrow> span_id list"

definition abs_put :: "residents \<Rightarrow> trace_id \<times> span_id \<Rightarrow> residents" where
  "abs_put m x = (if snd x \<in> set (m (fst x)) then m else m(fst x := m (fst x) @ [snd x]))"

primrec abs_dups :: "residents \<Rightarrow> (trace_id \<times> span_id) list \<Rightarrow> nat" where
  "abs_dups m [] = 0"
| "abs_dups m (x # xs) = (if snd x \<in> set (m (fst x)) then 1 else 0) + abs_dups (abs_put m x) xs"

definition keys_of :: "(trace_id \<times> new_span) list \<Rightarrow> (trace_id \<times> span_id) list" where
  "keys_of xs = map (\<lambda>x. (fst x, ns_span_id (snd x))) xs"

lemma abs_put_mono: "set (m t) \<subseteq> set (abs_put m x t)"
  by (auto simp: abs_put_def)

lemma abs_puts_mono: "set (m t) \<subseteq> set (foldl abs_put m xs t)"
proof (induction xs arbitrary: m)
  case (Cons x xs)
  then show ?case using abs_put_mono [of m t x] by fastforce
qed simp

lemma abs_puts_in: "x \<in> set xs \<Longrightarrow> snd x \<in> set (foldl abs_put m xs (fst x))"
proof (induction xs arbitrary: m)
  case (Cons y ys)
  show ?case
  proof (cases "x = y")
    case True
    have "snd y \<in> set (abs_put m y (fst y))" by (simp add: abs_put_def)
    with True abs_puts_mono [of "abs_put m y" "fst y" ys] show ?thesis by auto
  next
    case False
    with Cons show ?thesis by simp
  qed
qed simp

lemma abs_puts_from: "y \<in> set (foldl abs_put m xs t) \<Longrightarrow> y \<in> set (m t) \<or> (t, y) \<in> set xs"
proof (induction xs arbitrary: m)
  case (Cons x xs)
  from Cons.IH [OF Cons.prems [unfolded foldl_Cons]] show ?case
    by (auto simp: abs_put_def split: if_splits)
qed simp

lemma abs_puts_known:
  "(\<And>x. x \<in> set xs \<Longrightarrow> snd x \<in> set (m (fst x))) \<Longrightarrow>
   foldl abs_put m xs = m \<and> abs_dups m xs = length xs"
  by (induction xs) (simp_all add: abs_put_def)

lemma insert_refines:
  assumes "store_inv n s" "n + length (ns_attributes span) < 2 ^ 32"
    and "insert_span_no_evict s tid span now = Some (s', out)"
  shows "resident_ids s' = abs_put (resident_ids s) (tid, ns_span_id span)"
    and "duplicate_span (s_counters s')
      = duplicate_span (s_counters s) + of_nat (if ns_span_id span \<in> set (resident_ids s tid) then 1 else 0)"
    and "\<And>k. trace s' k \<noteq> None \<longleftrightarrow> trace s k \<noteq> None \<or> k = tid"
    and "\<And>k u. trace s' k = Some u \<Longrightarrow> if k = tid then t_last_activity u = now else trace s k = Some u"
    and "malformed_span (s_counters s') = malformed_span (s_counters s)"
    and "evicted_traces (s_counters s') = evicted_traces (s_counters s)"
    and "trace s tid \<noteq> None \<Longrightarrow> late_span_after_eviction (s_counters s') = late_span_after_eviction (s_counters s)"
proof -
  note ie = insert_effect [OF assms]
  from ie(1) obtain t' where t': "trace s' = (trace s)(tid \<mapsto> t')" "t_last_activity t' = now"
    "t_span_ids t' = (if ns_span_id span \<in> set (resident_ids s tid) then resident_ids s tid
                      else resident_ids s tid @ [ns_span_id span])" by blast
  then show "resident_ids s' = abs_put (resident_ids s) (tid, ns_span_id span)"
    by (auto simp: fun_eq_iff resident_ids_def abs_put_def)
  show "\<And>k. trace s' k \<noteq> None \<longleftrightarrow> trace s k \<noteq> None \<or> k = tid"
    and "\<And>k u. trace s' k = Some u \<Longrightarrow> if k = tid then t_last_activity u = now else trace s k = Some u"
    using t' by (auto split: if_splits)
  show "duplicate_span (s_counters s')
      = duplicate_span (s_counters s) + of_nat (if ns_span_id span \<in> set (resident_ids s tid) then 1 else 0)"
    and "malformed_span (s_counters s') = malformed_span (s_counters s)"
    and "evicted_traces (s_counters s') = evicted_traces (s_counters s)"
    and "trace s tid \<noteq> None \<Longrightarrow> late_span_after_eviction (s_counters s') = late_span_after_eviction (s_counters s)"
    using ie(2,3) by (simp_all add: ie(5))
qed

text \<open>What inserting all spans of a batch does, before the sweep.\<close>
definition batch_inserted :: "u64 \<Rightarrow> store \<Rightarrow> (trace_id \<times> new_span) list \<Rightarrow> store \<Rightarrow> bool" where
  "batch_inserted now s xs s' \<longleftrightarrow>
     resident_ids s' = foldl abs_put (resident_ids s) (keys_of xs)
     \<and> duplicate_span (s_counters s') = duplicate_span (s_counters s) + of_nat (abs_dups (resident_ids s) (keys_of xs))
     \<and> (\<forall>k. trace s' k \<noteq> None \<longleftrightarrow> trace s k \<noteq> None \<or> k \<in> fst ` set xs)
     \<and> (\<forall>k u. trace s' k = Some u \<longrightarrow> (if k \<in> fst ` set xs then t_last_activity u = now else trace s k = Some u))
     \<and> malformed_span (s_counters s') = malformed_span (s_counters s)
     \<and> evicted_traces (s_counters s') = evicted_traces (s_counters s)
     \<and> (fst ` set xs \<subseteq> dom (trace s) \<longrightarrow>
          late_span_after_eviction (s_counters s') = late_span_after_eviction (s_counters s))"

lemma batch_insertedD:
  assumes "batch_inserted now s xs s'"
  shows "resident_ids s' = foldl abs_put (resident_ids s) (keys_of xs)"
    and "duplicate_span (s_counters s') = duplicate_span (s_counters s) + of_nat (abs_dups (resident_ids s) (keys_of xs))"
    and "evicted_traces (s_counters s') = evicted_traces (s_counters s)"
    and "fst ` set xs \<subseteq> dom (trace s) \<Longrightarrow>
      late_span_after_eviction (s_counters s') = late_span_after_eviction (s_counters s)"
    and "malformed_span (s_counters s') = malformed_span (s_counters s)"
    and "trace s' k = Some u \<Longrightarrow> if k \<in> fst ` set xs then t_last_activity u = now else trace s k = Some u"
    and "trace s' k \<noteq> None \<longleftrightarrow> trace s k \<noteq> None \<or> k \<in> fst ` set xs"
  using assms by (simp_all add: batch_inserted_def)

lemma batch_inserted_lands:
  assumes "batch_inserted now s xs s'" "(tid, span) \<in> set xs"
  obtains t where "trace s' tid = Some t" "ns_span_id span \<in> set (t_span_ids t)"
proof -
  have "(tid, ns_span_id span) \<in> set (keys_of xs)" using assms(2) by (force simp: keys_of_def)
  from abs_puts_in [OF this, of "resident_ids s"] have "ns_span_id span \<in> set (resident_ids s' tid)"
    by (simp add: batch_insertedD(1) [OF assms(1)])
  then show thesis by (cases "trace s' tid") (auto simp: resident_ids_def intro: that)
qed

lemma sweep_ofD:
  assumes "sweep_of s s'"
  shows "trace s' k = Some u \<Longrightarrow> trace s k = Some u"
    and "s_counters s' = (s_counters s)\<lparr>evicted_traces := evicted_traces (s_counters s)
          + of_nat (trace_count s - trace_count s')\<rparr>"
    and "trace s k \<noteq> None \<Longrightarrow> trace s' k = None \<Longrightarrow> s_evicted_generations s' k \<noteq> None"
  using assms by (auto simp: sweep_of_def) (metis option.distinct(1))

lemma insert_all_inserted:
  assumes "store_inv n s" "n + sum_list (map (\<lambda>x. length (ns_attributes (snd x))) xs) < 2 ^ 32"
    and "insert_all now s xs = Some s'"
  shows "batch_inserted now s xs s'"
  using assms
proof (induction xs arbitrary: n s)
  case Nil
  then show ?case by (simp add: insert_all_def batch_inserted_def keys_of_def)
next
  case (Cons x xs)
  let ?span = "snd x" and ?tid = "fst x"
  have room: "n + length (ns_attributes ?span) < 2 ^ 32" using Cons.prems(2) by simp
  from insert_span_no_evict_inv [OF Cons.prems(1) room] obtain s1 out where
    i: "insert_span_no_evict s ?tid ?span now = Some (s1, out)" "store_inv (n + length (ns_attributes ?span)) s1"
    by blast
  have rest: "insert_all now s1 xs = Some s'" using Cons.prems(3) i(1) by (simp add: insert_all_def)
  have IH: "batch_inserted now s1 xs s'"
    by (rule Cons.IH [OF i(2) _ rest]) (use Cons.prems(2) in \<open>simp add: add.assoc\<close>)
  note r = insert_refines [OF Cons.prems(1) room i(1)]
  have dom: "fst ` set xs \<subseteq> dom (trace s1)" "trace s ?tid \<noteq> None" if "fst ` set (x # xs) \<subseteq> dom (trace s)"
    using that r(3) by (auto simp: dom_def)
  have touched: "if k \<in> fst ` set (x # xs) then t_last_activity u = now else trace s k = Some u"
    if "trace s' k = Some u" for k u
  proof (cases "k \<in> fst ` set xs")
    case True
    with batch_insertedD(6) [OF IH that] show ?thesis by simp
  next
    case False
    with batch_insertedD(6) [OF IH that] have "trace s1 k = Some u" by simp
    from r(4) [OF this] False show ?thesis by (cases "k = ?tid") simp_all
  qed
  have "\<forall>k. trace s' k \<noteq> None \<longleftrightarrow> trace s k \<noteq> None \<or> k \<in> fst ` set (x # xs)"
    using batch_insertedD(7) [OF IH] r(3) by simp
  moreover have "resident_ids s' = foldl abs_put (resident_ids s) (keys_of (x # xs))"
    using batch_insertedD(1) [OF IH] r(1) by (simp add: keys_of_def)
  moreover have "duplicate_span (s_counters s')
      = duplicate_span (s_counters s) + of_nat (abs_dups (resident_ids s) (keys_of (x # xs)))"
    using batch_insertedD(2) [OF IH] r(1,2) by (simp add: keys_of_def)
  moreover have "late_span_after_eviction (s_counters s') = late_span_after_eviction (s_counters s)"
    if "fst ` set (x # xs) \<subseteq> dom (trace s)"
    using batch_insertedD(4) [OF IH] r(7) dom [OF that] by simp
  ultimately show ?case
    using touched batch_insertedD(3,5) [OF IH] r(5,6) unfolding batch_inserted_def by metis
qed

section \<open>One batch, then a run\<close>

lemma count_malformed_sel [simp]:
  "trace (count_malformed s m) = trace s" "resident_ids (count_malformed s m) = resident_ids s"
  "s_max_memory_bytes (count_malformed s m) = s_max_memory_bytes s"
  "trace_count (count_malformed s m) = trace_count s" "s_traces (count_malformed s m) = s_traces s"
  "s_evicted_generations (count_malformed s m) = s_evicted_generations s"
  "s_counters (count_malformed s m) = (s_counters s)\<lparr>malformed_span := malformed_span (s_counters s) + m\<rparr>"
  by (simp_all add: count_malformed_def trace_def resident_ids_def trace_count_def fun_eq_iff)

lemma insert_all_budget:
  assumes "store_inv n s" "n + sum_list (map (\<lambda>x. length (ns_attributes (snd x))) xs) < 2 ^ 32"
    and "insert_all now s xs = Some s'"
  shows "s_max_memory_bytes s' = s_max_memory_bytes s"
  using assms
proof (induction xs arbitrary: n s)
  case (Cons x xs)
  from Cons.prems insert_span_no_evict_inv [OF Cons.prems(1), of "snd x" "fst x" now] obtain u out where
    u: "insert_span_no_evict s (fst x) (snd x) now = Some (u, out)" "store_inv (n + length (ns_attributes (snd x))) u"
    by auto
  moreover have "s_max_memory_bytes u = s_max_memory_bytes s"
    using insert_effect(6) [OF Cons.prems(1) _ u(1)] Cons.prems(2) by simp
  ultimately show ?case
    using Cons.IH [OF u(2)] Cons.prems(2,3) by (simp add: insert_all_def add.assoc)
qed (simp add: insert_all_def)

text \<open>The batch is inserted, then a sweep follows; \<open>s1\<close> is the store in between.\<close>
lemma apply_batch_effect:
  assumes "iterates ord" "store_inv n (w_store w)" "n + batch_attrs b < 2 ^ 32"
  obtains s1 w' where
    "apply_batch ord clock w b = Some w'" "w_seq w' = w_seq w + 1"
    "batch_inserted (writer_now_unix_nano clock) (w_store w) (sb_spans b) s1"
    "store_inv (n + batch_attrs b) s1" "store_inv (n + batch_attrs b) (w_store w')"
    "sweep_of (count_malformed s1 (of_nat (sb_malformed_span_count b))) (w_store w')"
    "store_bytes (w_store w') \<le> s_max_memory_bytes s1 \<or> trace_count (w_store w') \<le> 1"
    "s_traces s1 \<noteq> [] \<longrightarrow> s_traces (w_store w') \<noteq> []"
    "store_bytes s1 \<le> s_max_memory_bytes s1 \<longrightarrow> trace (w_store w') = trace s1"
    "s_max_memory_bytes s1 = s_max_memory_bytes (w_store w)"
proof -
  from assms obtain s1 s2 where
    i: "insert_all (writer_now_unix_nano clock) (w_store w) (sb_spans b) = Some s1"
    and inv1: "store_inv (n + batch_attrs b) s1"
    and e: "evict_over_budget ord (count_malformed s1 (of_nat (sb_malformed_span_count b))) = Some s2"
    and inv2: "store_inv (n + batch_attrs b) s2"
    and a: "apply_batch ord clock w b = Some (w\<lparr>w_store := s2, w_seq := w_seq w + 1\<rparr>)"
    by (rule apply_batch_ok)
  let ?c = "count_malformed s1 (of_nat (sb_malformed_span_count b))"
  have ins: "batch_inserted (writer_now_unix_nano clock) (w_store w) (sb_spans b) s1"
    using insert_all_inserted [OF assms(2) _ i] assms(3) by (simp add: batch_attrs_def)
  have "s_max_memory_bytes s1 = s_max_memory_bytes (w_store w)"
    using insert_all_budget [OF assms(2) _ i] assms(3) by (simp add: batch_attrs_def)
  moreover have bytes: "store_bytes ?c = store_bytes s1" by (simp add: store_bytes_def)
  moreover from evict_over_budget_sweep [OF assms(1) store_inv_count_malformed
      [OF inv1, of "of_nat (sb_malformed_span_count b)"]] e
  have "sweep_of ?c s2" "store_bytes s2 \<le> s_max_memory_bytes s1 \<or> trace_count s2 \<le> 1"
    "s_traces s1 \<noteq> [] \<longrightarrow> s_traces s2 \<noteq> []" "store_bytes ?c \<le> s_max_memory_bytes s1 \<longrightarrow> s2 = ?c" by auto
  ultimately show thesis
    using ins inv1 inv2 a by (intro that [of "w\<lparr>w_store := s2, w_seq := w_seq w + 1\<rparr>" s1]) auto
qed

text \<open>The type invariants of \<open>TraceId\<close> and \<open>SpanId\<close>, on a span to insert and on a store.\<close>
definition span_ids_wf :: "trace_id \<times> new_span \<Rightarrow> bool" where
  "span_ids_wf x \<longleftrightarrow> trace_id_wf (fst x) \<and> span_id_wf (ns_span_id (snd x))
     \<and> (\<forall>p. ns_parent_span_id (snd x) = Some p \<longrightarrow> span_id_wf p)"

definition store_ids_wf :: "store \<Rightarrow> bool" where
  "store_ids_wf s \<longleftrightarrow>
     (\<forall>tid t. trace s tid = Some t \<longrightarrow> trace_id_wf tid \<and> (\<forall>sid \<in> set (t_span_ids t). span_id_wf sid))"

lemma store_ids_wf_put:
  assumes "store_ids_wf s" "\<forall>x \<in> set xs. span_ids_wf x"
    and "resident_ids s' = foldl abs_put (resident_ids s) (keys_of xs)"
    and "\<forall>k. trace s' k \<noteq> None \<longleftrightarrow> trace s k \<noteq> None \<or> k \<in> fst ` set xs"
  shows "store_ids_wf s'"
  unfolding store_ids_wf_def
proof (intro allI impI conjI ballI)
  fix tid t
  assume t: "trace s' tid = Some t"
  with assms(4) have "trace s tid \<noteq> None \<or> tid \<in> fst ` set xs" by blast
  with assms(1,2) show "trace_id_wf tid" by (auto simp: store_ids_wf_def span_ids_wf_def)
  fix sid
  assume "sid \<in> set (t_span_ids t)"
  then have "sid \<in> set (foldl abs_put (resident_ids s) (keys_of xs) tid)"
    using t by (simp add: resident_ids_def flip: assms(3))
  from abs_puts_from [OF this] show "span_id_wf sid"
    using assms(1,2)
    by (cases "trace s tid") (auto simp: resident_ids_def keys_of_def store_ids_wf_def span_ids_wf_def)
qed

lemma store_ids_wf_sweep: "sweep_of s s' \<Longrightarrow> store_ids_wf s \<Longrightarrow> store_ids_wf s'"
  unfolding store_ids_wf_def using sweep_ofD(1) by blast

lemma apply_batch_ids_wf:
  assumes "iterates ord" "store_inv n (w_store w)" "n + batch_attrs b < 2 ^ 32" "apply_batch ord clock w b = Some w'"
    and "store_ids_wf (w_store w)" "\<forall>x \<in> set (sb_spans b). span_ids_wf x"
  shows "store_ids_wf (w_store w')"
proof -
  from assms(1-3) obtain s1 w1 where w1: "apply_batch ord clock w b = Some w1"
    "batch_inserted (writer_now_unix_nano clock) (w_store w) (sb_spans b) s1"
    "sweep_of (count_malformed s1 (of_nat (sb_malformed_span_count b))) (w_store w1)"
    by (rule apply_batch_effect)
  have "store_ids_wf s1"
    using store_ids_wf_put [OF assms(5,6)] w1(2) by (simp add: batch_inserted_def)
  then have "store_ids_wf (count_malformed s1 (of_nat (sb_malformed_span_count b)))" by (simp add: store_ids_wf_def)
  from store_ids_wf_sweep [OF w1(3) this] w1(1) assms(4) show ?thesis by simp
qed

lemma apply_batch_budget:
  assumes "iterates ord" "store_inv n (w_store w)" "n + batch_attrs b < 2 ^ 32" "apply_batch ord clock w b = Some w'"
  shows "s_max_memory_bytes (w_store w') = s_max_memory_bytes (w_store w)"
proof -
  from assms(1-3) obtain s1 w1 where "apply_batch ord clock w b = Some w1"
    "sweep_of (count_malformed s1 (of_nat (sb_malformed_span_count b))) (w_store w1)"
    "s_max_memory_bytes s1 = s_max_memory_bytes (w_store w)"
    by (rule apply_batch_effect)
  with assms(4) show ?thesis by (simp add: sweep_of_def)
qed

definition arrival_attrs :: "arrival list \<Rightarrow> nat" where
  "arrival_attrs as = sum_list (map (\<lambda>(_, _, b). batch_attrs b) as)"

definition arrival_malformed :: "arrival list \<Rightarrow> nat" where
  "arrival_malformed as = sum_list (map (\<lambda>(_, _, b). sb_malformed_span_count b) as)"

definition within_budget :: "store \<Rightarrow> bool" where
  "within_budget s \<longleftrightarrow> store_bytes s \<le> s_max_memory_bytes s \<or> trace_count s \<le> 1"

lemma run_ok:
  assumes "\<forall>(ord, _, _) \<in> set as. iterates ord" "store_inv n (w_store w)" "n + arrival_attrs as < 2 ^ 32"
    and "within_budget (w_store w)"
  shows "\<exists>w'. run w as = Some w' \<and> store_inv (n + arrival_attrs as) (w_store w') \<and> within_budget (w_store w')
    \<and> s_max_memory_bytes (w_store w') = s_max_memory_bytes (w_store w)
    \<and> w_seq w' = w_seq w + of_nat (length as)
    \<and> malformed_span (s_counters (w_store w'))
        = malformed_span (s_counters (w_store w)) + of_nat (arrival_malformed as)"
  using assms
proof (induction as arbitrary: n w)
  case Nil
  then show ?case by (simp add: run_def arrival_attrs_def arrival_malformed_def)
next
  case (Cons a as)
  obtain ord clock b where a: "a = (ord, clock, b)" by (cases a) auto
  from Cons.prems(1,3) have ord: "iterates ord" and room: "n + batch_attrs b < 2 ^ 32"
    by (simp_all add: a arrival_attrs_def)
  from ord Cons.prems(2) room obtain s1 w1 where
    ap: "apply_batch ord clock w b = Some w1" "w_seq w1 = w_seq w + 1"
    and ins: "batch_inserted (writer_now_unix_nano clock) (w_store w) (sb_spans b) s1"
    and inv: "store_inv (n + batch_attrs b) (w_store w1)"
    and sw: "sweep_of (count_malformed s1 (of_nat (sb_malformed_span_count b))) (w_store w1)"
    and bud: "store_bytes (w_store w1) \<le> s_max_memory_bytes s1 \<or> trace_count (w_store w1) \<le> 1"
      "s_max_memory_bytes s1 = s_max_memory_bytes (w_store w)"
    by (rule apply_batch_effect [where clock = clock])
  have m: "malformed_span (s_counters (w_store w1))
      = malformed_span (s_counters (w_store w)) + of_nat (sb_malformed_span_count b)"
    using sw ins by (simp add: sweep_of_def batch_inserted_def count_malformed_def)
  have b1: "s_max_memory_bytes (w_store w1) = s_max_memory_bytes (w_store w)"
    using sw bud(2) by (simp add: sweep_of_def)
  have "within_budget (w_store w1)" using bud b1 by (simp add: within_budget_def)
  moreover have "n + batch_attrs b + arrival_attrs as < 2 ^ 32"
    using Cons.prems(3) by (simp add: a arrival_attrs_def add.assoc)
  ultimately obtain w' where "run w1 as = Some w'" "store_inv (n + batch_attrs b + arrival_attrs as) (w_store w')"
    "within_budget (w_store w')" "s_max_memory_bytes (w_store w') = s_max_memory_bytes (w_store w1)"
    "w_seq w' = w_seq w1 + of_nat (length as)"
    "malformed_span (s_counters (w_store w'))
        = malformed_span (s_counters (w_store w1)) + of_nat (arrival_malformed as)"
    using Cons.IH [OF _ inv] Cons.prems(1) by auto
  then show ?case
    using ap b1 m
    by (intro exI [of _ w']) (simp add: run_def a arrival_attrs_def arrival_malformed_def add.assoc algebra_simps)
qed

lemma card_traces:
  assumes "store_inv n s"
  shows "card (dom (trace s)) = trace_count s" "finite (dom (trace s))"
proof -
  have "trace s = map_of (s_traces s)" by (simp add: trace_def fun_eq_iff)
  then show "card (dom (trace s)) = trace_count s" "finite (dom (trace s))"
    using store_invD(1) [OF assms] distinct_card [of "map fst (s_traces s)"]
    by (simp_all add: trace_count_def dom_map_of_conv_image_fst)
qed

section \<open>Properties\<close>

text \<open>
  C5. The writer never dies on data: over any sequence of batches that together carry fewer than
  \<open>2^32\<close> attribute pairs, with any clock readings (even going backwards or before the epoch) and any
  hash iteration orders, the task applies every batch without a panic and terminates each sweep;
  the store's invariant holds, it is within budget or down to one trace, the sequence number has
  gone up once per batch and the malformed counter is the sum of the batches' counts.
\<close>
theorem writer_run_total:
  assumes "\<forall>(ord, _, _) \<in> set as. iterates ord" "arrival_attrs as < 2 ^ 32"
  shows "\<exists>w'. run (spawn_writer (store_new budget)) as = Some w'
    \<and> store_inv (arrival_attrs as) (w_store w')
    \<and> (store_bytes (w_store w') \<le> budget \<or> trace_count (w_store w') \<le> 1)
    \<and> w_seq w' = of_nat (length as)
    \<and> malformed_span (s_counters (w_store w')) = of_nat (arrival_malformed as)"
proof -
  have "store_inv 0 (w_store (spawn_writer (store_new budget)))" "within_budget (w_store (spawn_writer (store_new budget)))"
    by (simp_all add: spawn_writer_def store_inv_new within_budget_def) (simp add: store_new_def trace_count_def)
  from run_ok [OF assms(1) this(1) _ this(2)] assms(2) show ?thesis
    by (auto simp: spawn_writer_def within_budget_def store_new_def counters_default_def)
qed

definition sample_batch :: span_batch where
  "sample_batch =
    \<lparr>sb_spans = [(TraceId (replicate 16 1), sample_span 1 None [(''k'', Bool True)]),
                (TraceId (replicate 16 2), sample_span 1 None [])],
     sb_partial = True, sb_malformed_span_count = 3\<rparr>"

lemma batch_attrs_sample [simp]: "batch_attrs sample_batch = 1"
  by (simp add: batch_attrs_def sample_batch_def)

lemma malformed_sample [simp]: "sb_malformed_span_count sample_batch = 3"
  by (simp add: sample_batch_def)

lemma store_inv_spawn: "store_inv 0 (w_store (spawn_writer (store_new budget)))"
  by (simp add: spawn_writer_def store_inv_new)

theorem writer_run_total_witness:
  "\<exists>w'. run (spawn_writer (store_new 100)) [(rev, Some 5, sample_batch), (id, None, sample_batch)] = Some w'
     \<and> w_seq w' = 2 \<and> malformed_span (s_counters (w_store w')) = 6 \<and> store_inv 2 (w_store w')"
proof -
  let ?as = "[(rev, Some 5, sample_batch), (id, None, sample_batch)]"
  have "arrival_attrs ?as = 2" "arrival_malformed ?as = 6" "\<forall>(ord, _, _) \<in> set ?as. iterates ord"
    by (simp_all add: arrival_attrs_def arrival_malformed_def iterates_id iterates_rev)
  with writer_run_total [of ?as 100] show ?thesis by auto
qed

text \<open>
  C18. No span is silently lost: after a batch is applied, every span of it is resident in its
  trace, or the sweep of that very batch dropped the trace, which is then in the record of evicted
  generations; and the eviction counter grew by exactly the number of traces dropped.
\<close>
theorem no_span_lost:
  assumes "iterates ord" "store_inv n (w_store w)" "n + batch_attrs b < 2 ^ 32"
  shows "\<exists>w' dropped. apply_batch ord clock w b = Some w'
    \<and> (\<forall>(tid, span) \<in> set (sb_spans b).
         (\<exists>t. trace (w_store w') tid = Some t \<and> ns_span_id span \<in> set (t_span_ids t))
         \<or> trace (w_store w') tid = None \<and> tid \<in> dropped)
    \<and> dropped \<subseteq> dom (s_evicted_generations (w_store w'))
    \<and> evicted_traces (s_counters (w_store w')) = evicted_traces (s_counters (w_store w)) + of_nat (card dropped)"
proof -
  from assms obtain s1 w' where
    ap: "apply_batch ord clock w b = Some w'"
    and ins: "batch_inserted (writer_now_unix_nano clock) (w_store w) (sb_spans b) s1"
    and inv: "store_inv (n + batch_attrs b) s1" "store_inv (n + batch_attrs b) (w_store w')"
    and sw: "sweep_of (count_malformed s1 (of_nat (sb_malformed_span_count b))) (w_store w')"
    by (rule apply_batch_effect [where clock = clock])
  let ?d = "dom (trace s1) - dom (trace (w_store w'))"
  have keep: "trace s1 k = Some u" if "trace (w_store w') k = Some u" for k u
    using sweep_ofD(1) [OF sw that] by simp
  then have sub: "dom (trace (w_store w')) \<subseteq> dom (trace s1)" by auto
  have card: "card ?d = trace_count s1 - trace_count (w_store w')"
    using card_traces [OF inv(1)] card_traces [OF inv(2)] sub by (simp add: card_Diff_subset)
  have land: "(\<exists>t. trace (w_store w') tid = Some t \<and> ns_span_id span \<in> set (t_span_ids t))
      \<or> trace (w_store w') tid = None \<and> tid \<in> ?d" if x: "(tid, span) \<in> set (sb_spans b)" for tid span
  proof -
    from ins x obtain t where t: "trace s1 tid = Some t" "ns_span_id span \<in> set (t_span_ids t)"
      by (rule batch_inserted_lands)
    then show ?thesis using keep [of tid] by (cases "trace (w_store w') tid") auto
  qed
  have dom: "?d \<subseteq> dom (s_evicted_generations (w_store w'))"
    using sweep_ofD(3) [OF sw] by (auto simp: domIff)
  have cnt: "evicted_traces (s_counters (w_store w')) = evicted_traces (s_counters (w_store w)) + of_nat (card ?d)"
    by (simp add: sweep_ofD(2) [OF sw] batch_insertedD(3) [OF ins] card)
  show ?thesis
    by (intro exI [of _ w'] exI [of _ ?d] conjI ap dom cnt) (use land in blast)
qed

theorem no_span_lost_witness:
  "\<exists>w'. apply_batch rev (Some 5) (spawn_writer (store_new 0)) sample_batch = Some w'
     \<and> (\<forall>(tid, span) \<in> set (sb_spans sample_batch).
         (\<exists>t. trace (w_store w') tid = Some t \<and> ns_span_id span \<in> set (t_span_ids t))
         \<or> s_evicted_generations (w_store w') tid \<noteq> None)"
proof -
  from no_span_lost [OF iterates_rev store_inv_spawn [of 0], of sample_batch "Some 5"] obtain w' dropped where
    "apply_batch rev (Some 5) (spawn_writer (store_new 0)) sample_batch = Some w'"
    "\<forall>(tid, span) \<in> set (sb_spans sample_batch).
         (\<exists>t. trace (w_store w') tid = Some t \<and> ns_span_id span \<in> set (t_span_ids t))
         \<or> trace (w_store w') tid = None \<and> tid \<in> dropped"
    "dropped \<subseteq> dom (s_evicted_generations (w_store w'))" by auto
  then show ?thesis by blast
qed

text \<open>
  C19. A retried batch is deduplicated: when a batch has been applied and its traces are still
  resident, applying it again (an exporter retries after a timeout) adds no span to any trace and
  resurrects none; each of its spans is counted as a duplicate.
\<close>
theorem retried_batch_adds_nothing:
  assumes "iterates ord" "iterates ord'" "store_inv n (w_store w)" "n + 2 * batch_attrs b < 2 ^ 32"
    and "apply_batch ord clock w b = Some w1"
    and "\<forall>(tid, span) \<in> set (sb_spans b). trace (w_store w1) tid \<noteq> None"
  shows "\<exists>w2. apply_batch ord' clock' w1 b = Some w2
    \<and> (\<forall>tid t. trace (w_store w2) tid = Some t \<longrightarrow> t_span_ids t = resident_ids (w_store w1) tid)
    \<and> duplicate_span (s_counters (w_store w2))
        = duplicate_span (s_counters (w_store w1)) + of_nat (length (sb_spans b))
    \<and> late_span_after_eviction (s_counters (w_store w2)) = late_span_after_eviction (s_counters (w_store w1))"
proof -
  have room1: "n + batch_attrs b < 2 ^ 32" and room2: "n + batch_attrs b + batch_attrs b < 2 ^ 32"
    using assms(4) by auto
  from assms(1,3) room1 obtain s1 w1' where
    ap1: "apply_batch ord clock w b = Some w1'"
    and ins1: "batch_inserted (writer_now_unix_nano clock) (w_store w) (sb_spans b) s1"
    and inv1: "store_inv (n + batch_attrs b) (w_store w1')"
    and sw1: "sweep_of (count_malformed s1 (of_nat (sb_malformed_span_count b))) (w_store w1')"
    by (rule apply_batch_effect [where clock = clock])
  have w1: "w1' = w1" using ap1 assms(5) by simp
  have known: "snd x \<in> set (resident_ids (w_store w1) (fst x))" if x: "x \<in> set (keys_of (sb_spans b))" for x
  proof -
    from x obtain tid span where y: "(tid, span) \<in> set (sb_spans b)" "x = (tid, ns_span_id span)"
      by (auto simp: keys_of_def)
    from ins1 y(1) obtain t where t: "trace s1 tid = Some t" "ns_span_id span \<in> set (t_span_ids t)"
      by (rule batch_inserted_lands)
    from assms(6) y(1) obtain u where "trace (w_store w1) tid = Some u" by auto
    with sweep_ofD(1) [OF sw1, of tid u] t w1 y(2) show ?thesis by (simp add: resident_ids_def)
  qed
  from assms(2) inv1 [unfolded w1] room2 obtain s2 w2 where
    ap2: "apply_batch ord' clock' w1 b = Some w2"
    and ins2: "batch_inserted (writer_now_unix_nano clock') (w_store w1) (sb_spans b) s2"
    and sw2: "sweep_of (count_malformed s2 (of_nat (sb_malformed_span_count b))) (w_store w2)"
    by (rule apply_batch_effect [where clock = clock'])
  have same: "foldl abs_put (resident_ids (w_store w1)) (keys_of (sb_spans b)) = resident_ids (w_store w1)"
    "abs_dups (resident_ids (w_store w1)) (keys_of (sb_spans b)) = length (keys_of (sb_spans b))"
    using abs_puts_known [of "keys_of (sb_spans b)" "resident_ids (w_store w1)"] known by blast+
  have ids: "resident_ids s2 = resident_ids (w_store w1)"
    using batch_insertedD(1) [OF ins2] same(1) by (rule trans)
  have "t_span_ids t = resident_ids (w_store w1) tid" if "trace (w_store w2) tid = Some t" for tid t
    using sweep_ofD(1) [OF sw2 that] by (simp add: ids [symmetric] resident_ids_def)
  moreover have dom: "fst ` set (sb_spans b) \<subseteq> dom (trace (w_store w1))" using assms(6) by (auto simp: domIff)
  moreover have "length (keys_of (sb_spans b)) = length (sb_spans b)" by (simp add: keys_of_def)
  ultimately show ?thesis
    using ap2 batch_insertedD(2) [OF ins2] batch_insertedD(4) [OF ins2 dom] same(2)
    by (intro exI [of _ w2] conjI) (auto simp: sweep_ofD(2) [OF sw2])
qed

text \<open>A batch of one trace stays resident whatever the budget.\<close>
lemma one_trace_resident:
  assumes "iterates ord" "batch_attrs b < 2 ^ 32" "fst ` set (sb_spans b) = {tid}"
  shows "\<exists>w'. apply_batch ord clock (spawn_writer (store_new budget)) b = Some w' \<and> trace (w_store w') tid \<noteq> None
    \<and> store_inv (batch_attrs b) (w_store w') \<and> s_max_memory_bytes (w_store w') = budget"
proof -
  let ?w = "spawn_writer (store_new budget)"
  from assms(1) store_inv_spawn [of budget] obtain s1 w' where
    ap: "apply_batch ord clock ?w b = Some w'"
    and ins: "batch_inserted (writer_now_unix_nano clock) (w_store ?w) (sb_spans b) s1"
    and inv: "store_inv (0 + batch_attrs b) (w_store w')"
    and sw: "sweep_of (count_malformed s1 (of_nat (sb_malformed_span_count b))) (w_store w')"
    and ne: "s_traces s1 \<noteq> [] \<longrightarrow> s_traces (w_store w') \<noteq> []"
    by (rule apply_batch_effect [where clock = clock and b = b]) (use assms(2) in simp)
  have "s_max_memory_bytes (w_store w') = budget"
    using apply_batch_budget [OF assms(1) store_inv_spawn [of budget] _ ap] assms(2) by (simp add: spawn_writer_def store_new_def)
  moreover have dom: "trace s1 k \<noteq> None \<longleftrightarrow> k = tid" for k
    using ins assms(3) by (simp add: batch_inserted_def spawn_writer_def store_new_def trace_def)
  then have "trace s1 tid \<noteq> None" by blast
  then have "s_traces s1 \<noteq> []" by (auto simp: trace_def)
  with ne obtain k u where "(k, u) \<in> set (s_traces (w_store w'))" by (cases "s_traces (w_store w')") auto
  then have k: "trace (w_store w') k = Some u" using store_invD(1) [OF inv] by (simp add: trace_def)
  then have "k = tid" using dom [of k] sweep_ofD(1) [OF sw k] by simp
  ultimately show ?thesis using ap k inv by auto
qed

definition sample_trace_batch :: span_batch where
  "sample_trace_batch =
    \<lparr>sb_spans = [(sample_trace_id, sample_span 1 None [(''k'', Bool True)]),
                (sample_trace_id, sample_span 2 (Some 1) [])],
     sb_partial = False, sb_malformed_span_count = 0\<rparr>"

theorem retried_batch_adds_nothing_witness:
  "\<exists>w1 w2. apply_batch id (Some 5) (spawn_writer (store_new 0)) sample_trace_batch = Some w1
    \<and> trace (w_store w1) sample_trace_id \<noteq> None
    \<and> apply_batch rev (Some 9) w1 sample_trace_batch = Some w2
    \<and> duplicate_span (s_counters (w_store w2)) = duplicate_span (s_counters (w_store w1)) + 2"
proof -
  have attrs: "batch_attrs sample_trace_batch = 1" by (simp add: batch_attrs_def sample_trace_batch_def)
  have ids: "fst ` set (sb_spans sample_trace_batch) = {sample_trace_id}" by (simp add: sample_trace_batch_def)
  from one_trace_resident [OF iterates_id _ ids, of "Some 5" 0] attrs obtain w1 where
    w1: "apply_batch id (Some 5) (spawn_writer (store_new 0)) sample_trace_batch = Some w1"
      "trace (w_store w1) sample_trace_id \<noteq> None" by auto
  have res: "\<forall>(tid, span) \<in> set (sb_spans sample_trace_batch). trace (w_store w1) tid \<noteq> None"
    using w1(2) by (simp add: sample_trace_batch_def)
  have len: "length (sb_spans sample_trace_batch) = 2" by (simp add: sample_trace_batch_def)
  from retried_batch_adds_nothing [OF iterates_id iterates_rev store_inv_spawn [of 0] _ w1(1) res, of "Some 9"]
  show ?thesis using w1 attrs by (auto simp: len)
qed

lemma resident_approx_bytes:
  "store_inv n s \<Longrightarrow> trace s k = Some u \<Longrightarrow> approx_bytes u = Some (trace_bytes u)"
  by (rule approx_bytes_eq) (auto simp: trace_ok_def dest: store_invD(2))

lemma resident_bytes:
  assumes "store_inv n s" "trace s t1 = Some u1" "trace s t2 = Some u2" "t1 \<noteq> t2"
  shows "trace_bytes u1 + trace_bytes u2 \<le> store_bytes s"
proof -
  have split: "store_bytes s = store_bytes (evict s t1) + trace_bytes u1" using evict_inv(3) [OF assms(1,2)] .
  have "trace (evict s t1) t2 = Some u2" using evict_sel [OF assms(2)] assms(3,4) by simp
  then have "(t2, u2) \<in> set (s_traces (evict s t1))" by (rule trace_SomeD)
  then have "trace_bytes u2 \<le> store_bytes (evict s t1)"
    unfolding store_bytes_def by (intro member_le_sum_list) (force simp: image_iff, simp)
  with split show ?thesis by simp
qed

text \<open>
  C39. \<open>A trace still receiving spans is never the oldest\<close>, the comment on \<open>evict_over_budget\<close> says;
  it does not hold within a batch, whose spans all carry one clock reading.  Whatever the store
  held before and whatever its budget: if a batch brings spans of two traces which, once it is
  inserted, do not fit the budget together, the sweep at the end of the same batch evicts at least one of
  the two, although both have just been active.
\<close>
theorem same_batch_trace_evicted:
  assumes "iterates ord" "store_inv n (w_store w)" "n + batch_attrs b < 2 ^ 32"
    and "insert_all (writer_now_unix_nano clock) (w_store w) (sb_spans b) = Some s1"
    and "t1 \<in> fst ` set (sb_spans b)" "t2 \<in> fst ` set (sb_spans b)" "t1 \<noteq> t2"
    and "trace s1 t1 = Some u1" "trace s1 t2 = Some u2" "approx_bytes u1 = Some n1" "approx_bytes u2 = Some n2"
    and "s_max_memory_bytes (w_store w) < n1 + n2"
  shows "t_last_activity u1 = writer_now_unix_nano clock \<and> t_last_activity u2 = writer_now_unix_nano clock
    \<and> (\<exists>w'. apply_batch ord clock w b = Some w'
        \<and> (\<exists>(tid, u) \<in> {(t1, u1), (t2, u2)}. trace (w_store w') tid = None
             \<and> s_evicted_generations (w_store w') tid = Some (t_generation u)))"
proof -
  let ?c = "count_malformed s1 (of_nat (sb_malformed_span_count b))"
  from assms(1-3) obtain s1' s2 where i: "insert_all (writer_now_unix_nano clock) (w_store w) (sb_spans b) = Some s1'"
    "store_inv (n + batch_attrs b) s1'" "evict_over_budget ord (count_malformed s1' (of_nat (sb_malformed_span_count b))) = Some s2"
    and inv2: "store_inv (n + batch_attrs b) s2"
    and ap: "apply_batch ord clock w b = Some (w\<lparr>w_store := s2, w_seq := w_seq w + 1\<rparr>)"
    by (rule apply_batch_ok [where clock = clock])
  then have inv1: "store_inv (n + batch_attrs b) s1" and e: "evict_over_budget ord ?c = Some s2" using assms(4) by simp_all
  have fits: "n + sum_list (map (\<lambda>x. length (ns_attributes (snd x))) (sb_spans b)) < 2 ^ 32"
    using assms(3) by (simp add: batch_attrs_def)
  have act: "t_last_activity u1 = writer_now_unix_nano clock" "t_last_activity u2 = writer_now_unix_nano clock"
    using batch_insertedD(6) [OF insert_all_inserted [OF assms(2) fits assms(4)]] assms(5,6,8,9) by auto
  have budget: "s_max_memory_bytes ?c = s_max_memory_bytes (w_store w)"
    using insert_all_budget [OF assms(2) fits assms(4)] by simp
  from evict_over_budget_sweep [OF assms(1) store_inv_count_malformed [OF inv1, of "of_nat (sb_malformed_span_count b)"]] e
  have sw: "sweep_of ?c s2" and bud: "store_bytes s2 \<le> s_max_memory_bytes (w_store w) \<or> trace_count s2 \<le> 1"
    unfolding budget by (metis option.inject)+
  have bytes: "n1 = trace_bytes u1" "n2 = trace_bytes u2"
    using resident_approx_bytes [OF inv1] assms(8-11) by simp_all
  have gone: "s_evicted_generations s2 t = Some (t_generation u)" if "trace s1 t = Some u" "trace s2 t = None" for t u
    using sw that by (simp add: sweep_of_def)
  have "trace s2 t1 = None \<or> trace s2 t2 = None"
  proof (rule ccontr)
    assume both: "\<not> ?thesis"
    then have "{t1, t2} \<subseteq> dom (trace s2)" by auto
    from card_mono [OF card_traces(2) [OF inv2] this] assms(7) have "2 \<le> trace_count s2"
      by (simp add: card_traces(1) [OF inv2])
    moreover have "trace s2 t1 = Some u1" "trace s2 t2 = Some u2"
      using both sweep_ofD(1) [OF sw] assms(8,9) by auto
    ultimately show False using resident_bytes [OF inv2 _ _ assms(7)] bud assms(12) bytes by fastforce
  qed
  with act ap gone assms(8,9) show ?thesis by auto
qed

text \<open>A store with an older trace and room for one span, but not for the two that arrive.\<close>
theorem same_batch_trace_evicted_witness:
  "\<exists>w w' tid. trace (w_store w) (TraceId (replicate 16 3)) \<noteq> None \<and> s_max_memory_bytes (w_store w) = 100
    \<and> apply_batch rev (Some 9) w sample_batch = Some w'
    \<and> tid \<in> {TraceId (replicate 16 1), TraceId (replicate 16 2)} \<and> trace (w_store w') tid = None"
proof -
  let ?old = "\<lparr>sb_spans = [(TraceId (replicate 16 3), sample_span 1 None [])], sb_partial = False, sb_malformed_span_count = 0\<rparr>"
  let ?t1 = "TraceId (replicate 16 1)" and ?t2 = "TraceId (replicate 16 2)"
  have old: "batch_attrs ?old < 2 ^ 32" "fst ` set (sb_spans ?old) = {TraceId (replicate 16 3)}" "batch_attrs ?old = 0"
    by (simp_all add: batch_attrs_def)
  from one_trace_resident [OF iterates_id old(1,2), of "Some 5" 100] obtain w :: writer_state where
    w: "trace (w_store w) (TraceId (replicate 16 3)) \<noteq> None" "store_inv 0 (w_store w)" "s_max_memory_bytes (w_store w) = 100"
    unfolding old(3) by blast
  have room: "0 + batch_attrs sample_batch < 2 ^ 32" by simp
  from iterates_rev w(2) room obtain s1 where
    i: "insert_all (writer_now_unix_nano (Some 9)) (w_store w) (sb_spans sample_batch) = Some s1"
    and inv: "store_inv (0 + batch_attrs sample_batch) s1" by (rule apply_batch_ok)
  have ids: "fst ` set (sb_spans sample_batch) = {?t1, ?t2}" by (simp add: sample_batch_def)
  have ins: "batch_inserted (writer_now_unix_nano (Some 9)) (w_store w) (sb_spans sample_batch) s1"
    by (rule insert_all_inserted [OF w(2) _ i]) (simp add: sample_batch_def)
  have big: "\<exists>u m. trace s1 t = Some u \<and> approx_bytes u = Some m \<and> 64 \<le> m" if "t \<in> {?t1, ?t2}" for t
  proof -
    from that obtain x where "(t, x) \<in> set (sb_spans sample_batch)" unfolding ids [symmetric] by auto
    with ins obtain u where u: "trace s1 t = Some u" "ns_span_id x \<in> set (t_span_ids u)" by (rule batch_inserted_lands)
    then have "span_count u \<noteq> 0" by (auto simp: span_count_def)
    with u(1) resident_approx_bytes [OF inv u(1)] show ?thesis by (simp add: trace_bytes_def APPROX_SPAN_FIXED_BYTES_def)
  qed
  from big [of ?t1] big [of ?t2] obtain u1 n1 u2 n2 where u: "trace s1 ?t1 = Some u1" "approx_bytes u1 = Some n1" "64 \<le> n1"
    "trace s1 ?t2 = Some u2" "approx_bytes u2 = Some n2" "64 \<le> n2" by auto
  have "s_max_memory_bytes (w_store w) < n1 + n2" using u(3,6) w(3) by simp
  from same_batch_trace_evicted [OF iterates_rev w(2) room i _ _ _ u(1,4,2,5) this] show ?thesis
    using w(1,3) unfolding ids by auto
qed

end
