(* ===== verification/Demo.thy ===== *)
theory Demo
  imports Writer
begin

text \<open>
  \<open>src/demo.rs\<close>: the curated trace set that \<open>--demo\<close> puts into the store before the listeners start.
  The spans are written out in the order the code inserts them; its clock is a counter.
\<close>

section \<open>The trace set\<close>

definition demo_span ::
    "u8 list \<Rightarrow> u8 list option \<Rightarrow> string \<Rightarrow> u64 \<Rightarrow> u64 \<Rightarrow> string option \<Rightarrow> new_span" where
  "demo_span sid parent nm start stop service =
    \<lparr>ns_span_id = SpanId sid, ns_parent_span_id = map_option SpanId parent, ns_name = nm,
     ns_start_time_unix_nano = start, ns_end_time_unix_nano = stop, ns_status_message = [],
     ns_status_code = 0, ns_unknown_service = (service = None), ns_service_name = service,
     ns_attributes = []\<rparr>"

text \<open>\<open>u32::to_be_bytes\<close>\<close>
definition to_be_bytes :: "nat \<Rightarrow> u8 list" where
  "to_be_bytes i = [of_nat (i div 2 ^ 24), of_nat (i div 2 ^ 16), of_nat (i div 2 ^ 8), of_nat i]"

definition checkout :: trace_id where "checkout = TraceId (bytes_of ''checkout-flow-01'')"
definition anon :: trace_id where "anon = TraceId (bytes_of ''missing-svc-name'')"
definition broken :: trace_id where "broken = TraceId (bytes_of ''broken-propagatn'')"
definition drift :: trace_id where "drift = TraceId (bytes_of ''attribute-drift1'')"
definition slow :: trace_id where "slow = TraceId (bytes_of ''slow-leaf-span01'')"
definition search :: trace_id where "search = TraceId (bytes_of ''high-cardinality'')"

definition search_span :: "nat \<Rightarrow> new_span" where
  "search_span i =
    demo_span (bytes_of ''srch'' @ to_be_bytes i) (Some (bytes_of ''searchrt'')) (''query:'' @ nat_to_string i)
      1000000 2000000 (Some ''search'')"

definition demo_spans :: "(trace_id \<times> new_span) list" where
  "demo_spans =
    [(checkout, demo_span (bytes_of ''root-001'') None ''POST /checkout'' 0 300000000 (Some ''checkout'')),
     (checkout, demo_span (bytes_of ''charge01'') (Some (bytes_of ''root-001'')) ''charge-card'' 10000000 180000000 (Some ''payments'')),
     (checkout, demo_span (bytes_of ''reserve1'') (Some (bytes_of ''root-001'')) ''reserve-inventory'' 10000000 90000000 (Some ''inventory'')),
     (anon, demo_span (bytes_of ''anon0001'') None ''GET /health'' 0 5000000 None),
     (broken, demo_span (bytes_of ''gateway1'') None ''gateway'' 0 200000000 (Some ''gateway'')),
     (broken, demo_span (bytes_of ''authchld'') (Some (bytes_of ''neverprt'')) ''validate-token'' 5000000 40000000 (Some ''auth'')),
     (drift, (demo_span (bytes_of ''drift001'') None ''GET /orders'' 0 50000000 (Some ''orders''))
               \<lparr>ns_attributes := [(''http.status_code'', Int64 200)]\<rparr>),
     (drift, (demo_span (bytes_of ''drift002'') None ''GET /invoice'' 0 60000000 (Some ''billing''))
               \<lparr>ns_attributes := [(''http.status_code'', Str ''200'')]\<rparr>),
     (slow, demo_span (bytes_of ''slowroot'') None ''batch-export'' 0 3000000000 (Some ''reporting'')),
     (slow, demo_span (bytes_of ''slowleaf'') (Some (bytes_of ''slowroot'')) ''render-pdf'' 0 2000000000 (Some ''reporting'')),
     (search, demo_span (bytes_of ''searchrt'') None ''search-request'' 0 500000000 (Some ''search''))]
    @ map (\<lambda>i. (search, search_span i)) [0..<200]"

section \<open>Seeding\<close>

text \<open>The closure \<open>insert\<close> and its captured \<open>now\<close>.\<close>
definition demo_insert :: "store \<times> u64 \<Rightarrow> trace_id \<times> new_span \<Rightarrow> (store \<times> u64) panics" where
  "demo_insert st x =
    do { (s, _) \<leftarrow> insert_span_no_evict (fst st) (fst x) (snd x) (snd st); Some (s, snd st + 1) }"

definition seed :: "hash_order \<Rightarrow> store \<Rightarrow> store panics" where
  "seed ord s = do { (s', _) \<leftarrow> foldO demo_insert (s, 0) demo_spans; evict_over_budget ord s' }"

section \<open>Properties\<close>

lemma demo_insert_all:
  assumes "store_inv n s" "n + sum_list (map (\<lambda>x. length (ns_attributes (snd x))) xs) < 2 ^ 32"
  shows "\<exists>s' now'. foldO demo_insert (s, now) xs = Some (s', now')
    \<and> store_inv (n + sum_list (map (\<lambda>x. length (ns_attributes (snd x))) xs)) s'
    \<and> resident_ids s' = foldl abs_put (resident_ids s) (keys_of xs)
    \<and> duplicate_span (s_counters s') = duplicate_span (s_counters s) + of_nat (abs_dups (resident_ids s) (keys_of xs))
    \<and> s_max_memory_bytes s' = s_max_memory_bytes s
    \<and> malformed_span (s_counters s') = malformed_span (s_counters s)
    \<and> (\<forall>k. trace s' k \<noteq> None \<longleftrightarrow> trace s k \<noteq> None \<or> k \<in> fst ` set xs)"
  using assms
proof (induction xs arbitrary: n s now)
  case (Cons x xs)
  have room: "n + length (ns_attributes (snd x)) < 2 ^ 32" using Cons.prems(2) by simp
  from insert_span_no_evict_inv [OF Cons.prems(1) room] obtain s1 out where
    i: "insert_span_no_evict s (fst x) (snd x) now = Some (s1, out)" "store_inv (n + length (ns_attributes (snd x))) s1"
    by blast
  note r = insert_refines [OF Cons.prems(1) room i(1)] and b = insert_effect(6) [OF Cons.prems(1) room i(1)]
  from Cons.IH [OF i(2), of "now + 1"] Cons.prems(2) obtain s' now' where
    "foldO demo_insert (s1, now + 1) xs = Some (s', now')"
    "store_inv (n + length (ns_attributes (snd x)) + sum_list (map (\<lambda>x. length (ns_attributes (snd x))) xs)) s'"
    "resident_ids s' = foldl abs_put (resident_ids s1) (keys_of xs)"
    "duplicate_span (s_counters s') = duplicate_span (s_counters s1) + of_nat (abs_dups (resident_ids s1) (keys_of xs))"
    "s_max_memory_bytes s' = s_max_memory_bytes s1" "malformed_span (s_counters s') = malformed_span (s_counters s1)"
    "\<forall>k. trace s' k \<noteq> None \<longleftrightarrow> trace s1 k \<noteq> None \<or> k \<in> fst ` set xs"
    by (fastforce simp: add.assoc)
  moreover have "foldO demo_insert (s, now) (x # xs) = foldO demo_insert (s1, now + 1) xs"
    using i(1) by (simp add: demo_insert_def [of "(s, now)"])
  moreover have "keys_of (x # xs) = (fst x, ns_span_id (snd x)) # keys_of xs" by (simp add: keys_of_def)
  ultimately show ?case using r(1,2,3,5) b by (intro exI [of _ s'] exI [of _ now']) (auto simp: add.assoc simp del: not_None_eq)
qed (simp add: keys_of_def)

text \<open>Distinct keys that are all new are appended, each to its trace, in order.\<close>
lemma abs_puts_fresh:
  "distinct xs \<Longrightarrow> (\<And>x. x \<in> set xs \<Longrightarrow> snd x \<notin> set (m (fst x))) \<Longrightarrow>
   foldl abs_put m xs = (\<lambda>t. m t @ map snd (filter (\<lambda>x. fst x = t) xs)) \<and> abs_dups m xs = 0"
proof (induction xs arbitrary: m)
  case (Cons x xs)
  have x: "snd x \<notin> set (m (fst x))" using Cons.prems(2) by simp
  then have put: "abs_put m x = m(fst x := m (fst x) @ [snd x])" by (simp add: abs_put_def)
  have "snd y \<notin> set (abs_put m x (fst y))" if "y \<in> set xs" for y
  proof -
    have "y \<noteq> x" using that Cons.prems(1) by auto
    moreover have "snd y \<notin> set (m (fst y))" using that Cons.prems(2) by simp
    ultimately show ?thesis by (auto simp: put prod_eq_iff)
  qed
  with Cons.IH [of "abs_put m x"] Cons.prems(1)
  have "foldl abs_put (abs_put m x) xs = (\<lambda>t. abs_put m x t @ map snd (filter (\<lambda>x. fst x = t) xs))"
    "abs_dups (abs_put m x) xs = 0" by simp_all
  with x show ?case by (auto simp: put)
qed simp

lemma to_be_bytes_inj: "i < 200 \<Longrightarrow> j < 200 \<Longrightarrow> to_be_bytes i = to_be_bytes j \<longleftrightarrow> i = j"
proof -
  assume ij: "i < 200" "j < 200"
  have "of_nat i = (of_nat j :: u8) \<longleftrightarrow> i = j"
    using ij by (simp add: word_unat_eq_iff unat_of_nat take_bit_nat_eq_self)
  then show ?thesis by (auto simp: to_be_bytes_def)
qed

lemma demo_keys_distinct: "distinct (keys_of demo_spans)"
proof -
  have inj: "inj_on (\<lambda>i. (search, SpanId (bytes_of ''srch'' @ to_be_bytes i))) {0..<200}"
    by (auto simp: inj_on_def to_be_bytes_inj)
  have b: "bytes_of ''searchrt'' = bytes_of ''sear'' @ bytes_of ''chrt''" by (simp add: bytes_of_def)
  have ne: "bytes_of ''searchrt'' \<noteq> bytes_of ''srch'' @ xs" for xs
    by (simp add: bytes_of_def byte_def)
  show ?thesis
    using inj
    by (simp add: keys_of_def demo_spans_def demo_span_def search_span_def comp_def distinct_map image_iff ne)
      (simp add: checkout_def anon_def broken_def drift_def slow_def search_def bytes_of_def byte_def)
qed

text \<open>The span ids of each demo trace, in order.\<close>
definition demo_ids :: "trace_id \<Rightarrow> span_id list" where
  "demo_ids tid = map snd (filter (\<lambda>x. fst x = tid) (keys_of demo_spans))"

lemma seed_result:
  assumes "iterates ord"
  shows "\<exists>s'. seed ord (store_new budget) = Some s' \<and> store_inv 2 s'
    \<and> length demo_spans = 211 \<and> duplicate_span (s_counters s') = 0
    \<and> (store_bytes s' \<le> budget \<or> trace_count s' \<le> 1)
    \<and> (\<forall>tid t. trace s' tid = Some t \<longrightarrow> t_span_ids t = demo_ids tid)
    \<and> malformed_span (s_counters s') = 0 \<and> s_max_memory_bytes s' = budget
    \<and> store_ids_wf s'"
proof -
  have cost: "sum_list (map (\<lambda>x. length (ns_attributes (snd x))) demo_spans) = 2"
    by (simp add: demo_spans_def demo_span_def search_span_def comp_def sum_list_triv)
  have empty: "resident_ids (store_new budget) = (\<lambda>_. [])"
    by (simp add: resident_ids_def store_new_def trace_def fun_eq_iff)
  have fresh: "foldl abs_put (\<lambda>_. []) (keys_of demo_spans) = demo_ids" "abs_dups (\<lambda>_. []) (keys_of demo_spans) = 0"
    using abs_puts_fresh [OF demo_keys_distinct, of "\<lambda>_. []"] by (simp_all add: demo_ids_def fun_eq_iff)
  have budget: "duplicate_span (s_counters (store_new budget)) = 0" "s_max_memory_bytes (store_new budget) = budget"
    "malformed_span (s_counters (store_new budget)) = 0"
    by (simp_all add: store_new_def counters_default_def)
  have room: "0 + sum_list (map (\<lambda>x. length (ns_attributes (snd x))) demo_spans) < 2 ^ 32" by (simp add: cost)
  from demo_insert_all [OF store_inv_new [of 0 budget] room, of 0, unfolded cost empty fresh budget add_0]
  obtain s1 now' where
    s1: "foldO demo_insert (store_new budget, 0) demo_spans = Some (s1, now')" "store_inv 2 s1"
      "resident_ids s1 = demo_ids" "duplicate_span (s_counters s1) = 0" "s_max_memory_bytes s1 = budget"
      "malformed_span (s_counters s1) = 0"
      "\<forall>k. trace s1 k \<noteq> None \<longleftrightarrow> trace (store_new budget) k \<noteq> None \<or> k \<in> fst ` set demo_spans"
    by (auto simp del: not_None_eq)
  have "\<forall>x \<in> set demo_spans. span_ids_wf x"
    by (auto simp: demo_spans_def demo_span_def search_span_def span_ids_wf_def to_be_bytes_def
        checkout_def anon_def broken_def drift_def slow_def search_def wf_simps bytes_of_def)
  moreover have "store_ids_wf (store_new budget)" by (simp add: store_ids_wf_def store_new_def trace_def)
  ultimately have wf1: "store_ids_wf s1"
    using store_ids_wf_put [of "store_new budget" demo_spans s1] s1(3,7) fresh(1) empty by simp
  from evict_over_budget_sweep [OF assms s1(2)] obtain s2 where
    s2: "evict_over_budget ord s1 = Some s2" "store_inv 2 s2" "sweep_of s1 s2"
      "store_bytes s2 \<le> s_max_memory_bytes s1 \<or> trace_count s2 \<le> 1" by blast
  have "store_ids_wf s2" using store_ids_wf_sweep [OF s2(3) wf1] .
  moreover have "t_span_ids t = demo_ids tid" if "trace s2 tid = Some t" for tid t
    using sweep_ofD(1) [OF s2(3) that] arg_cong [OF s1(3), of "\<lambda>m. m tid"] by (simp add: resident_ids_def)
  moreover have "duplicate_span (s_counters s2) = 0" using sweep_ofD(2) [OF s2(3)] s1(4) by simp
  moreover have "malformed_span (s_counters s2) = 0" using sweep_ofD(2) [OF s2(3)] s1(6) by simp
  moreover have "length demo_spans = 211" by (simp add: demo_spans_def)
  moreover have "s_max_memory_bytes s2 = budget" using s2(3) s1(5) by (simp add: sweep_of_def)
  ultimately show ?thesis using s1 s2 by (auto simp: seed_def)
qed

text \<open>
  C40. The demo data: seeding an empty store terminates without a panic for any budget and hash
  iteration order, inserts 211 spans of which none is a duplicate, keeps the store's invariant
  and budget, and every demo trace still resident holds exactly its curated spans in order.
\<close>
theorem demo_seed:
  assumes "iterates ord"
  shows "\<exists>s'. seed ord (store_new budget) = Some s' \<and> store_inv 2 s'
    \<and> length demo_spans = 211 \<and> duplicate_span (s_counters s') = 0
    \<and> (store_bytes s' \<le> budget \<or> trace_count s' \<le> 1)
    \<and> (\<forall>tid t. trace s' tid = Some t \<longrightarrow> t_span_ids t = demo_ids tid)"
  using seed_result [OF assms, of budget] by blast

theorem demo_seed_witness:
  "\<exists>s'. seed rev (store_new 1073741824) = Some s' \<and> store_inv 2 s' \<and> duplicate_span (s_counters s') = 0"
  using demo_seed [OF iterates_rev] by blast

end
