(* ===== verification/Capacity.thy ===== *)
theory Capacity
  imports Writer
begin

text \<open>
  How much the budget's estimate (\<open>Store::approx_bytes\<close>, \<open>src/store/mod.rs\<close>) grows with the spans inserted, and
  what follows: as long as all that was ever sent fits the budget, the sweep after a batch finds
  nothing to do and the store is the plain accumulation of the spans.
\<close>

section \<open>The estimate grows by at most the span's own share\<close>

definition span_bytes :: "new_span \<Rightarrow> nat" where
  "span_bytes span = APPROX_SPAN_FIXED_BYTES + length (ns_name span)
     + length (ns_attributes span) * APPROX_ATTR_FIXED_BYTES"

definition row_bytes :: "span_row \<Rightarrow> nat" where
  "row_bytes r = APPROX_SPAN_FIXED_BYTES + length (r_name r) + length (r_attrs r) * APPROX_ATTR_FIXED_BYTES"

definition batch_bytes :: "span_batch \<Rightarrow> nat" where
  "batch_bytes b = sum_list (map (span_bytes \<circ> snd) (sb_spans b))"

lemma trace_bytes_repr: "trace_bytes (repr tid gen la rows) = sum_list (map row_bytes rows)"
  by (induction rows)
    (simp_all add: trace_bytes_def row_bytes_def attr_total_def APPROX_SPAN_FIXED_BYTES_def APPROX_ATTR_FIXED_BYTES_def
      comp_def)

lemma rows_insert_bytes: "sum_list (map row_bytes (fst (rows_insert rows r))) \<le> sum_list (map row_bytes rows) + row_bytes r"
proof (cases rule: rows_insert_cases [of rows r])
  case (dup i)
  have "row_bytes (r\<lparr>r_parent := r_parent (rows ! i)\<rparr>) = row_bytes r" by (simp add: row_bytes_def)
  moreover have "sum_list (take (length rows) ((map row_bytes rows)[i := row_bytes r])) + map row_bytes rows ! i
      = sum_list (take (length rows) (map row_bytes rows)) + row_bytes r"
    using dup(1) by (intro sum_list_take_update) auto
  ultimately show ?thesis using dup by (simp add: map_update)
qed simp

lemma trace_insert_bytes:
  assumes "trace_wf t" "interner_wf ki" "attr_count t + length (ns_attributes span) < 2 ^ 32"
    and "trace_insert t span svc ki now = Some (t', ki', out)"
  shows "trace_bytes t' \<le> trace_bytes t + span_bytes span"
proof -
  from assms(1-3) obtain rows rows' ki1 ia o1 where
    r: "t = repr (t_trace_id t) (t_generation t) (t_last_activity t) rows" "length ia \<le> length (ns_attributes span)"
      "rows_insert rows (row_of span svc ia) = (rows', o1)"
      "trace_insert t span svc ki now = Some (repr (t_trace_id t) (t_generation t) now rows', ki1, o1)"
    by (rule trace_insert_rows [where svc = svc and now = now])
  have "row_bytes (row_of span svc ia) \<le> span_bytes span"
    using r(2) by (simp add: row_bytes_def span_bytes_def row_of_def)
  moreover have "sum_list (map row_bytes rows') \<le> sum_list (map row_bytes rows) + row_bytes (row_of span svc ia)"
    using rows_insert_bytes [of rows "row_of span svc ia"] r(3) by simp
  moreover have "trace_bytes t = sum_list (map row_bytes rows)" by (subst r(1)) (rule trace_bytes_repr)
  ultimately show ?thesis using r(4) assms(4) by (simp add: trace_bytes_repr)
qed

lemma sum_alist_update:
  "distinct (map fst al) \<Longrightarrow>
   sum_list (map (f \<circ> snd) (AList.update k v al)) + (case map_of al k of Some u \<Rightarrow> f u | None \<Rightarrow> 0)
     = sum_list (map (f \<circ> snd) al) + (f v :: nat)"
proof (induction al)
  case (Cons e al)
  then show ?case by (cases e) (auto simp: weak_map_of_SomeI split: option.splits)
qed simp

lemma insert_span_bytes:
  assumes inv: "store_inv n s" and room: "n + length (ns_attributes span) < 2 ^ 32"
    and ins: "insert_span_no_evict s tid span now = Some (s', out)"
  shows "store_bytes s' \<le> store_bytes s + span_bytes span"
proof -
  from inv room obtain t evicted si' svc t' ki' o' c where
    e: "entry_or_insert s tid now = (t, evicted)"
    and ok: "trace_ok n (s_key_interner s) si' tid t"
    and ti: "trace_insert t (span\<lparr>ns_service_name := None\<rparr>) svc (s_key_interner s) now = Some (t', ki', o')"
    and res: "insert_span_no_evict s tid span now =
       Some (s\<lparr>s_traces := AList.update tid t' (s_traces s), s_key_interner := ki',
               s_service_interner := si', s_evicted_generations := evicted, s_counters := c\<rparr>,
             \<lparr>so_local_idx = local_idx o', so_is_duplicate = is_duplicate o',
              so_resurrected = (trace s tid = None \<and> s_evicted_generations s tid \<noteq> None)\<rparr>)"
    by (rule insert_span_no_evict_result [where tid = tid and now = now])
  have wf: "trace_wf t" "attr_count t + length (ns_attributes (span\<lparr>ns_service_name := None\<rparr>)) < 2 ^ 32"
    using ok room by (auto simp: trace_ok_def)
  have grow: "trace_bytes t' \<le> trace_bytes t + span_bytes span"
    using trace_insert_bytes [OF wf(1) store_invD(3) [OF inv] wf(2) ti] by (simp add: span_bytes_def)
  have "trace_bytes t = (case map_of (s_traces s) tid of Some u \<Rightarrow> trace_bytes u | None \<Rightarrow> 0)"
  proof (cases "trace s tid")
    case None
    with e have "t = (trace_new tid now)\<lparr>t_generation := t_generation t\<rparr>" by (auto simp: entry_or_insert_def Let_def)
    then have "trace_bytes t = trace_bytes (repr tid (t_generation t) now [])"
      by (metis repr_empty repr_generation)
    with None show ?thesis by (simp add: trace_bytes_repr trace_def)
  next
    case (Some u)
    with e show ?thesis by (simp add: entry_or_insert_def trace_def)
  qed
  with grow sum_alist_update [OF store_invD(1) [OF inv], of trace_bytes tid t'] res ins show ?thesis
    by (auto simp: store_bytes_def)
qed

lemma insert_all_bytes:
  assumes "store_inv n s" "n + sum_list (map (\<lambda>x. length (ns_attributes (snd x))) xs) < 2 ^ 32"
    and "insert_all now s xs = Some s'"
  shows "store_bytes s' \<le> store_bytes s + sum_list (map (span_bytes \<circ> snd) xs)"
  using assms
proof (induction xs arbitrary: n s)
  case (Cons x xs)
  from Cons.prems insert_span_no_evict_inv [OF Cons.prems(1), of "snd x" "fst x" now] obtain u out where
    u: "insert_span_no_evict s (fst x) (snd x) now = Some (u, out)" "store_inv (n + length (ns_attributes (snd x))) u"
    by auto
  have "store_bytes u \<le> store_bytes s + span_bytes (snd x)"
    using insert_span_bytes [OF Cons.prems(1) _ u(1)] Cons.prems(2) by simp
  moreover have "store_bytes s' \<le> store_bytes u + sum_list (map (span_bytes \<circ> snd) xs)"
    using Cons.IH [OF u(2)] Cons.prems(2,3) u(1) by (simp add: insert_all_def add.assoc comp_def)
  ultimately show ?case by (simp add: comp_def)
qed (simp add: insert_all_def)

section \<open>A batch that fits\<close>

text \<open>When the estimate stays within the budget the sweep evicts nothing.\<close>
lemma apply_batch_plain:
  assumes "iterates ord" "store_inv n (w_store w)" "n + batch_attrs b < 2 ^ 32"
    and "store_bytes (w_store w) + batch_bytes b \<le> s_max_memory_bytes (w_store w)"
    and "apply_batch ord clock w b = Some w'"
  obtains s1 where
    "insert_all (writer_now_unix_nano clock) (w_store w) (sb_spans b) = Some s1"
    "w_store w' = count_malformed s1 (of_nat (sb_malformed_span_count b))"
    "store_bytes s1 \<le> store_bytes (w_store w) + batch_bytes b"
    "s_max_memory_bytes s1 = s_max_memory_bytes (w_store w)"
    "batch_inserted (writer_now_unix_nano clock) (w_store w) (sb_spans b) s1"
proof -
  from assms(1-3) obtain s1 s2 where
    i: "insert_all (writer_now_unix_nano clock) (w_store w) (sb_spans b) = Some s1"
    and inv1: "store_inv (n + batch_attrs b) s1"
    and e: "evict_over_budget ord (count_malformed s1 (of_nat (sb_malformed_span_count b))) = Some s2"
    and a: "apply_batch ord clock w b = Some (w\<lparr>w_store := s2, w_seq := w_seq w + 1\<rparr>)"
    by (rule apply_batch_ok)
  let ?c = "count_malformed s1 (of_nat (sb_malformed_span_count b))"
  have room: "n + sum_list (map (\<lambda>x. length (ns_attributes (snd x))) (sb_spans b)) < 2 ^ 32"
    using assms(3) by (simp add: batch_attrs_def)
  have bytes: "store_bytes s1 \<le> store_bytes (w_store w) + batch_bytes b"
    using insert_all_bytes [OF assms(2) room i] by (simp add: batch_bytes_def)
  have mx: "s_max_memory_bytes s1 = s_max_memory_bytes (w_store w)" using insert_all_budget [OF assms(2) room i] .
  have "store_bytes ?c \<le> s_max_memory_bytes s1" using bytes assms(4) mx by (simp add: store_bytes_def)
  with evict_over_budget_sweep [OF assms(1) store_inv_count_malformed
      [OF inv1, of "of_nat (sb_malformed_span_count b)"]] e have "s2 = ?c" by auto
  with a assms(5) have "w_store w' = ?c" by auto
  with i bytes mx insert_all_inserted [OF assms(2) room i] show thesis by (intro that)
qed

lemma apply_batch_fits:
  assumes "iterates ord" "store_inv n (w_store w)" "n + batch_attrs b < 2 ^ 32"
    and "store_bytes (w_store w) + batch_bytes b \<le> s_max_memory_bytes (w_store w)"
    and "apply_batch ord clock w b = Some w'"
  shows "resident_ids (w_store w') = foldl abs_put (resident_ids (w_store w)) (keys_of (sb_spans b))"
    and "store_bytes (w_store w') \<le> store_bytes (w_store w) + batch_bytes b"
    and "evicted_traces (s_counters (w_store w')) = evicted_traces (s_counters (w_store w))"
    and "s_max_memory_bytes (w_store w') = s_max_memory_bytes (w_store w)"
proof -
  from assms obtain s1 where s1: "w_store w' = count_malformed s1 (of_nat (sb_malformed_span_count b))"
    "store_bytes s1 \<le> store_bytes (w_store w) + batch_bytes b"
    "s_max_memory_bytes s1 = s_max_memory_bytes (w_store w)"
    "batch_inserted (writer_now_unix_nano clock) (w_store w) (sb_spans b) s1"
    by (rule apply_batch_plain)
  then show "resident_ids (w_store w') = foldl abs_put (resident_ids (w_store w)) (keys_of (sb_spans b))"
    "store_bytes (w_store w') \<le> store_bytes (w_store w) + batch_bytes b"
    "evicted_traces (s_counters (w_store w')) = evicted_traces (s_counters (w_store w))"
    "s_max_memory_bytes (w_store w') = s_max_memory_bytes (w_store w)"
    using batch_insertedD [OF s1(4)] by (simp_all add: store_bytes_def)
qed

end
