(* ===== verification/Server.thy ===== *)
theory Server
  imports Handler Demo Capacity
begin

text \<open>
  The running server: the state \<open>run_server\<close> (\<open>src/main.rs\<close>) wires together, the steps its tasks interleave
  (requests on both transports, the writer), and the invariant of every state they reach.
\<close>

section \<open>The running server\<close>

text \<open>
  The state that \<open>run_server\<close> (\<open>src/main.rs\<close>) wires together: the ingest handlers with the sending end of
  the writer's channel, and the writer with the store.  Two history variables record, for the
  statements below, the batches exporters were told are accepted and those the writer applied.
\<close>
record server =
  y_ingest :: "channel ingest_state"
  y_writer :: writer_state
  y_acked :: "span_batch list"
  y_applied :: "span_batch list"

text \<open>The part of \<open>run_server\<close> between binding the listeners and serving them.\<close>
definition build_server :: "hash_order \<Rightarrow> nat \<Rightarrow> nat \<Rightarrow> bool \<Rightarrow> server panics" where
  "build_server ord max_memory_bytes ingest_timeout_secs seed_demo =
    do { s \<leftarrow> (if seed_demo then seed ord (store_new max_memory_bytes) else Some (store_new max_memory_bytes));
         let w = spawn_writer s;
         let chan = \<lparr>ch_queue = [], ch_capacity = 1024, ch_open = True\<rparr>;
         let st = ingest_state_new chan receiver_default ingest_timeout_secs;
         Some \<lparr>y_ingest = st, y_writer = w, y_acked = [], y_applied = []\<rparr> }"

text \<open>Documented behaviour of the bounded channel: a send that succeeds appends to a channel that has
  room, any other leaves it as it was; its capacity never changes.\<close>
definition bounded_channel :: "channel ingest_env \<Rightarrow> bool" where
  "bounded_channel env \<longleftrightarrow>
     delivers ch_queue env
     \<and> (\<forall>d ch b. ch_capacity (fst (timeout_send env d ch b)) = ch_capacity ch
        \<and> (snd (timeout_send env d ch b) = Sent \<longrightarrow> length (ch_queue ch) < ch_capacity ch))"

text \<open>
  The steps the tasks interleave: a request served over gRPC, one served over HTTP, and the writer
  taking the oldest batch off the channel and applying it.  Reads change nothing and are no steps.
\<close>
inductive server_step :: "channel ingest_env \<Rightarrow> server \<Rightarrow> server \<Rightarrow> bool" for env where
  serve_grpc: "grpc_export env clock (y_ingest y) req = (st, reply) \<Longrightarrow>
    server_step env y (y\<lparr>y_ingest := st, y_acked := y_acked y @ newly_acked (grpc_class reply) req\<rparr>)"
| serve_http: "http_export env clock (y_ingest y) header bytes = (st, resp) \<Longrightarrow>
    server_step env y (y\<lparr>y_ingest := st, y_acked := y_acked y @
      (case http_decoded env (header, bytes) of
         Some (req, t) \<Rightarrow> newly_acked (http_class resp) req | None \<Rightarrow> [])\<rparr>)"
| apply_next: "ch_queue (tx (y_ingest y)) = b # bs \<Longrightarrow> iterates ord \<Longrightarrow>
    apply_batch ord clock (y_writer y) b = Some w \<Longrightarrow>
    server_step env y (y\<lparr>y_ingest := (y_ingest y)\<lparr>tx := (tx (y_ingest y))\<lparr>ch_queue := bs\<rparr>\<rparr>,
      y_writer := w, y_applied := y_applied y @ [b]\<rparr>)"

inductive_cases server_stepE [consumes 1, case_names serve_grpc serve_http apply_next]: "server_step env y y'"

inductive reachable :: "channel ingest_env \<Rightarrow> server \<Rightarrow> server \<Rightarrow> bool" for env y0 where
  start: "reachable env y0 y0"
| step: "reachable env y0 y \<Longrightarrow> server_step env y y' \<Longrightarrow> reachable env y0 y'"

section \<open>Invariant\<close>

definition attrs_total :: "span_batch list \<Rightarrow> nat" where
  "attrs_total bs = sum_list (map batch_attrs bs)"

lemma attrs_total_simps [simp]: "attrs_total [] = 0" "attrs_total (b # bs) = batch_attrs b + attrs_total bs"
  "attrs_total (as @ bs) = attrs_total as + attrs_total bs"
  by (simp_all add: attrs_total_def)

text \<open>The type invariants of the ids, on a batch.\<close>
definition batch_ids_wf :: "span_batch \<Rightarrow> bool" where
  "batch_ids_wf b \<longleftrightarrow> (\<forall>x \<in> set (sb_spans b). span_ids_wf x)"

lemma batch_of_ids_wf: "batch_ids_wf (batch_of req)"
  by (auto simp: batch_ids_wf_def span_ids_wf_def batch_of_def List.map_filter_def convert_one_def wf_simps
      split: option.splits if_splits)

definition server_inv :: "nat \<Rightarrow> server \<Rightarrow> bool" where
  "server_inv base y \<longleftrightarrow>
     y_acked y = y_applied y @ ch_queue (tx (y_ingest y))
     \<and> length (ch_queue (tx (y_ingest y))) \<le> ch_capacity (tx (y_ingest y)) \<and> ch_capacity (tx (y_ingest y)) = 1024
     \<and> reject_log_wf (rejects (receiver (y_ingest y)))
     \<and> w_seq (y_writer y) = of_nat (length (y_applied y))
     \<and> arrivals_total (arrivals (receiver (y_ingest y))) = of_nat (sum_list (map (length \<circ> sb_spans) (y_acked y)))
     \<and> (\<forall>b \<in> set (y_acked y). batch_ids_wf b)
     \<and> (base + attrs_total (y_applied y) < 2 ^ 32 \<longrightarrow>
          store_ids_wf (w_store (y_writer y))
          \<and> store_inv (base + attrs_total (y_applied y)) (w_store (y_writer y))
          \<and> within_budget (w_store (y_writer y))
          \<and> malformed_span (s_counters (w_store (y_writer y)))
              = of_nat (sum_list (map sb_malformed_span_count (y_applied y))))"

lemma seed_spec:
  assumes "iterates ord"
  shows "\<exists>s'. seed ord (store_new budget) = Some s' \<and> store_inv 2 s' \<and> within_budget s'
    \<and> malformed_span (s_counters s') = 0 \<and> store_ids_wf s'"
  using seed_result [OF assms, of budget] by (auto simp: within_budget_def)

lemma server_inv_start:
  assumes "iterates ord" "build_server ord budget timeout demo = Some y"
  shows "server_inv (if demo then 2 else 0) y"
proof -
  obtain s where s: "(if demo then seed ord (store_new budget) else Some (store_new budget)) = Some s"
    "y = \<lparr>y_ingest = ingest_state_new \<lparr>ch_queue = [], ch_capacity = 1024, ch_open = True\<rparr> receiver_default timeout,
          y_writer = spawn_writer s, y_acked = [], y_applied = []\<rparr>"
    using assms(2) by (auto simp: build_server_def Let_def split: Option.bind_splits)
  have "store_inv (if demo then 2 else 0) s \<and> within_budget s \<and> malformed_span (s_counters s) = 0 \<and> store_ids_wf s"
  proof (cases demo)
    case True
    with s(1) seed_spec [OF assms(1), of budget] show ?thesis by auto
  next
    case False
    with s(1) store_inv_new [of 0 budget] show ?thesis
      by (auto simp: within_budget_def) (simp_all add: store_new_def trace_def trace_count_def counters_default_def store_ids_wf_def)
  qed
  then show ?thesis
    by (simp add: server_inv_def s(2) ingest_state_new_def spawn_writer_def)
      (simp add: receiver_default_def arrivals_total_def wf_simps)
qed

text \<open>Serving a request, whichever the transport.\<close>
lemma server_inv_serve:
  assumes inv: "server_inv base y" and env: "bounded_channel env"
    and a: "accept env clock (y_ingest y) req t = (st, r)"
  shows "server_inv base (y\<lparr>y_ingest := st, y_acked := y_acked y @ newly_acked (wire_class_of r) req\<rparr>)"
proof -
  have del: "delivers ch_queue env" using env by (simp add: bounded_channel_def)
  note e = accept_effect [OF a del]
  have cap: "ch_capacity (tx st) = ch_capacity (tx (y_ingest y))
      \<and> (length (ch_queue (tx (y_ingest y))) \<le> ch_capacity (tx (y_ingest y)) \<longrightarrow>
         length (ch_queue (tx st)) \<le> ch_capacity (tx st))"
    using e(4)
  proof
    assume "\<exists>b. tx st = fst (timeout_send env (ingest_timeout (y_ingest y)) (tx (y_ingest y)) b)"
    then obtain b where b: "tx st = fst (timeout_send env (ingest_timeout (y_ingest y)) (tx (y_ingest y)) b)" by blast
    obtain ch' o' where o: "timeout_send env (ingest_timeout (y_ingest y)) (tx (y_ingest y)) b = (ch', o')" by fastforce
    from env o have "ch_capacity ch' = ch_capacity (tx (y_ingest y))"
      "o' = Sent \<longrightarrow> length (ch_queue (tx (y_ingest y))) < ch_capacity (tx (y_ingest y))"
      unfolding bounded_channel_def by (metis fst_conv snd_conv)+
    with delivers_queued [OF del o] b o show ?thesis by auto
  qed simp
  have "\<forall>b \<in> set (newly_acked (wire_class_of r) req). batch_ids_wf b" by (simp add: newly_acked_def batch_of_ids_wf)
  with inv e(1,2,3) cap show ?thesis by (auto simp: server_inv_def)
qed

lemma server_inv_apply:
  assumes inv: "server_inv base y" and q: "ch_queue (tx (y_ingest y)) = b # bs" and ord: "iterates ord"
    and ap: "apply_batch ord clock (y_writer y) b = Some w"
  shows "server_inv base (y\<lparr>y_ingest := (y_ingest y)\<lparr>tx := (tx (y_ingest y))\<lparr>ch_queue := bs\<rparr>\<rparr>,
      y_writer := w, y_applied := y_applied y @ [b]\<rparr>)"
proof -
  let ?n = "base + attrs_total (y_applied y)"
  have seq: "w_seq w = w_seq (y_writer y) + 1"
    using ap by (auto simp: apply_batch_def Let_def split: Option.bind_splits)
  have "store_inv (?n + batch_attrs b) (w_store w) \<and> within_budget (w_store w)
      \<and> malformed_span (s_counters (w_store w))
        = of_nat (sum_list (map sb_malformed_span_count (y_applied y @ [b])))"
    if room: "?n + batch_attrs b < 2 ^ 32"
  proof -
    from inv room have st: "store_inv ?n (w_store (y_writer y))" "within_budget (w_store (y_writer y))"
      and m: "malformed_span (s_counters (w_store (y_writer y)))
        = of_nat (sum_list (map sb_malformed_span_count (y_applied y)))" by (auto simp: server_inv_def)
    have one: "run (y_writer y) [(ord, clock, b)] = Some w" using ap by (simp add: run_def)
    from run_ok [of "[(ord, clock, b)]" ?n "y_writer y"] ord st room one
    show ?thesis by (auto simp: arrival_attrs_def arrival_malformed_def m)
  qed
  moreover have "store_ids_wf (w_store w)" if room: "?n + batch_attrs b < 2 ^ 32"
  proof -
    from inv room have st: "store_inv ?n (w_store (y_writer y))" "store_ids_wf (w_store (y_writer y))"
      by (auto simp: server_inv_def)
    have "batch_ids_wf b" using inv q by (simp add: server_inv_def)
    then have "\<forall>x \<in> set (sb_spans b). span_ids_wf x" by (simp add: batch_ids_wf_def)
    then show ?thesis by (rule apply_batch_ids_wf [OF ord st(1) room ap st(2)])
  qed
  ultimately show ?thesis using inv q seq by (simp add: server_inv_def add.assoc)
qed

lemma server_inv_step:
  assumes "server_inv base y" "bounded_channel env" "server_step env y y'"
  shows "server_inv base y'"
  using assms(3)
proof (cases rule: server_stepE)
  case (serve_grpc clock req st reply)
  obtain st1 r where a: "accept env clock (y_ingest y) req GrpcV4317 = (st1, r)" by fastforce
  from grpc.export_decoded [OF refl a] serve_grpc have "st = st1" "grpc_class reply = wire_class_of r" by simp_all
  with server_inv_serve [OF assms(1,2) a] serve_grpc show ?thesis by simp
next
  case (serve_http clock header bytes st resp)
  show ?thesis
  proof (cases "http_decoded env (header, bytes)")
    case None
    from http.export_undecoded [OF None, of clock "y_ingest y"] serve_http have "st = y_ingest y" by simp
    with None serve_http assms(1) show ?thesis by simp
  next
    case (Some qt)
    obtain req t where qt: "qt = (req, t)" by fastforce
    obtain st1 r where a: "accept env clock (y_ingest y) req t = (st1, r)" by fastforce
    from http.export_decoded [OF Some [unfolded qt] a] serve_http have "st = st1" "http_class resp = wire_class_of r" by simp_all
    with server_inv_serve [OF assms(1,2) a] serve_http Some qt show ?thesis by simp
  qed
next
  case (apply_next b bs ord clock w)
  with server_inv_apply [OF assms(1)] apply_next show ?thesis by simp
qed

lemma server_inv_reachable:
  "reachable env y0 y \<Longrightarrow> bounded_channel env \<Longrightarrow> server_inv base y0 \<Longrightarrow> server_inv base y"
  by (induction rule: reachable.induct) (auto intro: server_inv_step)

section \<open>A server that stays within its budget\<close>

definition bytes_total :: "span_batch list \<Rightarrow> nat" where
  "bytes_total bs = sum_list (map batch_bytes bs)"

definition applied_keys :: "server \<Rightarrow> (trace_id \<times> span_id) list" where
  "applied_keys y = keys_of (concat (map sb_spans (y_applied y)))"

lemma keys_of_append [simp]: "keys_of (xs @ ys) = keys_of xs @ keys_of ys"
  by (simp add: keys_of_def)

text \<open>Of a server started with an empty store: while all it applied fits the budget, the store is the plain
  accumulation of the spans.\<close>
definition capacity_inv :: "nat \<Rightarrow> server \<Rightarrow> bool" where
  "capacity_inv budget y \<longleftrightarrow>
     (attrs_total (y_applied y) < 2 ^ 32 \<longrightarrow>
        s_max_memory_bytes (w_store (y_writer y)) = budget
        \<and> (bytes_total (y_applied y) \<le> budget \<longrightarrow>
             resident_ids (w_store (y_writer y)) = foldl abs_put (\<lambda>_. []) (applied_keys y)
             \<and> store_bytes (w_store (y_writer y)) \<le> bytes_total (y_applied y)
             \<and> evicted_traces (s_counters (w_store (y_writer y))) = 0))"

lemma capacity_inv_start:
  assumes "build_server ord budget timeout False = Some y"
  shows "capacity_inv budget y"
  using assms
  by (auto simp: build_server_def capacity_inv_def spawn_writer_def store_new_def resident_ids_def trace_def
      applied_keys_def keys_of_def bytes_total_def store_bytes_def counters_default_def fun_eq_iff)

lemma capacity_inv_apply:
  assumes inv: "server_inv 0 y" and cap: "capacity_inv budget y" and ord: "iterates ord"
    and ap: "apply_batch ord clock (y_writer y) b = Some w"
    and y': "y_writer y' = w" "y_applied y' = y_applied y @ [b]"
  shows "capacity_inv budget y'"
proof (cases "attrs_total (y_applied y) + batch_attrs b < 2 ^ 32")
  case True
  then have st: "store_inv (attrs_total (y_applied y)) (w_store (y_writer y))" using inv by (simp add: server_inv_def)
  from cap True have mx: "s_max_memory_bytes (w_store (y_writer y)) = budget" by (simp add: capacity_inv_def)
  have mx': "s_max_memory_bytes (w_store w) = budget" using apply_batch_budget [OF ord st True ap] mx by simp
  show ?thesis
  proof (cases "bytes_total (y_applied y) + batch_bytes b \<le> budget")
    case fits: True
    from cap True fits have c: "resident_ids (w_store (y_writer y)) = foldl abs_put (\<lambda>_. []) (applied_keys y)"
      "store_bytes (w_store (y_writer y)) \<le> bytes_total (y_applied y)"
      "evicted_traces (s_counters (w_store (y_writer y))) = 0" by (auto simp: capacity_inv_def)
    have "store_bytes (w_store (y_writer y)) + batch_bytes b \<le> s_max_memory_bytes (w_store (y_writer y))"
      using c(2) fits mx by simp
    note f = apply_batch_fits [OF ord st True this ap]
    show ?thesis using c f mx' by (simp add: capacity_inv_def y' applied_keys_def bytes_total_def)
  next
    case False
    then show ?thesis using mx' by (simp add: capacity_inv_def y' bytes_total_def)
  qed
next
  case False
  then show ?thesis by (simp add: capacity_inv_def y')
qed

lemma capacity_inv_step:
  assumes "server_inv 0 y" "capacity_inv budget y" "server_step env y y'"
  shows "capacity_inv budget y'"
  using assms(3)
proof (cases rule: server_stepE)
  case (apply_next b bs ord clock w)
  then show ?thesis by (intro capacity_inv_apply [OF assms(1,2)]) simp_all
qed (use assms(2) in \<open>simp_all add: capacity_inv_def applied_keys_def\<close>)

lemma capacity_inv_reachable:
  assumes "reachable env y0 y" "bounded_channel env" "server_inv 0 y0" "capacity_inv budget y0"
  shows "capacity_inv budget y"
  using assms(1)
proof (induction rule: reachable.induct)
  case start
  show ?case by (rule assms(4))
next
  case (step y y')
  then show ?case using server_inv_reachable [OF step.hyps(1) assms(2,3)] capacity_inv_step by blast
qed

section \<open>Progress of the writer\<close>

text \<open>The steps of the writer alone.\<close>
inductive writer_steps :: "channel ingest_env \<Rightarrow> server \<Rightarrow> server \<Rightarrow> bool" for env where
  idle: "writer_steps env y y"
| more: "server_step env y y1 \<Longrightarrow> y_acked y1 = y_acked y \<Longrightarrow>
    length (y_applied y1) = Suc (length (y_applied y)) \<Longrightarrow> writer_steps env y1 y2 \<Longrightarrow> writer_steps env y y2"

lemma writer_not_stuck:
  assumes inv: "server_inv base y" and q: "ch_queue (tx (y_ingest y)) = b # bs" and "iterates ord"
    and room: "base + attrs_total (y_applied y) + batch_attrs b < 2 ^ 32"
  shows "\<exists>w. apply_batch ord clock (y_writer y) b = Some w"
proof -
  have "store_inv (base + attrs_total (y_applied y)) (w_store (y_writer y))"
    using inv room by (simp add: server_inv_def)
  with assms(3) obtain w' where "apply_batch ord clock (y_writer y) b = Some w'"
    using room by (rule apply_batch_effect [where clock = clock])
  then show ?thesis by blast
qed

lemma writer_drains_queue:
  assumes "server_inv base y" "bounded_channel env" "base + attrs_total (y_acked y) < 2 ^ 32"
  shows "\<exists>y'. writer_steps env y y' \<and> ch_queue (tx (y_ingest y')) = [] \<and> y_applied y' = y_acked y
    \<and> y_acked y' = y_acked y \<and> server_inv base y'"
  using assms(1,3)
proof (induction "ch_queue (tx (y_ingest y))" arbitrary: y)
  case Nil
  then have "y_applied y = y_acked y" by (simp add: server_inv_def)
  with Nil show ?case by (intro exI [of _ y]) (auto intro: writer_steps.idle)
next
  case (Cons b bs)
  have q: "ch_queue (tx (y_ingest y)) = b # bs" using Cons.hyps(2) by simp
  have acked: "y_acked y = y_applied y @ b # bs" using Cons.prems(1) q by (simp add: server_inv_def)
  with Cons.prems(2) have room: "base + attrs_total (y_applied y) + batch_attrs b < 2 ^ 32" by simp
  from writer_not_stuck [OF Cons.prems(1) q iterates_id room, of None] obtain w where
    w: "apply_batch id None (y_writer y) b = Some w" by blast
  let ?y = "y\<lparr>y_ingest := (y_ingest y)\<lparr>tx := (tx (y_ingest y))\<lparr>ch_queue := bs\<rparr>\<rparr>,
      y_writer := w, y_applied := y_applied y @ [b]\<rparr>"
  have step: "server_step env y ?y" by (rule server_step.apply_next [OF q iterates_id w])
  have inv: "server_inv base ?y" by (rule server_inv_apply [OF Cons.prems(1) q iterates_id w])
  from Cons.hyps(1) [of ?y] inv Cons.prems(2) obtain y' where
    y': "writer_steps env ?y y'" "ch_queue (tx (y_ingest y')) = []" "y_applied y' = y_acked y" "y_acked y' = y_acked y"
      "server_inv base y'" by auto
  have "writer_steps env y y'" by (rule writer_steps.more [OF step _ _ y'(1)]) simp_all
  with y' show ?case by blast
qed

lemma writer_steps_reachable: "writer_steps env y y' \<Longrightarrow> reachable env y0 y \<Longrightarrow> reachable env y0 y'"
  by (induction rule: writer_steps.induct) (auto intro: reachable.step)

section \<open>A sample run\<close>

lemma bounded_channel_sample: "bounded_channel sample_env"
  using delivers_sample by (simp add: bounded_channel_def sample_env_def bounded_send_def)

lemma build_server_plain: "build_server ord budget timeout False =
  Some \<lparr>y_ingest = ingest_state_new \<lparr>ch_queue = [], ch_capacity = 1024, ch_open = True\<rparr> receiver_default timeout,
    y_writer = spawn_writer (store_new budget), y_acked = [], y_applied = []\<rparr>"
  by (simp add: build_server_def)

text \<open>A request with one span, served over gRPC by a fresh server.\<close>
lemma sample_served:
  obtains y0 y where "build_server rev 1000 10 False = Some y0" "reachable sample_env y0 y"
    "ch_queue (tx (y_ingest y)) = [batch_of sample_request]" "y_acked y = [batch_of sample_request]" "y_applied y = []"
    "y_writer y = y_writer y0"
proof -
  obtain y0 where y0: "build_server rev 1000 10 False = Some y0" by (simp add: build_server_plain)
  then have q: "tx (y_ingest y0) = \<lparr>ch_queue = [], ch_capacity = 1024, ch_open = True\<rparr>" "y_acked y0 = []" "y_applied y0 = []"
    by (auto simp: build_server_plain ingest_state_new_def)
  have spans: "request_spans sample_request \<noteq> []" and inj: "\<not> injected (panic_injection sample_env) sample_request"
    by (simp_all add: sample_request_def request_spans_def injected_def sample_env_def)
  have send: "timeout_send sample_env (ingest_timeout (y_ingest y0)) (tx (y_ingest y0)) (batch_of sample_request)
      = (\<lparr>ch_queue = [batch_of sample_request], ch_capacity = 1024, ch_open = True\<rparr>, Sent)"
    by (simp add: q sample_env_def bounded_send_def)
  obtain st reply where g: "grpc_export sample_env (Some 7) (y_ingest y0) sample_request = (st, reply)" by fastforce
  then have st: "ch_queue (tx st) = [batch_of sample_request]" "grpc_class reply = Acknowledged"
    by (auto simp: grpc_export_def accept_batch [OF inj spans send] grpc_class_def grpc_reply_of_def)
  from server_step.serve_grpc [OF g] have
    "reachable sample_env y0 (y0\<lparr>y_ingest := st, y_acked := y_acked y0 @ newly_acked (grpc_class reply) sample_request\<rparr>)"
    by (rule reachable.step [OF reachable.start])
  with y0 st q spans show thesis
    by (intro that [of y0 "y0\<lparr>y_ingest := st, y_acked := [batch_of sample_request]\<rparr>"]) (simp_all add: newly_acked_def)
qed

lemma sample_batch_size:
  "batch_attrs (batch_of sample_request) = 0" "batch_bytes (batch_of sample_request) \<le> 1000"
  "keys_of (sb_spans (batch_of sample_request)) = [(TraceId (replicate 16 1), SpanId (replicate 8 2))]"
  by (simp_all add: batch_attrs_def batch_bytes_def span_bytes_def batch_of_def sample_request_def request_spans_def
      convert_one_def APPROX_SPAN_FIXED_BYTES_def APPROX_ATTR_FIXED_BYTES_def List.map_filter_simps keys_of_def)

text \<open>The same server once the writer has caught up.\<close>
lemma sample_drained:
  obtains y0 y where "build_server rev 1000 10 False = Some y0" "reachable sample_env y0 y"
    "ch_queue (tx (y_ingest y)) = []" "y_acked y = [batch_of sample_request]" "y_applied y = [batch_of sample_request]"
    "resident_ids (w_store (y_writer y)) = (\<lambda>_. [])(TraceId (replicate 16 1) := [SpanId (replicate 8 2)])"
proof -
  obtain y0 y where y: "build_server rev 1000 10 False = Some y0" "reachable sample_env y0 y" "y_acked y = [batch_of sample_request]"
    by (rule sample_served)
  have inv0: "server_inv 0 y0" using server_inv_start [OF iterates_rev y(1)] by simp
  have "server_inv 0 y" by (rule server_inv_reachable [OF y(2) bounded_channel_sample inv0])
  from writer_drains_queue [OF this bounded_channel_sample] y(3) sample_batch_size(1) obtain y' where
    y': "writer_steps sample_env y y'" "ch_queue (tx (y_ingest y')) = []" "y_acked y' = [batch_of sample_request]"
      "y_applied y' = [batch_of sample_request]" by auto
  have r: "reachable sample_env y0 y'" using writer_steps_reachable [OF y'(1) y(2)] .
  from capacity_inv_reachable [OF r bounded_channel_sample inv0 capacity_inv_start [OF y(1)]] y'(4) sample_batch_size
  have "resident_ids (w_store (y_writer y')) = (\<lambda>_. [])(TraceId (replicate 16 1) := [SpanId (replicate 8 2)])"
    by (simp add: capacity_inv_def bytes_total_def applied_keys_def abs_put_def)
  with y(1) r y' show thesis by (intro that)
qed

end
