(* ===== verification/Rust_Float.thy ===== *)
theory Rust_Float
  imports Prelude Complex_Main
begin

text \<open>
  The part of \<open>f64\<close> the sources use: comparison (\<open>PartialEq\<close>, \<open>PartialOrd\<close>), the cast \<open>i64 as f64\<close>,
  \<open>str::parse::<f64>\<close> and \<open>Display\<close>.  An \<^typ>\<open>f64\<close> is its IEEE-754 bit pattern: a sign bit and a
  63-bit magnitude whose order is the order of the absolute values, with the infinity at
  \<open>2047 * 2^52\<close> and the NaNs above it.  Decimal input is rounded to nearest, ties to even, from the
  exact rational; \<open>Display\<close> prints the shortest decimal that rounds back, without an exponent.
\<close>

definition f64_negative :: "f64 \<Rightarrow> bool" where
  "f64_negative x \<longleftrightarrow> 2 ^ 63 \<le> unat x"

definition f64_mag :: "f64 \<Rightarrow> nat" where
  "f64_mag x = unat x mod 2 ^ 63"

definition inf_mag :: nat where "inf_mag = 2047 * 2 ^ 52"

definition is_nan :: "f64 \<Rightarrow> bool" where
  "is_nan x \<longleftrightarrow> inf_mag < f64_mag x"

definition f64_key :: "f64 \<Rightarrow> int" where
  "f64_key x = (if f64_negative x then - int (f64_mag x) else int (f64_mag x))"

definition f64_eq :: "f64 \<Rightarrow> f64 \<Rightarrow> bool" where
  "f64_eq x y \<longleftrightarrow> \<not> is_nan x \<and> \<not> is_nan y \<and> f64_key x = f64_key y"

definition f64_lt :: "f64 \<Rightarrow> f64 \<Rightarrow> bool" where
  "f64_lt x y \<longleftrightarrow> \<not> is_nan x \<and> \<not> is_nan y \<and> f64_key x < f64_key y"

definition f64_le :: "f64 \<Rightarrow> f64 \<Rightarrow> bool" where
  "f64_le x y \<longleftrightarrow> \<not> is_nan x \<and> \<not> is_nan y \<and> f64_key x \<le> f64_key y"

definition f64_of :: "bool \<Rightarrow> nat \<Rightarrow> f64" where
  "f64_of negative mag = of_nat (mag + (if negative then 2 ^ 63 else 0))"

lemma f64_of_sel:
  assumes "mag < 2 ^ 63"
  shows "f64_mag (f64_of neg mag) = mag" "f64_negative (f64_of neg mag) = neg"
proof -
  have "unat (f64_of neg mag) = mag + (if neg then 2 ^ 63 else 0)"
    using assms unfolding f64_of_def by (subst unat_of_nat) (simp add: take_bit_nat_def)
  with assms show "f64_mag (f64_of neg mag) = mag" "f64_negative (f64_of neg mag) = neg"
    by (simp_all add: f64_mag_def f64_negative_def)
qed

lemma f64_of_cases: "x = f64_of (f64_negative x) (f64_mag x)" "f64_mag x < 2 ^ 63"
proof -
  have lt: "unat x < 2 ^ 64" using unsigned_less [of x] by simp
  have "unat x = f64_mag x + (if f64_negative x then 2 ^ 63 else 0)"
  proof (cases "2 ^ 63 \<le> unat x")
    case True
    then have "unat x mod 2 ^ 63 = unat x - 2 ^ 63" using lt
      by (subst le_mod_geq) (simp_all add: mod_less)
    with True show ?thesis by (simp add: f64_mag_def f64_negative_def)
  qed (simp add: f64_mag_def f64_negative_def)
  moreover have "x = of_nat (unat x)" by simp
  ultimately show "x = f64_of (f64_negative x) (f64_mag x)" by (simp only: f64_of_def)
  show "f64_mag x < 2 ^ 63" by (simp add: f64_mag_def)
qed

section \<open>Rounding to nearest, ties to even\<close>

text \<open>\<open>round_div p q\<close> is the integer nearest to \<open>p / q\<close>, the even one on a tie.\<close>
definition round_div :: "nat \<Rightarrow> nat \<Rightarrow> nat" where
  "round_div p q =
    (let d = p div q; r = 2 * (p mod q)
     in if q < r \<or> r = q \<and> odd d then d + 1 else d)"

text \<open>Number of binary digits.\<close>
fun bit_len :: "nat \<Rightarrow> nat" where
  "bit_len n = (if n = 0 then 0 else Suc (bit_len (n div 2)))"

declare bit_len.simps [simp del]

text \<open>The least positive magnitude is \<open>2 ^ - 1074\<close>.\<close>
definition bias :: nat where "bias = 1074"

text \<open>The scale of \<open>p / q\<close>: the exponent \<open>k \<ge> - 1074\<close>, offset by 1074, for which the rounded
  quotient \<open>p / (q * 2 ^ k)\<close> has at most 53 bits.\<close>
definition scale_of :: "nat \<Rightarrow> nat \<Rightarrow> nat" where
  "scale_of p q =
    (let e = int (bit_len p) - int (bit_len q);
         floor_log = (if (if 0 \<le> e then q * 2 ^ nat e \<le> p else q \<le> p * 2 ^ nat (- e)) then e else e - 1)
     in nat (floor_log - 52 + int bias))"

text \<open>The magnitude of the \<open>f64\<close> nearest to \<open>p / q\<close>.\<close>
definition round_mag :: "nat \<Rightarrow> nat \<Rightarrow> nat" where
  "round_mag p q =
    (if p = 0 then 0
     else let s = scale_of p q;
              m = round_div (p * 2 ^ bias) (q * 2 ^ s)
          in min inf_mag (s * 2 ^ 52 + m))"

text \<open>\<open>i as f64\<close>\<close>
definition i64_as_f64 :: "i64 \<Rightarrow> f64" where
  "i64_as_f64 i = f64_of (sint i < 0) (round_mag (nat \<bar>sint i\<bar>) 1)"

section \<open>Parsing\<close>

fun split_digits :: "string \<Rightarrow> string \<times> string" where
  "split_digits [] = ([], [])"
| "split_digits (c # cs) =
    (if to_digit 10 c \<noteq> None then (case split_digits cs of (ds, rest) \<Rightarrow> (c # ds, rest)) else ([], c # cs))"

definition dec_value :: "string \<Rightarrow> nat" where
  "dec_value ds = (case digits_val 10 0 ds of Some n \<Rightarrow> n | None \<Rightarrow> 0)"

definition ascii_lower :: "char \<Rightarrow> char" where
  "ascii_lower c = (if 65 \<le> byte c \<and> byte c \<le> 90 then char_of (byte c + 32) else c)"

text \<open>An optional sign.\<close>
definition split_sign :: "string \<Rightarrow> bool \<times> string" where
  "split_sign s =
    (case s of
       [] \<Rightarrow> (False, [])
     | c # cs \<Rightarrow> if c = CHR ''-'' then (True, cs) else if c = CHR ''+'' then (False, cs) else (False, s))"

text \<open>The exponent part: nothing, or \<open>e\<close>, an optional sign and digits to the end.\<close>
definition parse_exponent :: "string \<Rightarrow> int option" where
  "parse_exponent s =
    (case s of
       [] \<Rightarrow> Some 0
     | c # cs \<Rightarrow>
         if ascii_lower c \<noteq> CHR ''e'' then None
         else let (neg, ds) = split_sign cs
              in if ds = [] \<or> snd (split_digits ds) \<noteq> [] then None
                 else Some (if neg then - int (dec_value ds) else int (dec_value ds)))"

text \<open>\<open>mantissa * 10 ^ exponent\<close>, rounded.\<close>
definition round_dec :: "nat \<Rightarrow> int \<Rightarrow> nat" where
  "round_dec m e = (if 0 \<le> e then round_mag (m * 10 ^ nat e) 1 else round_mag m (10 ^ nat (- e)))"

definition parse_number :: "string \<Rightarrow> nat option" where
  "parse_number s =
    (let (int_digits, rest) = split_digits s;
         (frac_digits, rest') = (case rest of
             [] \<Rightarrow> ([], [])
           | c # cs \<Rightarrow> if c = CHR ''.'' then split_digits cs else ([], rest))
     in if int_digits @ frac_digits = [] then None
        else do { e \<leftarrow> parse_exponent rest';
                  Some (round_dec (dec_value (int_digits @ frac_digits)) (e - int (length frac_digits))) })"

definition parse_f64 :: "string \<Rightarrow> f64 option" where
  "parse_f64 s =
    (let (neg, body) = split_sign s;
         word = map ascii_lower body
     in if word = ''inf'' \<or> word = ''infinity'' then Some (f64_of neg inf_mag)
        else if word = ''nan'' then Some (f64_of neg (inf_mag + 2 ^ 51))
        else map_option (f64_of neg) (parse_number body))"

section \<open>Printing\<close>

text \<open>Value of a finite magnitude, times \<open>2 ^ bias\<close>.\<close>
definition mag_units :: "nat \<Rightarrow> nat" where
  "mag_units mag =
    (let e = mag div 2 ^ 52; f = mag mod 2 ^ 52
     in if e = 0 then f else (2 ^ 52 + f) * 2 ^ (e - 1))"

text \<open>Floor of the value divided by \<open>10 ^ e\<close>, and twice the remainder compared with the divisor:
  the two decimal candidates with last digit at \<open>10 ^ e\<close> and which is nearer (the upper on a tie).\<close>
definition dec_candidates :: "nat \<Rightarrow> int \<Rightarrow> nat \<times> bool" where
  "dec_candidates mag e =
    (let (p, q) = (if 0 \<le> e then (mag_units mag, 2 ^ bias * 10 ^ nat e)
                   else (mag_units mag * 10 ^ nat (- e), 2 ^ bias))
     in (p div q, q \<le> 2 * (p mod q)))"

definition shortest_at :: "nat \<Rightarrow> int \<Rightarrow> nat option" where
  "shortest_at mag e =
    (let (lo, upper_nearer) = dec_candidates mag e;
         down = (round_dec lo e = mag); up = (round_dec (lo + 1) e = mag)
     in if up \<and> (\<not> down \<or> upper_nearer) then Some (lo + 1)
        else if down then Some lo else None)"

text \<open>The digits and exponent of the shortest decimal that rounds to the magnitude, trying the
  exponents downwards from 309.\<close>
fun shortest_from :: "nat \<Rightarrow> nat \<Rightarrow> nat \<times> int" where
  "shortest_from mag n =
    (let e = int n - int bias
     in case shortest_at mag e of
          Some d \<Rightarrow> (d, e)
        | None \<Rightarrow> if n = 0 then (0, 0) else shortest_from mag (n - 1))"

declare shortest_from.simps [simp del]

definition display_dec :: "nat \<Rightarrow> int \<Rightarrow> string" where
  "display_dec d e =
    (let ds = nat_to_string d
     in if 0 \<le> e then ds @ replicate (nat e) (CHR ''0'')
        else let k = nat (- e);
                 padded = replicate (Suc k - length ds) (CHR ''0'') @ ds
             in take (length padded - k) padded @ ''.'' @ drop (length padded - k) padded)"

definition display_f64 :: "f64 \<Rightarrow> string" where
  "display_f64 x =
    (let mag = f64_mag x; sign = (if f64_negative x then ''-'' else [])
     in if inf_mag < mag then ''NaN''
        else if mag = inf_mag then sign @ ''inf''
        else if mag = 0 then sign @ ''0''
        else case shortest_from mag (bias + 309) of (d, e) \<Rightarrow> sign @ display_dec d e)"

section \<open>Rounding is exact on representable values\<close>

lemma bit_len_bounds: "0 < n \<Longrightarrow> n < 2 ^ bit_len n \<and> 2 ^ bit_len n \<le> 2 * n"
proof (induction n rule: bit_len.induct)
  case (1 n)
  have b: "bit_len n = Suc (bit_len (n div 2))" using 1(2) by (simp add: bit_len.simps [of n])
  show ?case
  proof (cases "n div 2 = 0")
    case True
    with 1(2) have "n = 1" by auto
    then show ?thesis by (simp add: bit_len.simps)
  next
    case False
    with 1 have IH: "n div 2 < 2 ^ bit_len (n div 2)" "2 ^ bit_len (n div 2) \<le> 2 * (n div 2)" by auto
    then have "n < 2 * 2 ^ bit_len (n div 2)" "2 * 2 ^ bit_len (n div 2) \<le> 2 * n" by linarith+
    then show ?thesis by (simp add: b)
  qed
qed

lemma bit_len_log:
  assumes "0 < n"
  shows "log 2 (real n) < bit_len n" "real (bit_len n) - 1 \<le> log 2 (real n)"
proof -
  note b = bit_len_bounds [OF assms]
  have "real n < 2 ^ bit_len n" using b by (metis of_nat_less_iff of_nat_numeral of_nat_power)
  then show "log 2 (real n) < bit_len n" using assms by (simp add: log_less_iff powr_realpow)
  have "real (2 ^ bit_len n) \<le> real (2 * n)" using b of_nat_le_iff by blast
  then have "log 2 (2 ^ bit_len n) \<le> log 2 (2 * real n)" using assms by (subst log_le_cancel_iff) auto
  then show "real (bit_len n) - 1 \<le> log 2 (real n)" using assms by (simp add: log_mult)
qed

lemma scale_of_eq:
  assumes "0 < p" "0 < q"
  shows "scale_of p q = nat (\<lfloor>log 2 (real p / real q)\<rfloor> - 52 + int bias)"
proof -
  define e where "e = int (bit_len p) - int (bit_len q)"
  define l where "l = log 2 (real p / real q)"
  have l: "l = log 2 (real p) - log 2 (real q)" using assms by (simp add: l_def log_divide)
  have bounds: "real_of_int e - 1 < l" "l < real_of_int e + 1"
    using bit_len_log [OF assms(1)] bit_len_log [OF assms(2)] by (simp_all add: e_def l)
  have ratio: "2 powr real_of_int e \<le> real p / real q \<longleftrightarrow> real_of_int e \<le> l"
    using assms by (simp add: l_def le_log_iff)
  have test: "(if 0 \<le> e then q * 2 ^ nat e \<le> p else q \<le> p * 2 ^ nat (- e)) \<longleftrightarrow> real_of_int e \<le> l"
  proof (cases "0 \<le> e")
    case True
    then have "2 powr real_of_int e = real (2 ^ nat e)" by (simp add: powr_real_of_int)
    then have "2 powr real_of_int e \<le> real p / real q \<longleftrightarrow> real (q * 2 ^ nat e) \<le> real p"
      using assms by (simp add: pos_le_divide_eq mult.commute)
    also have "\<dots> \<longleftrightarrow> q * 2 ^ nat e \<le> p" by (rule of_nat_le_iff)
    finally show ?thesis using True ratio by simp
  next
    case False
    then have "2 powr real_of_int e = inverse (2 ^ nat (- e))" by (simp add: powr_real_of_int)
    then have "2 powr real_of_int e \<le> real p / real q \<longleftrightarrow> inverse (2 ^ nat (- e)) * real q \<le> real p"
      using assms by (simp add: pos_le_divide_eq)
    also have "\<dots> \<longleftrightarrow> real q \<le> real (p * 2 ^ nat (- e))"
      by (simp add: pos_divide_le_eq flip: divide_inverse_commute)
    also have "\<dots> \<longleftrightarrow> q \<le> p * 2 ^ nat (- e)" by (rule of_nat_le_iff)
    finally show ?thesis using False ratio by simp
  qed
  have "\<lfloor>l\<rfloor> = (if real_of_int e \<le> l then e else e - 1)"
    using bounds by (auto simp: floor_eq_iff)
  then show ?thesis unfolding scale_of_def Let_def e_def [symmetric] l_def [symmetric] by (simp only: test)
qed

lemma round_div_scale: "0 < c \<Longrightarrow> round_div (c * p) (c * q) = round_div p q"
  by (simp add: round_div_def Let_def mult.left_commute [of 2])

lemma round_div_exact: "0 < q \<Longrightarrow> round_div (m * q) q = m"
  by (simp add: round_div_def Let_def)

lemma round_mag_scale:
  assumes "0 < c" "0 < q"
  shows "round_mag (c * p) (c * q) = round_mag p q"
proof (cases "p = 0")
  case False
  with assms have "scale_of (c * p) (c * q) = scale_of p q" by (simp add: scale_of_eq)
  with False assms round_div_scale [of c "p * 2 ^ bias" "q * 2 ^ scale_of p q"] show ?thesis
    by (simp add: round_mag_def Let_def mult.assoc)
qed (simp add: round_mag_def)

text \<open>A value \<open>m * 2 ^ (s - bias)\<close> with a mantissa in range rounds to itself.\<close>
lemma round_mag_value:
  assumes "0 < m" "m < 2 ^ 53" "2 ^ 52 \<le> m \<or> s = 0" "s * 2 ^ 52 + m \<le> inf_mag"
  shows "round_mag (m * 2 ^ s) (2 ^ bias) = s * 2 ^ 52 + m"
proof -
  have l: "log 2 (real (m * 2 ^ s) / real (2 ^ bias)) = log 2 (real m) + real s - real bias"
    using assms(1) by (simp add: log_divide log_mult)
  have up: "log 2 (real m) < 53"
  proof -
    have "real m < 2 ^ 53" using assms(2) by (metis of_nat_less_iff of_nat_numeral of_nat_power)
    then show ?thesis using assms(1) by (simp add: log_less_iff powr_numeral)
  qed
  have scale: "scale_of (m * 2 ^ s) (2 ^ bias) = s"
  proof (cases "2 ^ 52 \<le> m")
    case True
    then have "real (2 ^ 52) \<le> real m" by (rule of_nat_mono)
    then have "52 \<le> log 2 (real m)" using assms(1) by (simp add: le_log_iff powr_numeral)
    with up have "\<lfloor>log 2 (real m) + real s - real bias\<rfloor> = 52 + int s - int bias"
      by (simp add: floor_eq_iff)
    with assms(1) l show ?thesis by (simp add: scale_of_eq)
  next
    case False
    then have "real m < 2 ^ 52" by (metis not_le of_nat_less_iff of_nat_numeral of_nat_power)
    then have "log 2 (real m) < 52" using assms(1) by (simp add: log_less_iff powr_numeral)
    with False assms(3) l have "\<lfloor>log 2 (real (m * 2 ^ s) / real (2 ^ bias))\<rfloor> < 52 - int bias"
      by (simp add: floor_less_iff)
    with assms False show ?thesis by (simp add: scale_of_eq)
  qed
  have "round_div (m * 2 ^ s * 2 ^ bias) (2 ^ bias * 2 ^ s) = m"
    using round_div_exact [of "2 ^ bias * 2 ^ s" m] by (simp add: mult_ac)
  with scale assms(1,4) show ?thesis by (simp add: round_mag_def Let_def)
qed

lemma round_mag_exact:
  assumes "mag < inf_mag"
  shows "round_mag (mag_units mag) (2 ^ bias) = mag"
proof (cases "mag div 2 ^ 52 = 0")
  case True
  then have small: "mag < 2 ^ 52" by (simp add: div_eq_0_iff)
  show ?thesis
  proof (cases "mag = 0")
    case False
    with round_mag_value [of mag 0] small assms show ?thesis by (simp add: mag_units_def)
  qed (simp add: mag_units_def round_mag_def)
next
  case False
  then obtain e where e: "mag div 2 ^ 52 = Suc e" using not0_implies_Suc by blast
  define f where "f = mag mod 2 ^ 52"
  have "mag div 2 ^ 52 * 2 ^ 52 + f = mag" unfolding f_def by (rule div_mult_mod_eq)
  then have eq: "e * 2 ^ 52 + (2 ^ 52 + f) = mag" unfolding e by simp
  have f: "f < 2 ^ 52" unfolding f_def by simp
  have "round_mag ((2 ^ 52 + f) * 2 ^ e) (2 ^ bias) = e * 2 ^ 52 + (2 ^ 52 + f)"
    by (rule round_mag_value) (use f eq assms in simp_all)
  then show ?thesis unfolding mag_units_def Let_def e f_def [symmetric] eq by simp
qed

section \<open>Printing then parsing\<close>

lemma shortest_at_Some: "shortest_at mag e = Some d \<Longrightarrow> round_dec d e = mag"
  by (auto simp: shortest_at_def Let_def split: prod.splits if_splits)

lemma shortest_at_last:
  assumes "mag < inf_mag"
  shows "shortest_at mag (- int bias) \<noteq> None"
proof -
  have ten: "(10 :: nat) ^ bias = 5 ^ bias * 2 ^ bias" by (simp flip: power_mult_distrib)
  have neg: "\<not> 0 \<le> - int bias" by (simp add: bias_def)
  have "fst (dec_candidates mag (- int bias)) = mag_units mag * 10 ^ bias div 2 ^ bias"
    unfolding dec_candidates_def using neg by (simp add: Let_def)
  also have "\<dots> = 5 ^ bias * mag_units mag" unfolding ten by simp
  finally have lo: "fst (dec_candidates mag (- int bias)) = 5 ^ bias * mag_units mag" .
  have "round_dec (5 ^ bias * mag_units mag) (- int bias) = round_mag (5 ^ bias * mag_units mag) (5 ^ bias * 2 ^ bias)"
    unfolding round_dec_def using neg ten by simp
  also have "\<dots> = mag" using round_mag_exact [OF assms] by (simp add: round_mag_scale)
  finally show ?thesis using lo by (auto simp: shortest_at_def Let_def split: prod.splits)
qed

lemma shortest_from_rounds:
  assumes "mag < inf_mag"
  shows "shortest_from mag n = (d, e) \<Longrightarrow> round_dec d e = mag"
proof (induction n)
  case 0
  then show ?case using shortest_at_last [OF assms]
    by (subst (asm) shortest_from.simps) (auto simp: Let_def dest: shortest_at_Some)
next
  case (Suc n)
  then show ?case
    by (subst (asm) shortest_from.simps) (auto simp: Let_def split: option.splits dest: shortest_at_Some)
qed

definition all_digits :: "string \<Rightarrow> bool" where
  "all_digits s \<longleftrightarrow> (\<forall>c \<in> set s. to_digit 10 c \<noteq> None)"

lemma to_digit_char_of: "n < 10 \<Longrightarrow> to_digit 10 (char_of (48 + n)) = Some n"
  by (simp add: to_digit_def byte_def Let_def)

lemma digits_val_append: "digits_val r a (xs @ ys) = do { b \<leftarrow> digits_val r a xs; digits_val r b ys }"
  by (induction xs arbitrary: a) (auto split: Option.bind_split)

lemma all_digits_simps [simp]:
  "all_digits []" "all_digits (c # s) \<longleftrightarrow> to_digit 10 c \<noteq> None \<and> all_digits s"
  "all_digits (s @ t) \<longleftrightarrow> all_digits s \<and> all_digits t"
  by (auto simp: all_digits_def)

lemma nat_to_string_digits: "all_digits (nat_to_string n) \<and> nat_to_string n \<noteq> []"
proof (induction n rule: nat_to_string.induct)
  case (1 n)
  then show ?case
    by (subst nat_to_string.simps, subst (2) nat_to_string.simps) (auto simp: to_digit_char_of)
qed

lemma digits_val_nat: "digits_val 10 0 (nat_to_string n) = Some n"
proof (induction n rule: nat_to_string.induct)
  case (1 n)
  show ?case
  proof (cases "n < 10")
    case True
    then show ?thesis by (subst nat_to_string.simps) (simp add: to_digit_char_of)
  next
    case False
    with 1 show ?thesis by (subst nat_to_string.simps) (simp add: digits_val_append to_digit_char_of)
  qed
qed

lemma to_digit_0 [simp]: "to_digit 10 (CHR ''0'') = Some 0"
  by (simp add: to_digit_def byte_def Let_def)

lemma digits_val_zeros: "digits_val 10 a (replicate k (CHR ''0'')) = Some (a * 10 ^ k)"
  by (induction k arbitrary: a) (simp_all add: mult.assoc)

lemma digits_val_leading: "digits_val 10 0 (replicate k (CHR ''0'') @ ds) = digits_val 10 0 ds"
  by (simp add: digits_val_append digits_val_zeros)

lemma all_digits_zeros [simp]: "all_digits (replicate k (CHR ''0''))"
  by (simp add: all_digits_def)

lemma all_digits_take: "all_digits s \<Longrightarrow> all_digits (take n s) \<and> all_digits (drop n s)"
  by (auto simp: all_digits_def dest: in_set_takeD in_set_dropD)

lemma split_digits_append:
  "all_digits ds \<Longrightarrow> rest = [] \<or> to_digit 10 (hd rest) = None \<Longrightarrow> split_digits (ds @ rest) = (ds, rest)"
proof (induction ds)
  case Nil
  then show ?case by (cases rest) auto
qed simp

lemma parse_number_int:
  "all_digits ds \<Longrightarrow> ds \<noteq> [] \<Longrightarrow> parse_number ds = Some (round_dec (dec_value ds) 0)"
  using split_digits_append [of ds "[]"] by (simp add: parse_number_def parse_exponent_def)

lemma parse_number_frac:
  "all_digits ds \<Longrightarrow> all_digits fs \<Longrightarrow> fs \<noteq> [] \<Longrightarrow>
   parse_number (ds @ ''.'' @ fs) = Some (round_dec (dec_value (ds @ fs)) (- int (length fs)))"
  using split_digits_append [of ds "''.'' @ fs"] split_digits_append [of fs "[]"]
  by (simp add: parse_number_def parse_exponent_def to_digit_def byte_def)

lemma parse_number_display: "parse_number (display_dec d e) = Some (round_dec d e)"
proof (cases "0 \<le> e")
  case True
  have "digits_val 10 0 (display_dec d e) = Some (d * 10 ^ nat e)"
    using True by (simp add: display_dec_def Let_def digits_val_append digits_val_nat digits_val_zeros)
  then have "dec_value (display_dec d e) = d * 10 ^ nat e" by (simp add: dec_value_def)
  moreover have "all_digits (display_dec d e)" "display_dec d e \<noteq> []"
    using True nat_to_string_digits [of d] by (simp_all add: display_dec_def Let_def)
  ultimately show ?thesis using True by (simp add: parse_number_int) (simp add: round_dec_def)
next
  case False
  define k where "k = nat (- e)"
  define pd where "pd = replicate (Suc k - length (nat_to_string d)) (CHR ''0'') @ nat_to_string d"
  have disp: "display_dec d e = take (length pd - k) pd @ ''.'' @ drop (length pd - k) pd"
    using False by (simp add: display_dec_def Let_def k_def pd_def)
  have len: "k < length pd" by (simp add: pd_def)
  have "0 < k" using False by (simp add: k_def)
  have "all_digits pd" using nat_to_string_digits [of d] by (simp add: pd_def)
  then have dg: "all_digits (take (length pd - k) pd)" "all_digits (drop (length pd - k) pd)"
    using all_digits_take by blast+
  have "drop (length pd - k) pd \<noteq> []" using len \<open>0 < k\<close> by simp
  from parse_number_frac [OF dg this]
  have "parse_number (display_dec d e) = Some (round_dec (dec_value pd) (- int k))"
    using len by (simp add: disp)
  moreover have "dec_value pd = d" by (simp add: dec_value_def pd_def digits_val_leading digits_val_nat)
  ultimately show ?thesis using False by (simp add: k_def)
qed

lemma hd_display_dec: "display_dec d e \<noteq> [] \<and> to_digit 10 (hd (display_dec d e)) \<noteq> None"
proof (cases "0 \<le> e")
  case True
  then show ?thesis using nat_to_string_digits [of d]
    by (cases "nat_to_string d") (simp_all add: display_dec_def Let_def)
next
  case False
  define k where "k = nat (- e)"
  define pd where "pd = replicate (Suc k - length (nat_to_string d)) (CHR ''0'') @ nat_to_string d"
  have disp: "display_dec d e = take (length pd - k) pd @ ''.'' @ drop (length pd - k) pd"
    using False by (simp add: display_dec_def Let_def k_def pd_def)
  have len: "k < length pd" by (simp add: pd_def)
  have "all_digits (take (length pd - k) pd)" using all_digits_take nat_to_string_digits [of d] by (simp add: pd_def)
  then show ?thesis using len by (cases "take (length pd - k) pd") (auto simp: disp)
qed

lemma parse_unsigned:
  assumes "s \<noteq> []" "to_digit 10 (hd s) \<noteq> None" "parse_number s = Some m"
  shows "parse_f64 s = Some (f64_of False m)" "parse_f64 (CHR ''-'' # s) = Some (f64_of True m)"
proof -
  obtain c cs where s: "s = c # cs" "to_digit 10 c \<noteq> None" using assms(1,2) by (cases s) auto
  have c: "c \<noteq> CHR ''-''" "c \<noteq> CHR ''+''" "ascii_lower c \<noteq> CHR ''i''" "ascii_lower c \<noteq> CHR ''n''"
    using s(2) by (auto simp: to_digit_def byte_def ascii_lower_def Let_def split: if_splits)
  then have "split_sign s = (False, s)" "split_sign (CHR ''-'' # s) = (True, s)"
    by (simp_all add: split_sign_def s)
  with c assms(3) show "parse_f64 s = Some (f64_of False m)" "parse_f64 (CHR ''-'' # s) = Some (f64_of True m)"
    by (simp_all add: parse_f64_def s(1))
qed

text \<open>Every \<open>f64\<close> but the NaNs prints to a text that parses back to the same bits.\<close>
lemma parse_display:
  assumes "\<not> is_nan x"
  shows "parse_f64 (display_f64 x) = Some x"
proof -
  consider "f64_mag x = inf_mag" | "f64_mag x = 0" | "f64_mag x < inf_mag" "f64_mag x \<noteq> 0"
    using assms by (force simp: is_nan_def)
  then have "parse_f64 (display_f64 x) = Some (f64_of (f64_negative x) (f64_mag x))"
  proof cases
    case 1
    then show ?thesis
      by (simp add: display_f64_def Let_def parse_f64_def split_sign_def ascii_lower_def byte_def inf_mag_def)
  next
    case 2
    have "parse_number ''0'' = Some 0"
      using parse_number_int [of "''0''"] by (simp add: dec_value_def round_dec_def round_mag_def)
    then have "parse_f64 ''0'' = Some (f64_of False 0)" "parse_f64 ''-0'' = Some (f64_of True 0)"
      by (rule parse_unsigned [rotated 2], simp_all)+
    with 2 show ?thesis by (simp add: display_f64_def Let_def inf_mag_def)
  next
    case 3
    obtain d e where s: "shortest_from (f64_mag x) (bias + 309) = (d, e)" by fastforce
    note p = parse_number_display [of d e, unfolded shortest_from_rounds [OF 3(1) s]]
      and h = hd_display_dec [of d e]
    have "parse_f64 (display_dec d e) = Some (f64_of False (f64_mag x))"
      "parse_f64 (CHR ''-'' # display_dec d e) = Some (f64_of True (f64_mag x))"
      using parse_unsigned [OF _ _ p] h by blast+
    with 3 s show ?thesis by (simp add: display_f64_def Let_def)
  qed
  then show ?thesis by (simp flip: f64_of_cases(1))
qed

lemma f64_eq_refl: "\<not> is_nan x \<Longrightarrow> f64_eq x x"
  by (simp add: f64_eq_def)

section \<open>Rounding keeps the order\<close>

lemma round_div_mono: "0 < q \<Longrightarrow> a \<le> b \<Longrightarrow> round_div a q \<le> round_div b q"
proof -
  assume q: "0 < q" and ab: "a \<le> b"
  have le: "a div q \<le> b div q" using ab by (rule div_le_mono)
  show ?thesis
  proof (cases "a div q = b div q")
    case True
    have "a mod q \<le> b mod q" using ab True by (metis add_le_cancel_left mult_div_mod_eq)
    with True show ?thesis by (simp add: round_div_def Let_def)
  next
    case False
    with le show ?thesis by (simp add: round_div_def Let_def)
  qed
qed

lemma round_div_bounds:
  assumes "0 < q"
  shows "c * q \<le> p \<Longrightarrow> c \<le> round_div p q" "p \<le> c * q \<Longrightarrow> round_div p q \<le> c"
  using round_div_mono [OF assms, of "c * q" p] round_div_mono [OF assms, of p "c * q"]
    round_div_exact [OF assms, of c] by simp_all

text \<open>The scale leaves a quotient of at most 53 bits, and of exactly 53 above the subnormals.\<close>
lemma scale_of_bounds:
  assumes "0 < p" "0 < q"
  shows "p * 2 ^ bias \<le> 2 ^ 53 * (q * 2 ^ scale_of p q)"
    "0 < scale_of p q \<Longrightarrow> 2 ^ 52 * (q * 2 ^ scale_of p q) \<le> p * 2 ^ bias"
proof -
  define s where "s = scale_of p q"
  define l where "l = log 2 (real p / real q)"
  have s: "s = nat (\<lfloor>l\<rfloor> - 52 + int bias)" using scale_of_eq [OF assms] by (simp add: s_def l_def)
  have ratio: "l + real bias - real s = log 2 (real (p * 2 ^ bias) / real (q * 2 ^ s))"
    using assms by (simp add: l_def log_divide log_mult)
  have pos: "0 < real (p * 2 ^ bias) / real (q * 2 ^ s)" using assms by simp
  have "l + real bias - real s < 53" unfolding s by linarith
  then have "real (p * 2 ^ bias) / real (q * 2 ^ s) < 2 powr 53"
    unfolding ratio using pos by (simp add: log_less_iff)
  then have "real (p * 2 ^ bias) < real (2 ^ 53 * (q * 2 ^ s))"
    using assms by (simp add: pos_divide_less_eq powr_numeral)
  then show "p * 2 ^ bias \<le> 2 ^ 53 * (q * 2 ^ scale_of p q)"
    unfolding s_def [symmetric] by (metis of_nat_less_iff less_imp_le)
  assume "0 < scale_of p q"
  then have "52 \<le> l + real bias - real s" unfolding s_def [symmetric] s by linarith
  then have "2 powr 52 \<le> real (p * 2 ^ bias) / real (q * 2 ^ s)"
    unfolding ratio using pos by (simp add: le_log_iff)
  then have "real (2 ^ 52 * (q * 2 ^ s)) \<le> real (p * 2 ^ bias)"
    using assms by (simp add: pos_le_divide_eq powr_numeral)
  then show "2 ^ 52 * (q * 2 ^ scale_of p q) \<le> p * 2 ^ bias"
    unfolding s_def [symmetric] by (metis of_nat_le_iff)
qed

lemma scale_of_mono: "0 < p \<Longrightarrow> 0 < q \<Longrightarrow> p \<le> p' \<Longrightarrow> scale_of p q \<le> scale_of p' q"
  by (simp add: scale_of_eq nat_mono floor_mono divide_right_mono)

text \<open>Rounding never reverses an order.\<close>
lemma round_mag_mono:
  assumes "0 < q" "p \<le> p'"
  shows "round_mag p q \<le> round_mag p' q"
proof (cases "p = 0")
  case False
  define s s' where "s = scale_of p q" and "s' = scale_of p' q"
  have "s \<le> s'" unfolding s_def s'_def using scale_of_mono False assms by simp
  define m m' where "m = round_div (p * 2 ^ bias) (q * 2 ^ s)" and "m' = round_div (p' * 2 ^ bias) (q * 2 ^ s')"
  have "s * 2 ^ 52 + m \<le> s' * 2 ^ 52 + m'"
  proof (cases "s = s'")
    case True
    with assms show ?thesis unfolding m_def m'_def by (simp add: round_div_mono)
  next
    case False
    with \<open>s \<le> s'\<close> have lt: "Suc s \<le> s'" by simp
    have "m \<le> 2 ^ 53" unfolding m_def s_def
      by (rule round_div_bounds(2)) (use scale_of_bounds(1) [of p q] assms \<open>p \<noteq> 0\<close> in simp_all)
    moreover have "2 ^ 52 \<le> m'" unfolding m'_def s'_def
      by (rule round_div_bounds(1)) (use scale_of_bounds(2) [of p' q] assms \<open>p \<noteq> 0\<close> lt in \<open>simp_all add: s'_def\<close>)
    moreover have "Suc s * 2 ^ 52 \<le> s' * 2 ^ 52" using lt by (rule mult_le_mono1)
    ultimately show ?thesis by simp
  qed
  with False assms show ?thesis
    by (simp add: round_mag_def Let_def s_def s'_def m_def m'_def)
qed (simp add: round_mag_def)

text \<open>Integers up to \<open>2 ^ 53\<close> are exact.\<close>
lemma mantissa_of:
  fixes n :: nat
  assumes "0 < n" "n \<le> 2 ^ 53"
  obtains m k where "m * 2 ^ k = n * 2 ^ bias" "2 ^ 52 \<le> m" "m < 2 ^ 53" "k \<le> Suc bias"
proof (cases "n = 2 ^ 53")
  case True
  then show thesis by (intro that [of "2 ^ 52" "Suc bias"]) simp_all
next
  case False
  with assms(2) have n: "n < 2 ^ 53" by simp
  define l where "l = bit_len n"
  have lb: "n < 2 ^ l" "2 ^ l \<le> 2 * n" using bit_len_bounds [OF assms(1)] by (simp_all add: l_def)
  from lb(2) n have "(2 :: nat) ^ l < 2 ^ 54" by simp
  then have "l < 54" by (rule power_less_imp_less_exp [rotated]) simp
  then have l: "l \<le> 53" by simp
  have p: "(2 :: nat) ^ 53 = 2 ^ (53 - l) * 2 ^ l" using l by (simp flip: power_add)
  show thesis
  proof (rule that [of "n * 2 ^ (53 - l)" "bias + l - 53"])
    have "53 - l + (bias + l - 53) = bias" using l by (simp add: bias_def)
    then show "n * 2 ^ (53 - l) * 2 ^ (bias + l - 53) = n * 2 ^ bias"
      by (simp add: mult.assoc flip: power_add)
    show "n * 2 ^ (53 - l) < 2 ^ 53" using lb(1) unfolding p by simp
    have "2 ^ 53 \<le> 2 * (n * 2 ^ (53 - l))"
      unfolding p using mult_le_mono2 [OF lb(2), of "2 ^ (53 - l)"] by (simp only: mult_ac)
    then show "2 ^ 52 \<le> n * 2 ^ (53 - l)" by simp
    show "bias + l - 53 \<le> Suc bias" using l by simp
  qed
qed

lemma mag_units_value:
  assumes "2 ^ 52 \<le> m" "m < 2 ^ 53"
  shows "mag_units (k * 2 ^ 52 + m) = m * 2 ^ k"
proof -
  define f where "f = m - 2 ^ 52"
  have f: "m = 2 ^ 52 + f" "f < 2 ^ 52" using assms by (simp_all add: f_def)
  have "k * 2 ^ 52 + m = f + Suc k * 2 ^ 52" using f by simp
  then have "(k * 2 ^ 52 + m) div 2 ^ 52 = Suc k" "(k * 2 ^ 52 + m) mod 2 ^ 52 = f"
    using f(2) by (simp_all del: mult_Suc)
  with f(1) show ?thesis by (simp add: mag_units_def Let_def)
qed

lemma round_mag_units:
  assumes "n \<le> 2 ^ 53"
  shows "mag_units (round_mag n 1) = n * 2 ^ bias"
proof (cases "n = 0")
  case False
  with assms obtain m k where m: "m * 2 ^ k = n * 2 ^ bias" "2 ^ 52 \<le> m" "m < 2 ^ 53" "k \<le> Suc bias"
    using mantissa_of [of n] by auto
  have "k * 2 ^ 52 \<le> Suc bias * 2 ^ 52" using m(4) by (rule mult_le_mono1)
  then have fits: "k * 2 ^ 52 + m \<le> inf_mag" using m(3) by (simp add: bias_def inf_mag_def)
  have "round_mag n 1 = round_mag (m * 2 ^ k) (2 ^ bias)"
    using round_mag_scale [of "2 ^ bias" 1 n] m(1) by (simp add: mult.commute)
  also have "\<dots> = k * 2 ^ 52 + m" by (rule round_mag_value) (use m fits in simp_all)
  finally show ?thesis using mag_units_value [OF m(2,3), of k] m(1) by simp
qed (simp add: round_mag_def mag_units_def)

lemma round_mag_less:
  assumes "a < b" "b \<le> 2 ^ 53"
  shows "round_mag a 1 < round_mag b 1"
proof -
  have "round_mag a 1 \<noteq> round_mag b 1"
  proof
    assume "round_mag a 1 = round_mag b 1"
    then have "a * 2 ^ bias = b * 2 ^ bias" using round_mag_units [of a] round_mag_units [of b] assms by simp
    with assms(1) show False by simp
  qed
  with round_mag_mono [of 1 a b] assms(1) show ?thesis by simp
qed

text \<open>Just above, the last bit is rounded away.\<close>
lemma round_mag_at_54_bits:
  assumes "2 ^ 53 \<le> n" "n < 2 ^ 54"
  shows "round_mag n 1 = Suc bias * 2 ^ 52 + round_div n 2"
proof -
  have "0 < n" using assms(1) by simp
  note l = bit_len_bounds [OF this]
  have "(2 :: nat) ^ 53 < 2 ^ bit_len n" "(2 :: nat) ^ bit_len n < 2 ^ 55" using l assms by simp_all
  then have "53 < bit_len n" "bit_len n < 55" by (simp_all only: power_strict_increasing_iff one_less_numeral_iff semiring_norm)
  then have "bit_len n = 54" by simp
  moreover have "bit_len 1 = 1" by (simp add: bit_len.simps)
  ultimately have s: "scale_of n 1 = Suc bias" using assms(1) by (simp add: scale_of_def)
  have "round_div (n * 2 ^ bias) (1 * 2 ^ Suc bias) = round_div n 2"
    using round_div_scale [of "2 ^ bias" n 2] by (simp add: mult.commute)
  moreover have "round_div n 2 \<le> 2 ^ 53" by (rule round_div_bounds(2)) (use assms(2) in simp_all)
  ultimately show ?thesis using \<open>0 < n\<close> by (simp add: round_mag_def Let_def s [simplified] bias_def inf_mag_def)
qed

section \<open>Integers as \<open>f64\<close>\<close>

text \<open>The \<open>f64\<close> nearest to an integer: what the cast and the parser of its decimal text both give.\<close>
definition f64_of_int :: "int \<Rightarrow> f64" where
  "f64_of_int z = f64_of (z < 0) (round_mag (nat \<bar>z\<bar>) 1)"

lemma i64_as_f64_eq: "i64_as_f64 i = f64_of_int (sint i)"
  by (simp add: i64_as_f64_def f64_of_int_def)

lemma round_mag_le_inf: "round_mag p q \<le> inf_mag"
  by (simp add: round_mag_def Let_def inf_mag_def)

lemma f64_of_int_key:
  "f64_key (f64_of_int z) = (if z < 0 then - int (round_mag (nat (- z)) 1) else int (round_mag (nat z) 1))"
  "\<not> is_nan (f64_of_int z)"
proof -
  have "round_mag n 1 < 2 ^ 63" for n
    by (rule le_less_trans [OF round_mag_le_inf]) (simp add: inf_mag_def)
  note sel = f64_of_sel [OF this]
  show "f64_key (f64_of_int z) = (if z < 0 then - int (round_mag (nat (- z)) 1) else int (round_mag (nat z) 1))"
    by (simp add: f64_key_def f64_of_int_def sel [simplified])
  show "\<not> is_nan (f64_of_int z)"
    using round_mag_le_inf [of "nat \<bar>z\<bar>" 1] by (simp add: is_nan_def f64_of_int_def sel [simplified] not_less)
qed

lemma f64_of_int_mono:
  assumes "a \<le> b"
  shows "f64_key (f64_of_int a) \<le> f64_key (f64_of_int b)"
proof (cases "a < 0")
  case True
  with assms round_mag_mono [of 1 "nat (- b)" "nat (- a)"] show ?thesis by (simp add: f64_of_int_key)
next
  case False
  with assms round_mag_mono [of 1 "nat a" "nat b"] show ?thesis by (simp add: f64_of_int_key)
qed

lemma f64_of_int_less:
  assumes "a < b" "\<bar>a\<bar> \<le> 2 ^ 53" "\<bar>b\<bar> \<le> 2 ^ 53"
  shows "f64_key (f64_of_int a) < f64_key (f64_of_int b)"
proof -
  have z: "round_mag 0 1 = 0" by (simp add: round_mag_def)
  show ?thesis
  proof (cases "b \<le> 0")
    case True
    have "round_mag (nat (- b)) 1 < round_mag (nat (- a)) 1" by (rule round_mag_less) (use assms True in auto)
    with True assms z show ?thesis by (cases "b = 0") (simp_all add: f64_of_int_key)
  next
    case False
    have "round_mag (nat (max a 0)) 1 < round_mag (nat b) 1" by (rule round_mag_less) (use assms False in auto)
    with False z show ?thesis by (auto simp: f64_of_int_key max_def split: if_splits)
  qed
qed

lemma f64_int_order:
  "f64_lt (f64_of_int a) (f64_of_int b) \<Longrightarrow> a < b"
  "a \<le> b \<Longrightarrow> f64_le (f64_of_int a) (f64_of_int b)"
  "\<bar>a\<bar> \<le> 2 ^ 53 \<Longrightarrow> \<bar>b\<bar> \<le> 2 ^ 53 \<Longrightarrow> f64_lt (f64_of_int a) (f64_of_int b) \<longleftrightarrow> a < b"
  "\<bar>a\<bar> \<le> 2 ^ 53 \<Longrightarrow> \<bar>b\<bar> \<le> 2 ^ 53 \<Longrightarrow> f64_le (f64_of_int a) (f64_of_int b) \<longleftrightarrow> a \<le> b"
  using f64_of_int_mono [of a b] f64_of_int_mono [of b a] f64_of_int_less [of a b] f64_of_int_less [of b a]
  by (fastforce simp: f64_lt_def f64_le_def f64_of_int_key(2) not_le)+

lemma parse_f64_int: "parse_f64 (int_to_string z) = Some (f64_of_int z)"
proof -
  have d: "all_digits (nat_to_string n)" "nat_to_string n \<noteq> []" for n
    using nat_to_string_digits by auto
  have hd: "to_digit 10 (hd (nat_to_string n)) \<noteq> None" for n
    using d [of n] by (cases "nat_to_string n") auto
  have "parse_number (nat_to_string n) = Some (round_mag n 1)" for n
    by (simp add: parse_number_int [OF d] dec_value_def digits_val_nat round_dec_def)
  note p = parse_unsigned [OF d(2) hd this]
  show ?thesis by (simp add: int_to_string_def f64_of_int_def p)
qed

end
