(* ===== verification/Query_Filter.thy ===== *)
theory Query_Filter
  imports Store Rust_Float
begin

text \<open>
  \<open>src/api/filter.rs\<close>: the filter language of \<open>GET /api/traces/:id/filter\<close>: tokenizer, term parser
  and matcher, and the handler itself.  A query is a list of whitespace-separated terms, all of
  which a span must match; a malformed term is dropped and reported instead of failing the query.
\<close>

section \<open>Terms\<close>

datatype filter_op = Eq | Ne | Gt | Gte | Lt | Lte

definition OPS :: "(string \<times> filter_op) list" where
  "OPS = [(''>='', Gte), (''<='', Lte), (''!='', Ne), (''='', Eq), (''>'', Gt), (''<'', Lt)]"

datatype filter_term =
    Service filter_op string
  | Status filter_op i32
  | Duration filter_op u64
  | Attr filter_op "u32 option" string
  | Substring string

text \<open>\<open>cmp\<close> is generic over \<open>PartialOrd\<close>; the comparisons of the type are its first three arguments.\<close>
definition cmp ::
    "('a \<Rightarrow> 'a \<Rightarrow> bool) \<Rightarrow> ('a \<Rightarrow> 'a \<Rightarrow> bool) \<Rightarrow> ('a \<Rightarrow> 'a \<Rightarrow> bool) \<Rightarrow> filter_op \<Rightarrow> 'a \<Rightarrow> 'a \<Rightarrow> bool" where
  "cmp eq lt le op got want =
    (case op of
       Eq \<Rightarrow> eq got want
     | Ne \<Rightarrow> \<not> eq got want
     | Gt \<Rightarrow> lt want got
     | Gte \<Rightarrow> le want got
     | Lt \<Rightarrow> lt got want
     | Lte \<Rightarrow> le got want)"

definition attr_equals :: "attr_value \<Rightarrow> string \<Rightarrow> bool" where
  "attr_equals attr raw =
    (case attr of
       Str s \<Rightarrow> s = raw
     | Int64 i \<Rightarrow> (case parse_i64 raw of Some v \<Rightarrow> v = i | None \<Rightarrow> False)
     | Double d \<Rightarrow> (case parse_f64 raw of Some v \<Rightarrow> f64_eq v d | None \<Rightarrow> False)
     | Bool b \<Rightarrow> b \<and> raw = ''true'' \<or> \<not> b \<and> raw = ''false'')"

definition attr_number :: "attr_value \<Rightarrow> f64 option" where
  "attr_number attr =
    (case attr of Int64 i \<Rightarrow> Some (i64_as_f64 i) | Double d \<Rightarrow> Some d | Str _ \<Rightarrow> None | Bool _ \<Rightarrow> None)"

definition attr_matches :: "filter_op \<Rightarrow> attr_value \<Rightarrow> string \<Rightarrow> bool" where
  "attr_matches op attr raw =
    (if op = Eq \<or> op = Ne then (if op = Eq then attr_equals attr raw else \<not> attr_equals attr raw)
     else case attr_number attr of
            None \<Rightarrow> False
          | Some attr_num \<Rightarrow>
              (case parse_f64 raw of
                 Some want \<Rightarrow> cmp f64_eq f64_lt f64_le op attr_num want
               | None \<Rightarrow> False))"

definition attr_contains :: "attr_value \<Rightarrow> string \<Rightarrow> bool" where
  "attr_contains attr needle =
    (case attr of
       Str s \<Rightarrow> str_contains s needle
     | Int64 i \<Rightarrow> str_contains (int_to_string (sint i)) needle
     | Double d \<Rightarrow> str_contains (display_f64 d) needle
     | Bool b \<Rightarrow> str_contains (if b then ''true'' else ''false'') needle)"

text \<open>\<open>Term::matches\<close>\<close>
definition matches :: "filter_term \<Rightarrow> trace \<Rightarrow> store \<Rightarrow> nat \<Rightarrow> bool panics" where
  "matches t tr s idx =
    (case t of
       Service op want \<Rightarrow>
         do { id \<leftarrow> service_name_id tr idx;
              got \<leftarrow> (case id of None \<Rightarrow> Some None | Some i \<Rightarrow> map_option Some (service_name s i));
              Some (case (op, got) of
                      (Eq, Some nm) \<Rightarrow> nm = want
                    | (Ne, Some nm) \<Rightarrow> nm \<noteq> want
                    | (Ne, None) \<Rightarrow> True
                    | _ \<Rightarrow> False) }
     | Status op want \<Rightarrow>
         do { code \<leftarrow> status_code tr idx;
              Some (case op of Eq \<Rightarrow> code = want | Ne \<Rightarrow> code \<noteq> want | _ \<Rightarrow> False) }
     | Duration op want \<Rightarrow>
         do { e \<leftarrow> end_time_unix_nano tr idx; b \<leftarrow> start_time_unix_nano tr idx;
              Some (case checked_sub e b of
                      Some d \<Rightarrow> cmp (=) (<) (\<le>) op d want
                    | None \<Rightarrow> False) }
     | Attr op (Some key_id) raw \<Rightarrow>
         do { ks \<leftarrow> attribute_keys tr idx; vs \<leftarrow> attributes tr idx;
              let values = map snd (filter (\<lambda>kv. fst kv = key_id) (zip ks vs));
              Some (if values = [] then op = Ne else list_ex (\<lambda>v. attr_matches op v raw) values) }
     | Attr _ None _ \<Rightarrow> Some False
     | Substring needle \<Rightarrow>
         do { nm \<leftarrow> name tr idx;
              if str_contains nm needle then Some True
              else do { vs \<leftarrow> attributes tr idx; Some (list_ex (\<lambda>v. attr_contains v needle) vs) } })"

section \<open>Parsing\<close>

definition parse_duration :: "string \<Rightarrow> u64 option" where
  "parse_duration raw =
    (let (num, unit_nanos) =
       (case strip_suffix raw ''ms'' of
          Some n \<Rightarrow> (n, 1000000)
        | None \<Rightarrow>
            (case strip_suffix raw ''us'' of
               Some n \<Rightarrow> (n, 1000)
             | None \<Rightarrow>
                 (case strip_suffix raw ''ns'' of
                    Some n \<Rightarrow> (n, 1)
                  | None \<Rightarrow>
                      (case strip_suffix raw ''s'' of
                         Some n \<Rightarrow> (n, 1000000000)
                       | None \<Rightarrow> (raw, 1)))))
     in do { n \<leftarrow> parse_u64 num; checked_mul n unit_nanos })"

definition is_ascii_alphabetic :: "char \<Rightarrow> bool" where
  "is_ascii_alphabetic c \<longleftrightarrow> 65 \<le> byte c \<and> byte c \<le> 90 \<or> 97 \<le> byte c \<and> byte c \<le> 122"

definition is_ascii_digit :: "char \<Rightarrow> bool" where
  "is_ascii_digit c \<longleftrightarrow> 48 \<le> byte c \<and> byte c \<le> 57"

definition is_key_start :: "rchar \<Rightarrow> bool" where
  "is_key_start c \<longleftrightarrow> (case c of [b] \<Rightarrow> is_ascii_alphabetic b \<or> b = CHR ''_'' | _ \<Rightarrow> False)"

definition is_key_char :: "rchar \<Rightarrow> bool" where
  "is_key_char c \<longleftrightarrow>
    (case c of [b] \<Rightarrow> is_ascii_alphabetic b \<or> is_ascii_digit b \<or> b = CHR ''_'' \<or> b = CHR ''.'' | _ \<Rightarrow> False)"

abbreviation QUOTE :: rchar where "QUOTE \<equiv> [CHR 0x22]"
abbreviation BACKSLASH :: rchar where "BACKSLASH \<equiv> [CHR 0x5C]"

type_synonym token = "string \<times> bool \<times> bool"

text \<open>The loop of \<open>tokenize\<close> over the characters still to come; its locals are the arguments, the
  tokens pushed are its result.\<close>
fun tokenize_loop :: "rchar list \<Rightarrow> string \<Rightarrow> bool \<Rightarrow> bool \<Rightarrow> token list" where
  "tokenize_loop [] cur in_quotes starts_quoted =
    (if cur \<noteq> [] then [(cur, in_quotes, starts_quoted)] else [])"
| "tokenize_loop (c # cs) cur in_quotes starts_quoted =
    (if in_quotes \<and> c = BACKSLASH \<and> cs \<noteq> [] \<and> hd cs = QUOTE
     then tokenize_loop (tl cs) (cur @ QUOTE) in_quotes starts_quoted
     else if c = QUOTE
     then tokenize_loop cs cur (\<not> in_quotes) (if cur = [] \<and> \<not> in_quotes then True else starts_quoted)
     else if is_whitespace c \<and> \<not> in_quotes
     then if cur \<noteq> [] then (cur, False, starts_quoted) # tokenize_loop cs [] in_quotes False
          else tokenize_loop cs cur in_quotes starts_quoted
     else tokenize_loop cs (cur @ c) in_quotes starts_quoted)"

definition tokenize :: "string \<Rightarrow> token list" where
  "tokenize q = tokenize_loop (chars q) [] False False"

definition parse_term :: "string \<Rightarrow> bool \<Rightarrow> store \<Rightarrow> (string + filter_term) panics" where
  "parse_term text starts_quoted s =
    (if starts_quoted then Some (Inr (Substring text))
     else
       let key_len = length (takeWhile is_key_char (chars text));
           key_len = (if chars text \<noteq> [] \<and> is_key_start (hd (chars text)) then key_len else 0)
       in if key_len = 0 then Some (Inr (Substring text))
          else do { key \<leftarrow> str_to text key_len;
                    rest \<leftarrow> str_from text key_len;
                    if rest = [] then Some (Inr (Substring text))
                    else case List.find (\<lambda>p. starts_with rest (fst p)) OPS of
                      None \<Rightarrow>
                        Some (if hd (chars rest) = ''!'' \<or> hd (chars rest) = ''~'' then Inl text
                              else Inr (Substring text))
                    | Some (pre, op) \<Rightarrow>
                        do { value \<leftarrow> str_from rest (length pre);
                             Some (if key = ''service'' \<and> (op = Eq \<or> op = Ne) then Inr (Service op value)
                                   else if key = ''status'' \<and> (op = Eq \<or> op = Ne)
                                   then (if value = ''unset'' then Inr (Status op 0)
                                         else if value = ''ok'' then Inr (Status op 1)
                                         else if value = ''error'' then Inr (Status op 2)
                                         else Inl text)
                                   else if key = ''duration''
                                   then (case parse_duration value of
                                           Some nanos \<Rightarrow> Inr (Duration op nanos)
                                         | None \<Rightarrow> Inl text)
                                   else if key = ''service'' \<or> key = ''status'' then Inl text
                                   else Inr (Attr op (attribute_key_id s key) value)) } })"

text \<open>The loop of \<open>parse_query\<close>, which pushes onto \<open>terms\<close> and \<open>dropped\<close>.\<close>
definition parse_query :: "string \<Rightarrow> store \<Rightarrow> (filter_term list \<times> string list) panics" where
  "parse_query q s =
    foldO (\<lambda>(terms, dropped) (text, unterminated, starts_quoted).
        if unterminated then Some (terms, dropped @ [text])
        else do { r \<leftarrow> parse_term text starts_quoted s;
                  Some (case r of Inr t \<Rightarrow> (terms @ [t], dropped) | Inl raw \<Rightarrow> (terms, dropped @ [raw])) })
      ([], []) (tokenize q)"

section \<open>The handler\<close>

record filter_response =
  indices :: "nat list"
  dropped_terms :: "string list"

definition get_filter :: "store \<Rightarrow> string \<Rightarrow> (string \<rightharpoonup> string) \<Rightarrow> filter_response api_reply panics" where
  "get_filter s path params =
    (case from_hex path of
       None \<Rightarrow> Some (ApiBadRequest ''trace id must be 32 hex characters'')
     | Some tid \<Rightarrow>
         (case trace s tid of
            None \<Rightarrow> Some ApiNotFound
          | Some tr \<Rightarrow>
              do { let query = (case params ''q'' of Some q \<Rightarrow> q | None \<Rightarrow> []);
                   (terms, dropped) \<leftarrow> parse_query query s;
                   ids \<leftarrow> filterO (\<lambda>idx. allO (\<lambda>t. matches t tr s idx) terms) [0..<span_count tr];
                   Some (ApiOk \<lparr>indices = ids, dropped_terms = dropped\<rparr>) }))"

section \<open>Slicing at character boundaries\<close>

lemma char_boundary_append:
  assumes "utf8_valid a" "utf8_valid (a @ b)"
  shows "is_char_boundary (a @ b) (length a)"
proof -
  from assms have "utf8_valid b" by (simp add: utf8_valid_append)
  then show ?thesis by (cases b) (auto simp: is_char_boundary_def dest: utf8_valid_lead)
qed

lemma str_slices:
  assumes "utf8_valid a" "utf8_valid (a @ b)"
  shows "str_to (a @ b) (length a) = Some a" "str_from (a @ b) (length a) = Some b"
  using char_boundary_append [OF assms] by (simp_all add: str_to_def str_from_def)

lemma key_chars_ascii:
  "\<forall>c \<in> set cs. is_key_char c \<Longrightarrow> length (concat cs) = length cs \<and> (\<forall>b \<in> set (concat cs). byte b < 0x80)"
proof (induction cs)
  case (Cons c cs)
  from Cons.prems obtain b where b: "c = [b]" "is_key_char [b]"
    by (auto simp: is_key_char_def split: list.splits)
  then have "byte b < 0x80"
    by (auto simp: is_key_char_def is_ascii_alphabetic_def is_ascii_digit_def byte_def)
  with Cons b show ?case by simp
qed simp

text \<open>The key of a term is its prefix of key characters, and the rest follows it.\<close>
lemma key_split:
  obtains key rest where "text = key @ rest" "length key = length (takeWhile is_key_char (chars text))"
    "utf8_valid key" "key = concat (takeWhile is_key_char (chars text))"
proof -
  let ?ks = "takeWhile is_key_char (chars text)"
  have "\<forall>c \<in> set ?ks. is_key_char c" by (auto dest: set_takeWhileD)
  note k = key_chars_ascii [OF this]
  have "concat ?ks @ concat (dropWhile is_key_char (chars text)) = text"
    by (metis concat_append concat_chars takeWhile_dropWhile_id)
  moreover from k have "utf8_valid (concat ?ks)" by (intro utf8_valid_ascii) blast
  ultimately show thesis
    using k by (intro that [of "concat ?ks" "concat (dropWhile is_key_char (chars text))"]) simp_all
qed

lemma OPS_ascii: "(pre, op) \<in> set OPS \<Longrightarrow> utf8_valid pre"
  by (intro utf8_valid_ascii) (auto simp: OPS_def byte_def)

lemma find_OPS:
  assumes "List.find (\<lambda>p. starts_with rest (fst p)) OPS = Some (pre, op)"
  obtains v where "rest = pre @ v" "utf8_valid pre"
proof -
  from assms obtain i where "i < length OPS" "starts_with rest (fst (OPS ! i))" "OPS ! i = (pre, op)"
    unfolding find_Some_iff by metis
  then have "starts_with rest pre" "(pre, op) \<in> set OPS" by (auto dest: nth_mem)
  then show thesis using OPS_ascii that by (auto simp: starts_with_def prefix_def)
qed

text \<open>\<open>parse_term\<close> never slices off a boundary.\<close>
lemma parse_term_total:
  assumes "utf8_valid text"
  shows "\<exists>r. parse_term text starts_quoted s = Some r"
proof -
  obtain key rest where k: "text = key @ rest" "length key = length (takeWhile is_key_char (chars text))" "utf8_valid key"
    by (rule key_split)
  with assms have sl: "str_to text (length (takeWhile is_key_char (chars text))) = Some key"
    "str_from text (length (takeWhile is_key_char (chars text))) = Some rest"
    using str_slices [of key rest] by simp_all
  have rest: "utf8_valid rest" using assms k by (simp add: utf8_valid_append)
  have "\<exists>v. str_from rest (length pre) = Some v"
    if "List.find (\<lambda>p. starts_with rest (fst p)) OPS = Some (pre, op)" for pre op
    using find_OPS [OF that] rest str_slices(2) by metis
  then show ?thesis
    by (auto simp: parse_term_def Let_def sl split: option.split)
qed


lemma tokenize_loop_valid:
  "(\<And>c. c \<in> set cs \<Longrightarrow> utf8_valid c) \<Longrightarrow> utf8_valid cur \<Longrightarrow>
   (t, u, v) \<in> set (tokenize_loop cs cur inq sq) \<Longrightarrow> utf8_valid t"
proof (induction cs cur inq sq rule: tokenize_loop.induct)
  case (2 c cs cur inq sq)
  have c: "utf8_valid c" and cs: "\<And>d. d \<in> set cs \<Longrightarrow> utf8_valid d" using 2(6) by simp_all
  have tl: "\<And>d. d \<in> set (tl cs) \<Longrightarrow> utf8_valid d" using cs by (cases cs) auto
  have q: "utf8_valid (cur @ QUOTE)" using 2(7) by (simp add: utf8_valid_append utf8_valid.simps byte_def)
  have cc: "utf8_valid (cur @ c)" using 2(7) c by (simp add: utf8_valid_append)
  show ?case
    using 2(8) 2(1) [OF _ tl q] 2(2) [OF _ _ cs 2(7)] 2(3) [OF _ _ _ _ cs] 2(4) [OF _ _ _ _ cs 2(7)]
      2(5) [OF _ _ _ cs cc] 2(7)
    by (auto split: if_splits)
qed (auto split: if_splits)

lemma tokenize_valid: "utf8_valid q \<Longrightarrow> (t, u, v) \<in> set (tokenize q) \<Longrightarrow> utf8_valid t"
  unfolding tokenize_def by (rule tokenize_loop_valid) (auto dest: utf8_valid_chars)

section \<open>Every term is accounted for\<close>

text \<open>A token is dropped or kept on its own.\<close>
definition classify :: "store \<Rightarrow> token \<Rightarrow> string + filter_term" where
  "classify s tok =
    (case tok of (text, unterminated, starts_quoted) \<Rightarrow>
       if unterminated then Inl text
       else case parse_term text starts_quoted s of Some r \<Rightarrow> r | None \<Rightarrow> Inl text)"

definition kept_terms :: "(string + filter_term) list \<Rightarrow> filter_term list" where
  "kept_terms rs = List.map_filter (\<lambda>r. case r of Inr t \<Rightarrow> Some t | Inl _ \<Rightarrow> None) rs"

definition dropped_of :: "(string + filter_term) list \<Rightarrow> string list" where
  "dropped_of rs = List.map_filter (\<lambda>r. case r of Inl t \<Rightarrow> Some t | Inr _ \<Rightarrow> None) rs"

lemma kept_dropped_simps [simp]:
  "kept_terms [] = []" "dropped_of [] = []"
  "kept_terms (Inr t # rs) = t # kept_terms rs" "kept_terms (Inl x # rs) = kept_terms rs"
  "dropped_of (Inr t # rs) = dropped_of rs" "dropped_of (Inl x # rs) = x # dropped_of rs"
  by (simp_all add: kept_terms_def dropped_of_def List.map_filter_simps)


lemma parse_query_loop:
  "(\<And>t u v. (t, u, v) \<in> set toks \<Longrightarrow> utf8_valid t) \<Longrightarrow>
   foldO (\<lambda>(terms, dropped) (text, unterminated, starts_quoted).
        if unterminated then Some (terms, dropped @ [text])
        else do { r \<leftarrow> parse_term text starts_quoted s;
                  Some (case r of Inr t \<Rightarrow> (terms @ [t], dropped) | Inl raw \<Rightarrow> (terms, dropped @ [raw])) })
      (ts, ds) toks
    = Some (ts @ kept_terms (map (classify s) toks), ds @ dropped_of (map (classify s) toks))"
proof (induction toks arbitrary: ts ds)
  case (Cons tok toks)
  obtain t u v where tok: "tok = (t, u, v)" by (cases tok) auto
  have IH: "foldO (\<lambda>(terms, dropped) (text, unterminated, starts_quoted).
        if unterminated then Some (terms, dropped @ [text])
        else do { r \<leftarrow> parse_term text starts_quoted s;
                  Some (case r of Inr t \<Rightarrow> (terms @ [t], dropped) | Inl raw \<Rightarrow> (terms, dropped @ [raw])) })
      (ts', ds') toks
    = Some (ts' @ kept_terms (map (classify s) toks), ds' @ dropped_of (map (classify s) toks))" for ts' ds'
    by (rule Cons.IH) (use Cons.prems in auto)
  show ?case
  proof (cases u)
    case True
    then have "classify s tok = Inl t" by (simp add: classify_def tok)
    with True show ?thesis by (simp add: tok IH)
  next
    case False
    have "utf8_valid t" using Cons.prems tok by auto
    then obtain r where r: "parse_term t v s = Some r" using parse_term_total by blast
    with False have "classify s tok = r" by (simp add: classify_def tok)
    with False r show ?thesis by (cases r) (simp_all add: tok IH)
  qed
qed simp

lemma parse_query_eq:
  assumes "utf8_valid q"
  shows "parse_query q s = Some (kept_terms (map (classify s) (tokenize q)), dropped_of (map (classify s) (tokenize q)))"
  unfolding parse_query_def using parse_query_loop [of "tokenize q" s "[]" "[]"] tokenize_valid [OF assms] by auto






section \<open>Writing queries\<close>

text \<open>A term as a user writes it: a word without quotes or whitespace, or any text in quotes with its
  quotes escaped.\<close>
datatype query_item = Word string | Quoted string

definition item_ok :: "query_item \<Rightarrow> bool" where
  "item_ok i =
    (case i of
       Word w \<Rightarrow> w \<noteq> [] \<and> utf8_valid w \<and> list_all (\<lambda>c. c \<noteq> QUOTE \<and> \<not> is_whitespace c) (chars w)
     | Quoted p \<Rightarrow> p \<noteq> [] \<and> utf8_valid p \<and> list_all (\<lambda>c. c \<noteq> BACKSLASH) (chars p))"

definition escape :: "rchar list \<Rightarrow> rchar list" where
  "escape cs = concat (map (\<lambda>c. if c = QUOTE then [BACKSLASH, QUOTE] else [c]) cs)"

definition item_chars :: "query_item \<Rightarrow> rchar list" where
  "item_chars i = (case i of Word w \<Rightarrow> chars w | Quoted p \<Rightarrow> QUOTE # escape (chars p) @ [QUOTE])"

definition item_token :: "query_item \<Rightarrow> token" where
  "item_token i = (case i of Word w \<Rightarrow> (w, False, False) | Quoted p \<Rightarrow> (p, False, True))"

definition render :: "query_item list \<Rightarrow> string" where
  "render is = concat (map (\<lambda>i. concat (item_chars i) @ '' '') is)"

lemma tokenize_word:
  "list_all (\<lambda>c. c \<noteq> QUOTE \<and> \<not> is_whitespace c) cs \<Longrightarrow>
   tokenize_loop (cs @ rest) cur False sq = tokenize_loop rest (cur @ concat cs) False sq"
  by (induction cs arbitrary: cur) auto

lemma tokenize_quoted:
  "list_all (\<lambda>c. c \<noteq> BACKSLASH) cs \<Longrightarrow>
   tokenize_loop (escape cs @ QUOTE # rest) cur True sq = tokenize_loop rest (cur @ concat cs) False sq"
  by (induction cs arbitrary: cur) (auto simp: escape_def)

lemma is_whitespace_space: "is_whitespace '' ''"
  by (simp add: is_whitespace_def byte_def)

lemma is_whitespace_QUOTE [simp]: "\<not> is_whitespace QUOTE"
  by (simp add: is_whitespace_def byte_def)

lemma tokenize_item:
  assumes "item_ok i"
  shows "tokenize_loop (item_chars i @ '' '' # rest) [] False False = item_token i # tokenize_loop rest [] False False"
proof (cases i)
  case (Word w)
  with assms show ?thesis
    by (simp add: item_ok_def item_chars_def item_token_def tokenize_word is_whitespace_space)
next
  case (Quoted p)
  with assms show ?thesis
    by (simp add: item_ok_def item_chars_def item_token_def tokenize_quoted is_whitespace_space)
qed

lemma tokenize_items:
  "list_all item_ok is \<Longrightarrow>
   tokenize_loop (concat (map (\<lambda>i. item_chars i @ ['' '']) is)) [] False False = map item_token is"
  by (induction "is") (simp_all add: tokenize_item)

text \<open>Characters that were cut from well-formed text are cut again the same way.\<close>
definition is_char :: "rchar \<Rightarrow> bool" where
  "is_char c \<longleftrightarrow> utf8_valid c \<and> chars c = [c]"

lemma chars_concat: "list_all is_char cs \<Longrightarrow> chars (concat cs) = cs"
  by (induction cs) (simp_all add: is_char_def chars_append)

lemma is_char_chars: "utf8_valid s \<Longrightarrow> list_all is_char (chars s)"
proof (induction s rule: chars.induct)
  case (2 b bs)
  from utf8_valid_head [OF 2(2)] utf8_valid_width [OF 2(2)] 2(1) show ?case
    by (simp add: is_char_def min_absorb2)
qed simp

lemma is_char_ascii: "byte b < 0x80 \<Longrightarrow> is_char [b]"
  by (simp add: is_char_def utf8_valid.simps)

lemma item_chars_are_chars: "item_ok i \<Longrightarrow> list_all is_char (item_chars i)"
proof -
  have e: "list_all is_char cs \<Longrightarrow> list_all is_char (escape cs)" for cs
    by (induction cs) (auto simp: escape_def is_char_ascii byte_def)
  show "item_ok i \<Longrightarrow> ?thesis"
    by (cases i) (auto simp: item_ok_def item_chars_def e is_char_chars is_char_ascii byte_def)
qed

text \<open>
  C28. The tokenizer reads back what is written: for any list of terms, each a word without quotes
  or whitespace or an arbitrary non-empty text without backslashes put in quotes with its quotes
  escaped, separated by spaces, \<open>tokenize\<close> returns exactly those terms, in order, each marked
  as terminated and the quoted ones marked as literals.
\<close>
theorem tokenize_render:
  assumes "list_all item_ok is"
  shows "tokenize (render is) = map item_token is"
proof -
  let ?cs = "concat (map (\<lambda>i. item_chars i @ ['' '']) is)"
  have "render is = concat ?cs" unfolding render_def by (induction "is") simp_all
  moreover have "list_all is_char ?cs"
    using assms by (induction "is") (simp_all add: item_chars_are_chars is_char_ascii byte_def)
  ultimately show ?thesis using tokenize_items [OF assms] by (simp add: tokenize_def chars_concat)
qed

theorem tokenize_render_witness:
  "tokenize (render [Word ''service=web'', Quoted ''db query'']) = [(''service=web'', False, False), (''db query'', False, True)]"
proof -
  have "list_all item_ok [Word ''service=web'', Quoted ''db query'']"
    by (auto simp: item_ok_def byte_def is_whitespace_def utf8_width_def intro!: utf8_valid_ascii)
  from tokenize_render [OF this] show ?thesis by (simp add: item_token_def)
qed

text \<open>
  An empty pair of quotes leaks: it produces no token of its own but leaves the flag that the
  next token started with a quote, so in \<open>"" status=error\<close> the status term is taken as literal
  text to search for, and nothing is reported as dropped.
\<close>
lemma empty_quotes_leak:
  "parse_query (QUOTE @ QUOTE @ '' status=error'') s = Some ([Substring ''status=error''], [])
   \<and> parse_query ''status=error'' s = Some ([Status Eq 2], [])"
  by (simp add: parse_query_def tokenize_def utf8_width_def byte_def is_whitespace_def parse_term_def
      is_key_char_def is_key_start_def is_ascii_alphabetic_def is_ascii_digit_def str_to_def str_from_def
      is_char_boundary_def is_cont_def OPS_def starts_with_def)

section \<open>What a filter selects\<close>

text \<open>The meaning of a term on a row, without the layout: the values the span carries under a key, the
  resolved service name, the elapsed time as a number.\<close>
definition values_under :: "span_row \<Rightarrow> u32 \<Rightarrow> attr_value list" where
  "values_under r k = map snd (filter (\<lambda>kv. fst kv = k) (r_attrs r))"

definition compares :: "filter_op \<Rightarrow> nat \<Rightarrow> nat \<Rightarrow> bool" where
  "compares op a b = (case op of Eq \<Rightarrow> a = b | Ne \<Rightarrow> a \<noteq> b | Gt \<Rightarrow> b < a | Gte \<Rightarrow> b \<le> a | Lt \<Rightarrow> a < b | Lte \<Rightarrow> a \<le> b)"

definition row_matches :: "store \<Rightarrow> filter_term \<Rightarrow> span_row \<Rightarrow> bool" where
  "row_matches s t r =
    (case t of
       Service op want \<Rightarrow>
         op = Eq \<and> Option.bind (r_service r) (service_name s) = Some want
         \<or> op = Ne \<and> Option.bind (r_service r) (service_name s) \<noteq> Some want
     | Status op want \<Rightarrow> op = Eq \<and> r_status_code r = want \<or> op = Ne \<and> r_status_code r \<noteq> want
     | Duration op want \<Rightarrow>
         unat (r_start r) \<le> unat (r_end r) \<and> compares op (unat (r_end r) - unat (r_start r)) (unat want)
     | Attr op None raw \<Rightarrow> False
     | Attr op (Some k) raw \<Rightarrow>
         (if values_under r k = [] then op = Ne else (\<exists>v \<in> set (values_under r k). attr_matches op v raw))
     | Substring needle \<Rightarrow>
         str_contains (r_name r) needle \<or> (\<exists>v \<in> snd ` set (r_attrs r). attr_contains v needle))"

lemma cmp_u64: "cmp (=) (<) (\<le>) op (a :: u64) b = compares op (unat a) (unat b)"
  by (cases op) (auto simp: cmp_def compares_def word_less_nat_alt word_le_nat_alt word_unat_eq_iff)

lemma matches_row:
  assumes "rows_ok rows" "i < length rows" "row_resolves ki (s_service_interner s) (rows ! i)"
  shows "matches t (repr tid gen la rows) s i = Some (row_matches s t (rows ! i))"
proof (cases t)
  case (Service op want)
  show ?thesis
  proof (cases "r_service (rows ! i)")
    case None
    then show ?thesis by (cases op) (simp_all add: Service matches_def row_matches_def repr_access [OF assms(2)])
  next
    case (Some k)
    with assms(3) obtain nm where "service_name s k = Some nm" by (auto simp: row_resolves_def service_name_def)
    with Some show ?thesis
      by (cases op) (auto simp: Service matches_def row_matches_def repr_access [OF assms(2)])
  qed
next
  case (Status op want)
  then show ?thesis by (cases op) (simp_all add: matches_def row_matches_def repr_access [OF assms(2)])
next
  case (Duration op want)
  show ?thesis
  proof (cases "checked_sub (r_end (rows ! i)) (r_start (rows ! i))")
    case None
    then have "\<not> unat (r_start (rows ! i)) \<le> unat (r_end (rows ! i))"
      by (simp add: checked_sub_def word_le_nat_alt split: if_splits)
    with None show ?thesis by (simp add: Duration matches_def row_matches_def repr_access [OF assms(2)])
  next
    case (Some d)
    then have "unat (r_start (rows ! i)) \<le> unat (r_end (rows ! i))"
      "unat d = unat (r_end (rows ! i)) - unat (r_start (rows ! i))" by (simp_all add: checked_sub_eq_Some)
    with Some show ?thesis by (simp add: Duration matches_def row_matches_def repr_access [OF assms(2)] cmp_u64)
  qed
next
  case (Attr op k raw)
  show ?thesis
    by (cases k) (simp_all add: Attr matches_def row_matches_def values_under_def repr_attrs [OF assms(1,2)]
        zip_map_fst_snd list_ex_iff)
next
  case (Substring needle)
  then show ?thesis
    by (auto simp: matches_def row_matches_def repr_access [OF assms(2)] repr_attrs [OF assms(1,2)] list_ex_iff)
qed

lemma get_filter_replies:
  assumes "store_inv n s" "params ''q'' = Some q" "utf8_valid q"
  shows "(from_hex path = None \<longrightarrow>
        get_filter s path params = Some (ApiBadRequest ''trace id must be 32 hex characters''))
    \<and> (\<forall>tid. from_hex path = Some tid \<and> trace s tid = None \<longrightarrow> get_filter s path params = Some ApiNotFound)
    \<and> (\<forall>tid tr. from_hex path = Some tid \<and> trace s tid = Some tr \<longrightarrow>
        (\<exists>rows terms dropped. tr = repr tid (t_generation tr) (t_last_activity tr) rows
          \<and> parse_query q s = Some (terms, dropped)
          \<and> get_filter s path params
              = Some (ApiOk \<lparr>indices = [i \<leftarrow> [0..<length rows]. \<forall>t \<in> set terms. row_matches s t (rows ! i)], dropped_terms = dropped\<rparr>)))"
proof (intro conjI allI impI)
  fix tid tr
  assume tr: "from_hex path = Some tid \<and> trace s tid = Some tr"
  from assms(1) tr obtain rows where rows: "rows_ok rows" "tr = repr tid (t_generation tr) (t_last_activity tr) rows"
    "\<forall>r \<in> set rows. row_resolves (s_key_interner s) (s_service_interner s) r"
    using resident_rows by blast
  obtain terms dropped where q: "parse_query q s = Some (terms, dropped)" using parse_query_eq [OF assms(3)] by blast
  obtain gen la where t: "tr = repr tid gen la rows" using rows(2) by blast
  have m: "matches t tr s i = Some (row_matches s t (rows ! i))" if "i < length rows" for t i
    using matches_row [OF rows(1) that bspec [OF rows(3) nth_mem [OF that]]] by (simp add: t)
  have "filterO (\<lambda>idx. allO (\<lambda>t. matches t tr s idx) terms) [0..<span_count tr]
      = Some [i \<leftarrow> [0..<span_count tr]. list_all (\<lambda>t. row_matches s t (rows ! i)) terms]"
    by (intro filterO_Some allO_Some m) (simp add: t)
  then have "get_filter s path params
      = Some (ApiOk \<lparr>indices = [i \<leftarrow> [0..<length rows]. \<forall>t \<in> set terms. row_matches s t (rows ! i)], dropped_terms = dropped\<rparr>)"
    using tr q by (simp add: get_filter_def assms(2) list_all_iff) (simp add: t)
  with rows(2) q show "\<exists>rows terms dropped. tr = repr tid (t_generation tr) (t_last_activity tr) rows
          \<and> parse_query q s = Some (terms, dropped)
          \<and> get_filter s path params
              = Some (ApiOk \<lparr>indices = [i \<leftarrow> [0..<length rows]. \<forall>t \<in> set terms. row_matches s t (rows ! i)], dropped_terms = dropped\<rparr>)"
    by blast
qed (simp_all add: get_filter_def)

lemma from_hex_sample: "from_hex (to_hex sample_trace_id) = Some sample_trace_id"
  by (rule from_hex_to_hex) (simp add: wf_simps)

text \<open>A store holding one sample span.\<close>
lemma sample_store:
  obtains s tr where "store_inv 0 s" "trace s sample_trace_id = Some tr" "t_span_ids tr = [SpanId (replicate 8 1)]"
    "\<forall>tid. tid \<noteq> sample_trace_id \<longrightarrow> trace s tid = None"
proof -
  have room: "length (ns_attributes (sample_span 1 None [])) < 2 ^ 32" by simp
  from insert_new_store [OF this, of 80 sample_trace_id 7] obtain s out where
    e: "insert_span_no_evict (store_new 80) sample_trace_id (sample_span 1 None []) 7 = Some (s, out)" "store_inv 0 s"
    by auto
  have new: "resident_ids (store_new 80) sample_trace_id = []" by (simp add: resident_ids_def store_new_def trace_def)
  from insert_effect(1) [OF store_inv_new [of 0 80] _ e(1)] room obtain t' where
    "trace s = (trace (store_new 80))(sample_trace_id \<mapsto> t')" "t_span_ids t' = [SpanId (replicate 8 1)]"
    by (auto simp: new)
  then show thesis using e(2) by (intro that [of s t']) (simp_all add: store_new_def trace_def)
qed

text \<open>
  C14. The filter endpoint.  On any store the writer can produce and for any valid UTF-8 query it
  answers without a panic: 400 for an id that is not 32 hexadecimal characters, 404 for a trace
  that is not resident, and otherwise exactly the positions, in ascending order, of the spans
  that match every kept term, with the dropped terms reported.
\<close>
theorem get_filter_exact:
  assumes "store_inv n s" "params ''q'' = Some q" "utf8_valid q"
  shows "(from_hex path = None \<longrightarrow>
        get_filter s path params = Some (ApiBadRequest ''trace id must be 32 hex characters''))
    \<and> (\<forall>tid. from_hex path = Some tid \<and> trace s tid = None \<longrightarrow> get_filter s path params = Some ApiNotFound)
    \<and> (\<forall>tid tr. from_hex path = Some tid \<and> trace s tid = Some tr \<longrightarrow>
        (\<exists>rows terms dropped. tr = repr tid (t_generation tr) (t_last_activity tr) rows
          \<and> parse_query q s = Some (terms, dropped)
          \<and> get_filter s path params
              = Some (ApiOk \<lparr>indices = [i \<leftarrow> [0..<length rows]. \<forall>t \<in> set terms. row_matches s t (rows ! i)], dropped_terms = dropped\<rparr>)))"
  using assms by (rule get_filter_replies)

theorem get_filter_exact_witness:
  "\<exists>s rows terms dropped. store_inv 0 s \<and> length rows = 1
     \<and> get_filter s (to_hex sample_trace_id) [''q'' \<mapsto> ''op'']
         = Some (ApiOk \<lparr>indices = [i \<leftarrow> [0..<length rows]. \<forall>t \<in> set terms. row_matches s t (rows ! i)], dropped_terms = dropped\<rparr>)"
proof -
  obtain s tr where s: "store_inv 0 s" "trace s sample_trace_id = Some tr" "t_span_ids tr = [SpanId (replicate 8 1)]"
    by (rule sample_store)
  have q: "utf8_valid ''op''" by (rule utf8_valid_ascii) (auto simp: byte_def)
  have p: "[''q'' \<mapsto> ''op''] ''q'' = Some ''op''" by simp
  from get_filter_exact [of 0 s "[''q'' \<mapsto> ''op'']", OF s(1) p q, of "to_hex sample_trace_id"] from_hex_sample s(2)
  obtain rows terms dropped where r: "tr = repr sample_trace_id (t_generation tr) (t_last_activity tr) rows"
    "get_filter s (to_hex sample_trace_id) [''q'' \<mapsto> ''op'']
         = Some (ApiOk \<lparr>indices = [i \<leftarrow> [0..<length rows]. \<forall>t \<in> set terms. row_matches s t (rows ! i)], dropped_terms = dropped\<rparr>)"
    by blast
  have "t_span_ids tr = map r_span_id rows" using r(1) by (metis repr_sel(4))
  with s(3) have "length rows = 1" by (metis length_map One_nat_def length_Cons list.size(3))
  with s(1) r(2) show ?thesis by blast
qed

section \<open>Equality on attribute text\<close>

definition attr_text :: "attr_value \<Rightarrow> string" where
  "attr_text v =
    (case v of
       Str s \<Rightarrow> s
     | Int64 i \<Rightarrow> int_to_string (sint i)
     | Double d \<Rightarrow> display_f64 d
     | Bool b \<Rightarrow> if b then ''true'' else ''false'')"

lemma digit_not_sign:
  assumes "all_digits ds" "ds \<noteq> []"
  shows "hd ds \<noteq> CHR ''-''" "hd ds \<noteq> CHR ''+''"
  using assms by (cases ds; auto simp: to_digit_def byte_def Let_def split: if_splits)+

lemma from_str_radix_nat:
  "from_str_radix_unsigned hi 10 (nat_to_string n) = (if n < hi then Some n else None)"
proof -
  obtain c cs where c: "nat_to_string n = c # cs" using nat_to_string_digits [of n] by (cases "nat_to_string n") auto
  moreover have "c \<noteq> CHR ''+''" using nat_to_string_digits [of n] digit_not_sign(2) [of "c # cs"] c by simp
  moreover have "digits_val 10 0 (c # cs) = Some n" using digits_val_nat [of n] c by simp
  ultimately show ?thesis by (simp add: from_str_radix_unsigned_def del: digits_val.simps)
qed

lemma parse_i64_display: "parse_i64 (int_to_string (sint i)) = Some i"
proof -
  have lo: "- (2 ^ 63) \<le> sint i" and hi: "sint i < 2 ^ 63"
    using sint_ge [of i] sint_lt [of i] by simp_all
  show ?thesis
  proof (cases "sint i < 0")
    case True
    have "int (nat (- sint i)) = - sint i" using True by simp
    then have "- of_nat (nat (- sint i)) = (of_int (sint i) :: i64)"
      by (metis minus_minus of_int_minus of_int_of_nat_eq)
    with True lo show ?thesis
      using nat_to_string_digits [of "nat (- sint i)"]
      by (simp add: parse_i64_def int_to_string_def digits_val_nat)
  next
    case False
    then have "int (nat (sint i)) = sint i" by simp
    then have "of_nat (nat (sint i)) = (of_int (sint i) :: i64)" by (metis of_int_of_nat_eq)
    moreover have "nat (sint i) < 2 ^ 63" using False hi by simp
    ultimately show ?thesis
      using False from_str_radix_nat [of "2 ^ 63" "nat (sint i)"] nat_to_string_digits [of "nat (sint i)"]
        digit_not_sign(1) [of "nat_to_string (nat (sint i))"]
      by (simp add: parse_i64_def int_to_string_def)
  qed
qed

text \<open>
  C29. A value matches its own text: for every attribute value that is not a NaN, filtering by
  equality with the text the value displays as (shortest decimal for a double, decimal for an
  integer) selects it, filtering by inequality does not, and the text is found as a substring.
\<close>
theorem attr_matches_own_text:
  assumes "\<And>d. v = Double d \<Longrightarrow> \<not> is_nan d"
  shows "attr_matches Eq v (attr_text v) \<and> \<not> attr_matches Ne v (attr_text v) \<and> attr_contains v (attr_text v)"
proof -
  have "attr_equals v (attr_text v)"
  proof (cases v)
    case (Double d)
    with assms show ?thesis by (simp add: attr_equals_def attr_text_def parse_display f64_eq_refl)
  qed (simp_all add: attr_equals_def attr_text_def parse_i64_display)
  moreover have "attr_contains v (attr_text v)"
    by (cases v) (simp_all add: attr_contains_def attr_text_def str_contains_def)
  ultimately show ?thesis by (simp add: attr_matches_def)
qed

theorem attr_matches_own_text_witness:
  "attr_matches Eq (Double 0x3FF8000000000000) (attr_text (Double 0x3FF8000000000000))
   \<and> \<not> is_nan 0x3FF8000000000000"
proof -
  have n: "\<not> is_nan 0x3FF8000000000000" by (simp add: is_nan_def f64_mag_def inf_mag_def)
  with attr_matches_own_text [of "Double 0x3FF8000000000000"] show ?thesis by simp
qed

section \<open>Ordering integer attributes\<close>

lemma attr_order:
  "attr_matches Gt (Int64 i) (int_to_string j) = f64_lt (f64_of_int j) (f64_of_int (sint i))"
  "attr_matches Lt (Int64 i) (int_to_string j) = f64_lt (f64_of_int (sint i)) (f64_of_int j)"
  "attr_matches Gte (Int64 i) (int_to_string j) = f64_le (f64_of_int j) (f64_of_int (sint i))"
  "attr_matches Lte (Int64 i) (int_to_string j) = f64_le (f64_of_int (sint i)) (f64_of_int j)"
  by (simp_all add: attr_matches_def attr_number_def i64_as_f64_eq parse_f64_int cmp_def)

text \<open>
  C30. Comparing an integer attribute with the decimal text of an integer goes through \<open>f64\<close>, and
  rounding keeps the order: \<open>>\<close> and \<open><\<close> select a span only if its integer really is greater or
  smaller, \<open>>=\<close> and \<open><=\<close> miss none that qualifies, whatever the two integers; up to \<open>2 ^ 53\<close> in
  absolute value the four operators are exactly the order of the integers.
\<close>
theorem integer_filters_order:
  "(attr_matches Gt (Int64 i) (int_to_string j) \<longrightarrow> j < sint i)
   \<and> (attr_matches Lt (Int64 i) (int_to_string j) \<longrightarrow> sint i < j)
   \<and> (j \<le> sint i \<longrightarrow> attr_matches Gte (Int64 i) (int_to_string j))
   \<and> (sint i \<le> j \<longrightarrow> attr_matches Lte (Int64 i) (int_to_string j))
   \<and> (\<bar>sint i\<bar> \<le> 2 ^ 53 \<and> \<bar>j\<bar> \<le> 2 ^ 53 \<longrightarrow>
        attr_matches Gt (Int64 i) (int_to_string j) = (j < sint i)
        \<and> attr_matches Lt (Int64 i) (int_to_string j) = (sint i < j)
        \<and> attr_matches Gte (Int64 i) (int_to_string j) = (j \<le> sint i)
        \<and> attr_matches Lte (Int64 i) (int_to_string j) = (sint i \<le> j))"
  unfolding attr_order using f64_int_order [of j "sint i"] f64_int_order [of "sint i" j] by blast

theorem integer_filters_order_witness:
  "attr_matches Gt (Int64 500) ''499'' \<and> \<not> attr_matches Lt (Int64 500) ''499''"
proof -
  have "int_to_string 499 = ''499''" by code_simp
  with integer_filters_order [of 500 499] show ?thesis by simp
qed

text \<open>Above \<open>2 ^ 53\<close> they are not: two integers that \<open>=\<close> tells apart are \<open><=\<close> and \<open>>=\<close> each other.\<close>
lemma large_integers_collapse:
  "attr_matches Lte (Int64 9007199254740993) (int_to_string 9007199254740992)
   \<and> attr_matches Gte (Int64 9007199254740993) (int_to_string 9007199254740992)
   \<and> \<not> attr_matches Gt (Int64 9007199254740993) (int_to_string 9007199254740992)
   \<and> \<not> attr_matches Eq (Int64 9007199254740993) (int_to_string 9007199254740992)"
proof -
  have s: "sint (9007199254740993 :: i64) = 9007199254740993" by simp
  have "round_mag 9007199254740993 1 = round_mag 9007199254740992 1"
    by (simp add: round_mag_at_54_bits [simplified] round_div_def)
  then have e: "f64_of_int 9007199254740993 = f64_of_int 9007199254740992"
    by (simp add: f64_of_int_def)
  have "parse_i64 (int_to_string (sint (9007199254740992 :: i64))) = Some 9007199254740992"
    by (rule parse_i64_display)
  then have "\<not> attr_matches Eq (Int64 9007199254740993) (int_to_string 9007199254740992)"
    by (simp add: attr_matches_def attr_equals_def)
  then show ?thesis using f64_int_order(2) [of 9007199254740992 9007199254740992]
    by (simp add: attr_order s e f64_lt_def)
qed

section \<open>Durations\<close>

text \<open>The units of a duration, in nanoseconds.\<close>
definition duration_units :: "(string \<times> nat) list" where
  "duration_units = [(''ms'', 10 ^ 6), (''us'', 10 ^ 3), (''ns'', 1), (''s'', 10 ^ 9), ([], 1)]"

lemma strip_unit:
  assumes "all_digits ds" "ds \<noteq> []"
  shows "p \<in> {''ms'', ''us'', ''ns''} \<Longrightarrow> u \<in> {''ms'', ''us'', ''ns'', ''s'', []} \<Longrightarrow>
      strip_suffix (ds @ u) p = (if u = p then Some ds else None)"
    and "u \<in> {''s'', []} \<Longrightarrow> strip_suffix (ds @ u) ''s'' = (if u = ''s'' then Some ds else None)"
proof -
  obtain es c where ds: "ds = es @ [c]" using assms(2) by (cases ds rule: rev_cases) auto
  then have "to_digit 10 c \<noteq> None" using assms(1) by (auto simp: all_digits_def)
  then have c: "c \<noteq> CHR ''s''" "c \<noteq> CHR ''m''" "c \<noteq> CHR ''u''" "c \<noteq> CHR ''n''"
    by (auto simp: to_digit_def byte_def Let_def)
  show "p \<in> {''ms'', ''us'', ''ns''} \<Longrightarrow> u \<in> {''ms'', ''us'', ''ns'', ''s'', []} \<Longrightarrow>
      strip_suffix (ds @ u) p = (if u = p then Some ds else None)"
    and "u \<in> {''s'', []} \<Longrightarrow> strip_suffix (ds @ u) ''s'' = (if u = ''s'' then Some ds else None)"
    using c by (auto simp: ds strip_suffix_def suffix_to_prefix)
qed

lemma parse_duration_nat:
  assumes "(u, m) \<in> set duration_units"
  shows "parse_duration (nat_to_string n @ u) = (if n * m < 2 ^ 64 then Some (of_nat (n * m)) else None)"
proof -
  note d = nat_to_string_digits [of n, THEN conjunct1] nat_to_string_digits [of n, THEN conjunct2]
  have m: "m \<in> {10 ^ 6, 10 ^ 3, 1, 10 ^ 9}" using assms by (auto simp: duration_units_def)
  have u64: "Option.bind (parse_u64 (nat_to_string n)) (\<lambda>k. checked_mul k (of_nat m))
      = (if n * m < 2 ^ 64 then Some (of_nat (n * m)) else None)"
  proof (cases "n < 2 ^ 64")
    case True
    have "unat (of_nat n :: u64) = n" "unat (of_nat m :: u64) = m"
      using True m by (auto simp: unat_of_nat take_bit_nat_eq_self)
    with True show ?thesis by (simp add: parse_u64_def from_str_radix_nat checked_mul_def)
  next
    case False
    have "n \<le> n * m" using m by auto
    with False have "\<not> n * m < 2 ^ 64" by linarith
    with False show ?thesis by (simp add: parse_u64_def from_str_radix_nat)
  qed
  have u: "u \<in> {''ms'', ''us'', ''ns'', ''s'', []}" using assms by (auto simp: duration_units_def)
  note two = strip_unit(1) [OF d _ u]
  have strip: "strip_suffix (nat_to_string n @ u) ''ms'' = (if u = ''ms'' then Some (nat_to_string n) else None)"
    "strip_suffix (nat_to_string n @ u) ''us'' = (if u = ''us'' then Some (nat_to_string n) else None)"
    "strip_suffix (nat_to_string n @ u) ''ns'' = (if u = ''ns'' then Some (nat_to_string n) else None)"
    by (rule two; simp)+
  consider "u = ''ms''" "m = 10 ^ 6" | "u = ''us''" "m = 10 ^ 3" | "u = ''ns''" "m = 1"
    | "u = ''s''" "m = 10 ^ 9" | "u = []" "m = 1"
    using assms by (auto simp: duration_units_def)
  then have "parse_duration (nat_to_string n @ u) = Option.bind (parse_u64 (nat_to_string n)) (\<lambda>k. checked_mul k (of_nat m))"
  proof cases
    case 4
    with strip strip_unit(2) [OF d, of u] show ?thesis by (simp add: parse_duration_def)
  next
    case 5
    with strip strip_unit(2) [OF d, of u] show ?thesis by (simp add: parse_duration_def)
  qed (use strip in \<open>simp_all add: parse_duration_def\<close>)
  with u64 show ?thesis by simp
qed

lemma chars_ascii: "\<forall>c \<in> set s. byte c < 0x80 \<Longrightarrow> chars (s @ t) = map (\<lambda>c. [c]) s @ chars t"
  by (induction s) (simp_all add: utf8_width_def)

lemma parse_term_duration:
  assumes "(pre, op) \<in> set OPS" "d \<noteq> []" "to_digit 10 (hd d) \<noteq> None" "utf8_valid d"
  shows "parse_term (''duration'' @ pre @ d) False s =
    Some (case parse_duration d of Some nanos \<Rightarrow> Inr (Duration op nanos) | None \<Rightarrow> Inl (''duration'' @ pre @ d))"
proof -
  obtain c cs where d': "d = c # cs" "to_digit 10 c \<noteq> None" using assms(2,3) by (cases d) auto
  then have c: "c \<noteq> CHR ''=''" by (auto simp: to_digit_def byte_def Let_def)
  have "pre \<noteq> [] \<and> (\<forall>x \<in> set pre. byte x < 0x80) \<and> \<not> is_key_char [hd pre]"
    using assms(1)
    by (auto simp: OPS_def byte_def is_key_char_def is_ascii_alphabetic_def is_ascii_digit_def)
  then obtain p ps where p: "pre = p # ps" "\<forall>x \<in> set pre. byte x < 0x80" "\<not> is_key_char [p]"
    by (cases pre) simp_all
  define kw where "kw = ''duration''"
  have key: "\<forall>x \<in> set kw. byte x < 0x80" "\<forall>x \<in> set kw. is_key_char [x]"
    by (simp_all add: kw_def byte_def is_key_char_def is_ascii_alphabetic_def is_ascii_digit_def)
  have ch: "chars (kw @ pre @ d) = map (\<lambda>c. [c]) kw @ [p] # map (\<lambda>c. [c]) ps @ chars d"
    unfolding chars_ascii [OF key(1)] chars_ascii [OF p(2)] unfolding p(1) by simp
  have tw: "length (takeWhile is_key_char (chars (kw @ pre @ d))) = length kw"
    unfolding ch using key(2) p(3) by (subst takeWhile_append2) auto
  have hd: "chars (kw @ pre @ d) \<noteq> []" "is_key_start (hd (chars (kw @ pre @ d)))"
    unfolding ch by (simp_all add: kw_def is_key_start_def is_ascii_alphabetic_def byte_def)
  have pre: "utf8_valid pre" using p(2) by (intro utf8_valid_ascii) blast
  have key8: "utf8_valid kw" using key(1) by (intro utf8_valid_ascii) blast
  have v: "utf8_valid (pre @ d)" "utf8_valid (kw @ pre @ d)" using pre key8 assms(4) by (simp_all only: utf8_valid_append)
  note sl = str_slices [OF key8 v(2)] str_slices(2) [OF pre v(1)]
  have find: "List.find (\<lambda>p. starts_with (pre @ d) (fst p)) OPS = Some (pre, op)"
    using assms(1) [unfolded OPS_def list.set insert_iff empty_iff simp_thms prod.inject] c
    by (elim disjE conjE) (simp_all add: OPS_def starts_with_def d'(1))
  have ne: "kw \<noteq> []" "pre \<noteq> []" using p(1) by (simp_all add: kw_def)
  have "parse_term (kw @ pre @ d) False s =
    Some (case parse_duration d of Some nanos \<Rightarrow> Inr (Duration op nanos) | None \<Rightarrow> Inl (kw @ pre @ d))"
    unfolding parse_term_def Let_def tw if_P [OF conjI [OF hd]]
    using ne by (simp add: sl find) (simp add: kw_def)
  then show ?thesis unfolding kw_def .
qed

lemma duration_text_valid: "(u, m) \<in> set duration_units \<Longrightarrow> utf8_valid (nat_to_string n @ u)"
proof -
  assume u: "(u, m) \<in> set duration_units"
  have "byte c < 0x80" if "to_digit 10 c \<noteq> None" for c
    using that by (auto simp: to_digit_def Let_def split: if_splits)
  then have "\<forall>c \<in> set (nat_to_string n). byte c < 0x80" using nat_to_string_digits [of n] by (simp add: all_digits_def)
  moreover have "\<forall>c \<in> set u. byte c < 0x80" using u by (auto simp: duration_units_def byte_def)
  ultimately show ?thesis by (intro utf8_valid_ascii) auto
qed

text \<open>
  C31. Duration terms mean what they say.  For each of the six operators and each unit, \<open>ms\<close>, \<open>us\<close>, \<open>ns\<close>, \<open>s\<close> or
  none for nanoseconds, and any natural number written in decimal, a term such as \<open>duration>=150ms\<close>
  is parsed to that operator and exactly that many nanoseconds whenever they fit 64 bits, and is
  otherwise dropped and reported with its whole text: the product never wraps around.
\<close>
theorem duration_terms:
  assumes "(pre, op) \<in> set OPS" "(u, m) \<in> set duration_units"
  shows "parse_term (''duration'' @ pre @ nat_to_string n @ u) False s =
    Some (if n * m < 2 ^ 64 then Inr (Duration op (of_nat (n * m)))
          else Inl (''duration'' @ pre @ nat_to_string n @ u))"
proof -
  have d: "nat_to_string n @ u \<noteq> []" "to_digit 10 (hd (nat_to_string n @ u)) \<noteq> None"
    using nat_to_string_digits [of n] by (cases "nat_to_string n"; simp)+
  from parse_term_duration [OF assms(1) d duration_text_valid [OF assms(2)]] parse_duration_nat [OF assms(2), of n]
  show ?thesis by (simp only: if_distrib [of Some] option.simps split: if_split) simp
qed

theorem duration_terms_witness:
  "parse_term (''duration'' @ ''>='' @ nat_to_string 150 @ ''ms'') False (store_new 80) = Some (Inr (Duration Gte 150000000))
   \<and> parse_term (''duration'' @ ''<'' @ nat_to_string 18446744074 @ ''s'') False (store_new 80)
       = Some (Inl (''duration'' @ ''<'' @ nat_to_string 18446744074 @ ''s''))"
proof -
  have "(''>='', Gte) \<in> set OPS" "(''<'', Lt) \<in> set OPS"
    "(''ms'', 1000000) \<in> set duration_units" "(''s'', 1000000000) \<in> set duration_units"
    by (simp_all add: OPS_def duration_units_def)
  from duration_terms [OF this(1,3), of 150 "store_new 80"] duration_terms [OF this(2,4), of 18446744074 "store_new 80"]
  show ?thesis by simp
qed

section \<open>Inequality\<close>

lemma matches_resident:
  assumes "store_inv n s" "trace s tid = Some tr" "i < span_count tr"
  obtains r where "\<And>t. matches t tr s i = Some (row_matches s t r)"
    "status_code tr i = Some (r_status_code r)" "service_name_id tr i = Some (r_service r)"
    "attribute_keys tr i = Some (map fst (r_attrs r))" "attributes tr i = Some (map snd (r_attrs r))"
proof -
  from assms(1,2) obtain rows where rows: "rows_ok rows" "tr = repr tid (t_generation tr) (t_last_activity tr) rows"
    "\<forall>r \<in> set rows. row_resolves (s_key_interner s) (s_service_interner s) r" by (rule resident_rows)
  obtain gen la where t: "tr = repr tid gen la rows" using rows(2) by blast
  have i: "i < length rows" using assms(3) by (simp add: t)
  show thesis
    using matches_row [OF rows(1) i bspec [OF rows(3) nth_mem [OF i]]]
    by (intro that [of "rows ! i"]) (simp_all add: t repr_access [OF i] repr_attrs [OF rows(1) i])
qed

text \<open>
  C32. \<open>!=\<close> against \<open>=\<close>, as \<open>Term::matches\<close> decides them on any span of a resident trace; no
  call panics.  A service term matches with \<open>=\<close> exactly when the span has a service of that name, a status
  term when it has that code, and \<open>!=\<close> is the complement, also for a span without a service name.
  For an attribute key that some span has carried, a span without the key matches \<open>!=\<close> and not \<open>=\<close>,
  and on a span with one value under the key \<open>!=\<close> is the complement of \<open>=\<close>.  For a key that the interner
  does not know, however, no span matches, neither with \<open>=\<close> nor with \<open>!=\<close>.
\<close>
theorem not_equal_is_complement:
  assumes "store_inv n s" "trace s tid = Some tr" "i < span_count tr"
  shows "(\<exists>b. matches (Service Eq want) tr s i = Some b \<and> matches (Service Ne want) tr s i = Some (\<not> b)
        \<and> (b \<longleftrightarrow> (\<exists>k. service_name_id tr i = Some (Some k) \<and> service_name s k = Some want)))
    \<and> (\<exists>b. matches (Status Eq code) tr s i = Some b \<and> matches (Status Ne code) tr s i = Some (\<not> b)
        \<and> (b \<longleftrightarrow> status_code tr i = Some code))
    \<and> (case attribute_key_id s key of
         None \<Rightarrow> matches (Attr Eq (attribute_key_id s key) raw) tr s i = Some False
           \<and> matches (Attr Ne (attribute_key_id s key) raw) tr s i = Some False
       | Some k \<Rightarrow> \<exists>ks vs. attribute_keys tr i = Some ks \<and> attributes tr i = Some vs \<and> length vs = length ks
           \<and> (k \<notin> set ks \<longrightarrow> matches (Attr Eq (attribute_key_id s key) raw) tr s i = Some False
                \<and> matches (Attr Ne (attribute_key_id s key) raw) tr s i = Some True)
           \<and> (\<forall>v. filter (\<lambda>kv. fst kv = k) (zip ks vs) = [(k, v)] \<longrightarrow>
                matches (Attr Eq (attribute_key_id s key) raw) tr s i = Some (attr_matches Eq v raw)
                \<and> matches (Attr Ne (attribute_key_id s key) raw) tr s i = Some (\<not> attr_matches Eq v raw)))"
proof -
  from assms obtain r where r: "\<And>t. matches t tr s i = Some (row_matches s t r)"
    "status_code tr i = Some (r_status_code r)" "service_name_id tr i = Some (r_service r)"
    "attribute_keys tr i = Some (map fst (r_attrs r))" "attributes tr i = Some (map snd (r_attrs r))"
    by (rule matches_resident) blast
  have svc: "\<exists>b. matches (Service Eq want) tr s i = Some b \<and> matches (Service Ne want) tr s i = Some (\<not> b)
        \<and> (b \<longleftrightarrow> (\<exists>k. service_name_id tr i = Some (Some k) \<and> service_name s k = Some want))"
    by (intro exI [of _ "Option.bind (r_service r) (service_name s) = Some want"]) (cases "r_service r"; simp add: r row_matches_def)
  have st: "\<exists>b. matches (Status Eq code) tr s i = Some b \<and> matches (Status Ne code) tr s i = Some (\<not> b)
        \<and> (b \<longleftrightarrow> status_code tr i = Some code)"
    by (simp add: r row_matches_def)
  have absent: "row_matches s (Attr op (Some k) raw) r = (op = Ne)" if "k \<notin> fst ` set (r_attrs r)" for op k
  proof -
    have "values_under r k = []" using that by (force simp: values_under_def filter_empty_conv)
    then show ?thesis by (simp add: row_matches_def)
  qed
  have one: "row_matches s (Attr op (Some k) raw) r = attr_matches op v raw"
    if "filter (\<lambda>kv. fst kv = k) (r_attrs r) = [(k, v)]" for op k v
    using that by (simp add: row_matches_def values_under_def)
  have ne: "attr_matches Ne v raw = (\<not> attr_matches Eq v raw)" for v by (simp add: attr_matches_def)
  show ?thesis
  proof (cases "attribute_key_id s key")
    case None
    with svc st show ?thesis by (simp add: r row_matches_def)
  next
    case (Some k)
    with svc st show ?thesis by (simp add: r zip_map_fst_snd absent one ne)
  qed
qed

theorem not_equal_is_complement_witness:
  "\<exists>s tr. store_inv 0 s \<and> trace s sample_trace_id = Some tr \<and> 0 < span_count tr
     \<and> (\<exists>b. matches (Service Eq ''web'') tr s 0 = Some b \<and> matches (Service Ne ''web'') tr s 0 = Some (\<not> b))"
proof -
  obtain s tr where s: "store_inv 0 s" "trace s sample_trace_id = Some tr" "t_span_ids tr = [SpanId (replicate 8 1)]"
    by (rule sample_store)
  then have i: "0 < span_count tr" by (simp add: span_count_def)
  from not_equal_is_complement [OF s(1,2) i, of "''web''" 0 "''k''" "[]"] s(1,2) i show ?thesis by blast
qed

end
