(* ===== verification/Read_Api.thy ===== *)
theory Read_Api
  imports Query_Filter Receiver_State "HOL-Library.Char_ord" "HOL-Library.List_Lexorder"
begin

text \<open>
  \<open>src/api\<close> apart from the filter: the trace list, the columnar trace payload with its string table,
  the attributes of one span, the Receiver data, the event stream and the lint stub.  Every
  handler reads the store under its read lock, so it is a function of one store.
\<close>

section \<open>\<open>traces.rs\<close>: the list of traces\<close>

record trace_summary =
  ts_trace_id :: string
  ts_span_count :: nat
  ts_duration_nanos :: "u64 option"
  ts_services :: "string list"

text \<open>The \<open>BTreeSet<String>\<close> of a trace's service names.\<close>
definition services_of :: "store \<Rightarrow> trace \<Rightarrow> string set panics" where
  "services_of s t =
    foldO (\<lambda>services idx.
        do { sid \<leftarrow> service_name_id t idx;
             case sid of
               Some service_id \<Rightarrow> do { nm \<leftarrow> service_name s service_id; Some (insert nm services) }
             | None \<Rightarrow> Some services })
      {} [0..<span_count t]"

definition summarize :: "store \<Rightarrow> trace_id \<times> trace \<Rightarrow> trace_summary panics" where
  "summarize s e =
    do { services \<leftarrow> services_of s (snd e);
         Some \<lparr>ts_trace_id = to_hex (fst e), ts_span_count = span_count (snd e),
               ts_duration_nanos = duration_nanos (snd e), ts_services = sorted_list_of_set services\<rparr> }"

definition list_traces :: "hash_order \<Rightarrow> store \<Rightarrow> trace_summary list panics" where
  "list_traces ord s = mapO (summarize s) (traces ord s)"

section \<open>\<open>traces.rs\<close>: one trace\<close>

record string_table =
  st_strings :: "string list"
  st_index :: "string \<rightharpoonup> u32"

definition string_table_default :: string_table where
  "string_table_default = \<lparr>st_strings = [], st_index = Map.empty\<rparr>"

text \<open>\<open>StringTable::intern\<close>\<close>
definition table_intern :: "string_table \<Rightarrow> string \<Rightarrow> string_table \<times> u32" where
  "table_intern t s =
    (case st_index t s of
       Some i \<Rightarrow> (t, i)
     | None \<Rightarrow>
         let i = of_nat (length (st_strings t))
         in (t\<lparr>st_strings := st_strings t @ [s], st_index := (st_index t)(s \<mapsto> i)\<rparr>, i))"

record trace_payload =
  tp_trace_id :: string
  tp_generation :: u32
  tp_string_table :: "string list"
  tp_name_idx :: "u32 list"
  tp_parent_idx :: "nat option list"
  tp_start_time_unix_nano :: "u64 list"
  tp_end_time_unix_nano :: "u64 list"
  tp_status_message_idx :: "u32 list"
  tp_status_code :: "i32 list"
  tp_orphan :: "bool list"
  tp_unknown_service :: "bool list"
  tp_service_idx :: "u32 option list"

text \<open>The loop body of \<open>get_trace\<close>: it pushes one entry onto each column.  The state is the table and
  the payload under construction, whose string table is filled in at the end.\<close>
definition payload_row :: "store \<Rightarrow> trace \<Rightarrow> string_table \<times> trace_payload \<Rightarrow> nat \<Rightarrow> (string_table \<times> trace_payload) panics" where
  "payload_row s t st idx =
    do { let (table, p) = st;
         nm \<leftarrow> name t idx;
         let (table, name_i) = table_intern table nm;
         parent \<leftarrow> parent_idx t idx;
         start \<leftarrow> start_time_unix_nano t idx;
         stop \<leftarrow> end_time_unix_nano t idx;
         msg \<leftarrow> status_message t idx;
         let (table, msg_i) = table_intern table msg;
         code \<leftarrow> status_code t idx;
         orphan \<leftarrow> is_orphan t idx;
         unknown \<leftarrow> unknown_service t idx;
         sid \<leftarrow> service_name_id t idx;
         (table, svc) \<leftarrow> (case sid of
             None \<Rightarrow> Some (table, None)
           | Some i \<Rightarrow> do { nm \<leftarrow> service_name s i;
                            let (table, svc_i) = table_intern table nm;
                            Some (table, Some svc_i) });
         Some (table,
           p\<lparr>tp_name_idx := tp_name_idx p @ [name_i],
             tp_parent_idx := tp_parent_idx p @ [parent],
             tp_start_time_unix_nano := tp_start_time_unix_nano p @ [start],
             tp_end_time_unix_nano := tp_end_time_unix_nano p @ [stop],
             tp_status_message_idx := tp_status_message_idx p @ [msg_i],
             tp_status_code := tp_status_code p @ [code],
             tp_orphan := tp_orphan p @ [orphan],
             tp_unknown_service := tp_unknown_service p @ [unknown],
             tp_service_idx := tp_service_idx p @ [svc]\<rparr>) }"

definition payload_start :: "trace \<Rightarrow> trace_payload" where
  "payload_start t =
    \<lparr>tp_trace_id = to_hex (t_trace_id t), tp_generation = t_generation t, tp_string_table = [],
     tp_name_idx = [], tp_parent_idx = [], tp_start_time_unix_nano = [], tp_end_time_unix_nano = [],
     tp_status_message_idx = [], tp_status_code = [], tp_orphan = [], tp_unknown_service = [],
     tp_service_idx = []\<rparr>"

definition get_trace :: "store \<Rightarrow> string \<Rightarrow> trace_payload api_reply panics" where
  "get_trace s path =
    (case from_hex path of
       None \<Rightarrow> Some (ApiBadRequest ''trace id must be 32 hex characters'')
     | Some tid \<Rightarrow>
         (case trace s tid of
            None \<Rightarrow> Some ApiNotFound
          | Some t \<Rightarrow>
              do { (table, p) \<leftarrow> foldO (payload_row s t) (string_table_default, payload_start t) [0..<span_count t];
                   Some (ApiOk (p\<lparr>tp_string_table := st_strings table\<rparr>)) }))"

section \<open>\<open>attributes.rs\<close>\<close>

record attribute_entry =
  ae_key :: string
  ae_value :: attr_value

definition get_attributes :: "store \<Rightarrow> string \<Rightarrow> nat \<Rightarrow> attribute_entry list api_reply panics" where
  "get_attributes s path idx =
    (case from_hex path of
       None \<Rightarrow> Some (ApiBadRequest ''trace id must be 32 hex characters'')
     | Some tid \<Rightarrow>
         (case trace s tid of
            None \<Rightarrow> Some ApiNotFound
          | Some t \<Rightarrow>
              if span_count t \<le> idx then Some ApiNotFound
              else do { ks \<leftarrow> attribute_keys t idx; vs \<leftarrow> attributes t idx;
                        es \<leftarrow> mapO (\<lambda>kv. do { key \<leftarrow> attribute_key s (fst kv);
                                               Some \<lparr>ae_key = key, ae_value = snd kv\<rparr> }) (zip ks vs);
                        Some (ApiOk es) }))"

section \<open>\<open>receiver.rs\<close>, \<open>events.rs\<close>, \<open>lint.rs\<close>\<close>

record receiver_response =
  rsp_arrivals :: arrival_counts
  rsp_counters :: counters
  rsp_recent_rejects :: "reject_record list"

definition get_receiver :: "store \<Rightarrow> receiver_state \<Rightarrow> receiver_response" where
  "get_receiver s r =
    \<lparr>rsp_arrivals = arrivals r, rsp_counters = s_counters s, rsp_recent_rejects = recent (rejects r)\<rparr>"

text \<open>The data of the event sent for each sequence number the stream observes.\<close>
definition event_data :: "u64 \<Rightarrow> string" where
  "event_data seq =
    ''{'' @ QUOTE @ ''type'' @ QUOTE @ '':'' @ QUOTE @ ''changed'' @ QUOTE @ '','' @ QUOTE @ ''seq'' @ QUOTE @ '':''
      @ nat_to_string (unat seq) @ ''}''"

definition get_events :: "u64 list \<Rightarrow> string list" where
  "get_events seqs = map event_data seqs"

definition get_lint :: "unit list" where
  "get_lint = []"

section \<open>The string table is an interning table\<close>

text \<open>What a client does with an index of the payload.\<close>
definition str_at :: "string list \<Rightarrow> u32 \<Rightarrow> string panics" where
  "str_at strings i = vec_index strings (unat i)"

definition table_wf :: "nat \<Rightarrow> string_table \<Rightarrow> bool" where
  [wf_simps]: "table_wf n t \<longleftrightarrow>
     distinct (st_strings t) \<and> length (st_strings t) + n \<le> 2 ^ 32
     \<and> st_index t = (\<lambda>s. map_option of_nat (index_of (st_strings t) s))"

lemma table_wf_default: "n \<le> 2 ^ 32 \<Longrightarrow> table_wf n string_table_default"
  by (simp add: wf_simps string_table_default_def)

lemma table_intern_cases [consumes 1, case_names known new]:
  assumes "table_intern t s = (t', i)"
  obtains (known) "st_index t s = Some i" "t' = t"
  | (new) "st_index t s = None" "i = of_nat (length (st_strings t))"
    "t' = t\<lparr>st_strings := st_strings t @ [s], st_index := (st_index t)(s \<mapsto> i)\<rparr>"
  using assms by (auto simp: table_intern_def Let_def split: option.splits)

lemma table_wf_intern:
  assumes "table_wf (Suc n) t" "table_intern t s = (t', i)"
  shows "table_wf n t'"
  using assms(2)
proof (cases rule: table_intern_cases)
  case known
  with assms(1) show ?thesis by (simp add: wf_simps)
next
  case new
  then have "s \<notin> set (st_strings t)" using assms(1) by (simp add: wf_simps index_of_None)
  with new assms(1) show ?thesis by (auto simp: wf_simps index_of_snoc_fresh)
qed

lemma table_intern_get:
  assumes "table_wf (Suc n) t" "table_intern t s = (t', i)"
  shows "str_at (st_strings t') i = Some s"
  using assms(2)
proof (cases rule: table_intern_cases)
  case known
  with assms(1) obtain j where j: "index_of (st_strings t) s = Some j" "i = of_nat j" by (auto simp: wf_simps)
  from index_of_SomeD [OF j(1)] have "j < length (st_strings t)" "st_strings t ! j = s" by auto
  with assms(1) known j(2) show ?thesis by (simp add: str_at_def wf_simps)
next
  case new
  with assms(1) show ?thesis by (simp add: str_at_def wf_simps)
qed

lemma table_intern_stable:
  assumes "table_intern t s = (t', i)" "str_at (st_strings t) j = Some x"
  shows "str_at (st_strings t') j = Some x"
  using assms(1) by (cases rule: table_intern_cases)
    (use assms(2) in \<open>auto simp: str_at_def vec_index_eq_Some nth_append\<close>)

interpretation tbl: string_pool table_wf "\<lambda>t s. apsnd Some (table_intern t s)" "\<lambda>t. str_at (st_strings t)"
proof unfold_locales
  fix n t s t' r
  assume wf: "table_wf (Suc n) t" and i: "apsnd Some (table_intern t s) = (t', r)"
  obtain j where j: "table_intern t s = (t', j)" "r = Some j" using i by (cases "table_intern t s") auto
  show "table_wf n t'" using table_wf_intern [OF wf j(1)] .
next
  fix n t s t' i
  assume wf: "table_wf (Suc n) t" and i: "apsnd Some (table_intern t s) = (t', Some i)"
  then have "table_intern t s = (t', i)" by (cases "table_intern t s") auto
  with wf show "str_at (st_strings t') i = Some s" by (rule table_intern_get)
next
  fix n t s t' r i x
  assume "apsnd Some (table_intern t s) = (t', r)" "str_at (st_strings t) i = Some x"
  then show "str_at (st_strings t') i = Some x"
    by (cases "table_intern t s") (auto dest: table_intern_stable)
qed

section \<open>The payload decodes to the rows\<close>

definition service_text :: "store \<Rightarrow> span_row \<Rightarrow> string option" where
  "service_text s r = Option.bind (r_service r) (service_name s)"

text \<open>A client that resolves every index in the string table reads, column by column, the rows.\<close>
definition decodes :: "store \<Rightarrow> span_id list \<Rightarrow> span_row list \<Rightarrow> string list \<Rightarrow> trace_payload \<Rightarrow> bool" where
  "decodes s ids rows strings p \<longleftrightarrow>
     map (str_at strings) (tp_name_idx p) = map (Some \<circ> r_name) rows
     \<and> map (str_at strings) (tp_status_message_idx p) = map (Some \<circ> r_status_message) rows
     \<and> map (map_option (str_at strings)) (tp_service_idx p) = map (map_option Some \<circ> service_text s) rows
     \<and> tp_parent_idx p = map (parent_in ids \<circ> r_parent) rows
     \<and> tp_orphan p = map (orphan_in ids \<circ> r_parent) rows
     \<and> tp_start_time_unix_nano p = map r_start rows \<and> tp_end_time_unix_nano p = map r_end rows
     \<and> tp_status_code p = map r_status_code rows \<and> tp_unknown_service p = map r_unknown_service rows"

lemma map_str_at_mono:
  assumes "map (str_at xs) is = map (Some \<circ> f) rows"
    and "\<And>j x. str_at xs j = Some x \<Longrightarrow> str_at ys j = Some x"
  shows "map (str_at ys) is = map (Some \<circ> f) rows"
proof -
  have "length is = length rows" using assms(1) map_eq_imp_length_eq by blast
  moreover have "str_at ys (is ! k) = Some (f (rows ! k))" if "k < length rows" for k
    using arg_cong [OF assms(1), of "\<lambda>l. l ! k"] that calculation by (intro assms(2)) simp
  ultimately show ?thesis by (intro nth_equalityI) simp_all
qed

lemma map_opt_str_at_mono:
  assumes "map (map_option (str_at xs)) is = map (map_option Some \<circ> f) rows"
    and "\<And>j x. str_at xs j = Some x \<Longrightarrow> str_at ys j = Some x"
  shows "map (map_option (str_at ys)) is = map (map_option Some \<circ> f) rows"
proof -
  have len: "length is = length rows" using assms(1) map_eq_imp_length_eq by blast
  have "map_option (str_at ys) (is ! k) = map_option Some (f (rows ! k))" if "k < length rows" for k
  proof -
    have "map_option (str_at xs) (is ! k) = map_option Some (f (rows ! k))"
      using arg_cong [OF assms(1), of "\<lambda>l. l ! k"] that len by simp
    then show ?thesis by (cases "is ! k"; cases "f (rows ! k)") (auto intro: assms(2))
  qed
  with len show ?thesis by (intro nth_equalityI) simp_all
qed

lemma decodes_mono:
  assumes "decodes s ids rows xs p" "\<And>j x. str_at xs j = Some x \<Longrightarrow> str_at ys j = Some x"
  shows "decodes s ids rows ys p"
proof -
  have "map (str_at ys) (tp_name_idx p) = map (Some \<circ> r_name) rows"
    "map (str_at ys) (tp_status_message_idx p) = map (Some \<circ> r_status_message) rows"
    "map (map_option (str_at ys)) (tp_service_idx p) = map (map_option Some \<circ> service_text s) rows"
    using assms(1) unfolding decodes_def
    by (blast intro: map_str_at_mono [OF _ assms(2)] map_opt_str_at_mono [OF _ assms(2)])+
  with assms(1) show ?thesis by (simp add: decodes_def)
qed

lemma table_wf_less: "table_wf (Suc n) t \<Longrightarrow> table_wf n t"
  by (simp add: wf_simps)

text \<open>The optional interning of the service name.\<close>
lemma service_interned:
  assumes "table_wf (Suc n) tb" "row_resolves ki (s_service_interner s) r"
  obtains tb' svc where
    "(case r_service r of None \<Rightarrow> Some (tb, None)
      | Some i \<Rightarrow> do { nm \<leftarrow> service_name s i; let (table, svc_i) = table_intern tb nm; Some (table, Some svc_i) })
      = Some (tb', svc)"
    "table_wf n tb'" "map_option (str_at (st_strings tb')) svc = map_option Some (service_text s r)"
    "\<forall>j x. str_at (st_strings tb) j = Some x \<longrightarrow> str_at (st_strings tb') j = Some x"
proof (cases "r_service r")
  case None
  with table_wf_less [OF assms(1)] show thesis by (intro that [of tb None]) (simp_all add: service_text_def)
next
  case (Some k)
  with assms(2) obtain nm where nm: "service_name s k = Some nm" by (auto simp: row_resolves_def service_name_def)
  obtain tb' c where i: "table_intern tb nm = (tb', c)" by fastforce
  show thesis
  proof (rule that [of tb' "Some c"])
    show "table_wf n tb'" using table_wf_intern [OF assms(1) i] .
    show "map_option (str_at (st_strings tb')) (Some c) = map_option Some (service_text s r)"
      using table_intern_get [OF assms(1) i] Some nm by (simp add: service_text_def)
    show "\<forall>j x. str_at (st_strings tb) j = Some x \<longrightarrow> str_at (st_strings tb') j = Some x"
      using table_intern_stable [OF i] by blast
  qed (use Some nm i in simp)
qed

lemma payload_row_step:
  assumes "rows_ok rows" "i < length rows" "row_resolves ki (s_service_interner s) (rows ! i)"
    and wf: "table_wf (3 + n) tb"
    and dec: "decodes s (map r_span_id rows) (take i rows) (st_strings tb) p"
  obtains tb' p' where "payload_row s (repr tid gen la rows) (tb, p) i = Some (tb', p')" "table_wf n tb'"
    "decodes s (map r_span_id rows) (take (Suc i) rows) (st_strings tb') p'"
    "tp_trace_id p' = tp_trace_id p" "tp_generation p' = tp_generation p"
proof -
  let ?r = "rows ! i" and ?ids = "map r_span_id rows"
  obtain tb1 a where a: "table_intern tb (r_name ?r) = (tb1, a)" by fastforce
  obtain tb2 b where b: "table_intern tb1 (r_status_message ?r) = (tb2, b)" by fastforce
  have wf0: "table_wf (Suc (Suc (Suc n))) tb" using wf by (simp add: numeral_3_eq_3)
  note wf1 = table_wf_intern [OF wf0 a]
  note wf2 = table_wf_intern [OF wf1 b]
  from wf2 assms(3) obtain tb3 svc where
    c: "(case r_service ?r of None \<Rightarrow> Some (tb2, None)
      | Some i \<Rightarrow> do { nm \<leftarrow> service_name s i; let (table, svc_i) = table_intern tb2 nm; Some (table, Some svc_i) })
      = Some (tb3, svc)"
    and wf3: "table_wf n tb3" and svc: "map_option (str_at (st_strings tb3)) svc = map_option Some (service_text s ?r)"
    and st3: "\<forall>j x. str_at (st_strings tb2) j = Some x \<longrightarrow> str_at (st_strings tb3) j = Some x"
    by (rule service_interned)
  have st: "str_at (st_strings tb3) j = Some x" if "str_at (st_strings tb) j = Some x" for j x
    using st3 table_intern_stable [OF b] table_intern_stable [OF a] that by blast
  have na: "str_at (st_strings tb3) a = Some (r_name ?r)"
    using st3 table_intern_stable [OF b] table_intern_get [OF wf0 a] by blast
  have nb: "str_at (st_strings tb3) b = Some (r_status_message ?r)"
    using st3 table_intern_get [OF wf1 b] by blast
  let ?p = "p\<lparr>tp_name_idx := tp_name_idx p @ [a], tp_parent_idx := tp_parent_idx p @ [parent_in ?ids (r_parent ?r)],
             tp_start_time_unix_nano := tp_start_time_unix_nano p @ [r_start ?r],
             tp_end_time_unix_nano := tp_end_time_unix_nano p @ [r_end ?r],
             tp_status_message_idx := tp_status_message_idx p @ [b],
             tp_status_code := tp_status_code p @ [r_status_code ?r],
             tp_orphan := tp_orphan p @ [orphan_in ?ids (r_parent ?r)],
             tp_unknown_service := tp_unknown_service p @ [r_unknown_service ?r],
             tp_service_idx := tp_service_idx p @ [svc]\<rparr>"
  have "payload_row s (repr tid gen la rows) (tb, p) i = Some (tb3, ?p)"
    using c by (simp add: payload_row_def repr_access [OF assms(2)] a b)
  moreover have "decodes s ?ids (take (Suc i) rows) (st_strings tb3) ?p"
    using decodes_mono [OF dec st] assms(2) na nb svc by (simp add: decodes_def take_Suc_conv_app_nth)
  ultimately show thesis using wf3 by (intro that [of tb3 ?p]) simp_all
qed

lemma payload_loop:
  assumes "rows_ok rows" "\<forall>r \<in> set rows. row_resolves ki (s_service_interner s) r"
    and "k \<le> length rows" "table_wf (3 * k + m) tb" "decodes s (map r_span_id rows) [] (st_strings tb) p"
  shows "\<exists>tb' p'. foldO (payload_row s (repr tid gen la rows)) (tb, p) [0..<k] = Some (tb', p')
    \<and> table_wf m tb' \<and> decodes s (map r_span_id rows) (take k rows) (st_strings tb') p'
    \<and> tp_trace_id p' = tp_trace_id p \<and> tp_generation p' = tp_generation p"
  using assms(3,4)
proof (induction k arbitrary: m)
  case 0
  with assms(5) show ?case by simp
next
  case (Suc k)
  have "table_wf (3 * k + (3 + m)) tb" using Suc.prems(2) by (simp add: algebra_simps)
  from Suc.IH [OF _ this] Suc.prems(1) obtain tb1 p1 where
    l: "foldO (payload_row s (repr tid gen la rows)) (tb, p) [0..<k] = Some (tb1, p1)"
    "table_wf (3 + m) tb1" "decodes s (map r_span_id rows) (take k rows) (st_strings tb1) p1"
    "tp_trace_id p1 = tp_trace_id p" "tp_generation p1 = tp_generation p" by auto
  have k: "k < length rows" using Suc.prems(1) by simp
  from assms(1) k bspec [OF assms(2) nth_mem [OF k]] l(2,3) obtain tb2 p2 where
    "payload_row s (repr tid gen la rows) (tb1, p1) k = Some (tb2, p2)" "table_wf m tb2"
    "decodes s (map r_span_id rows) (take (Suc k) rows) (st_strings tb2) p2"
    "tp_trace_id p2 = tp_trace_id p1" "tp_generation p2 = tp_generation p1"
    by (rule payload_row_step)
  with l show ?case by (simp add: foldO_append)
qed

lemma get_trace_rows:
  assumes rows: "rows_ok rows" "\<forall>r \<in> set rows. row_resolves (s_key_interner s) (s_service_interner s) r"
    and "from_hex path = Some tid" "trace s tid = Some t" "t = repr tid gen la rows" "3 * length rows \<le> 2 ^ 32"
  shows "\<exists>p. get_trace s path = Some (ApiOk p)
    \<and> decodes s (map r_span_id rows) rows (tp_string_table p) p \<and> distinct (tp_string_table p)
    \<and> tp_trace_id p = to_hex tid \<and> tp_generation p = gen"
proof -
  have "table_wf (3 * length rows + 0) string_table_default" using assms(6) by (intro table_wf_default) simp
  moreover have "decodes s (map r_span_id rows) [] (st_strings string_table_default) (payload_start t)"
    by (simp add: decodes_def payload_start_def)
  ultimately obtain tb p where l:
    "foldO (payload_row s t) (string_table_default, payload_start t) [0..<length rows] = Some (tb, p)"
    "table_wf 0 tb" "decodes s (map r_span_id rows) rows (st_strings tb) p"
    "tp_trace_id p = to_hex tid" "tp_generation p = gen"
    using payload_loop [OF rows order_refl, where m = 0 and tb = string_table_default
      and p = "payload_start t" and tid = tid and gen = gen and la = la]
    by (auto simp: assms(5) payload_start_def)
  have "get_trace s path = Some (ApiOk (p\<lparr>tp_string_table := st_strings tb\<rparr>))"
    using l(1) by (simp add: get_trace_def assms(3,4)) (simp add: assms(5))
  moreover have "decodes s (map r_span_id rows) rows (st_strings tb) (p\<lparr>tp_string_table := st_strings tb\<rparr>)"
    using l(3) by (simp add: decodes_def)
  ultimately show ?thesis
    using l(2,4,5) by (intro exI [of _ "p\<lparr>tp_string_table := st_strings tb\<rparr>"]) (simp add: wf_simps)
qed

lemma get_trace_resident:
  assumes "store_inv n s" "from_hex path = Some tid" "trace s tid = Some t" "3 * span_count t \<le> 2 ^ 32"
  shows "\<exists>rows p. t = repr tid (t_generation t) (t_last_activity t) rows
    \<and> get_trace s path = Some (ApiOk p)
    \<and> decodes s (t_span_ids t) rows (tp_string_table p) p \<and> distinct (tp_string_table p)
    \<and> tp_trace_id p = to_hex tid \<and> tp_generation p = t_generation t"
proof -
  from assms(1,3) obtain rows where rows: "rows_ok rows" "t = repr tid (t_generation t) (t_last_activity t) rows"
    "\<forall>r \<in> set rows. row_resolves (s_key_interner s) (s_service_interner s) r"
    by (rule resident_rows)
  then have "span_count t = length rows" "t_span_ids t = map r_span_id rows" by (metis span_count_repr, metis repr_sel(4))
  with get_trace_rows [OF rows(1,3) assms(2,3) rows(2)] rows(2) assms(4) show ?thesis by auto
qed

text \<open>
  C13. The trace payload is lossless: for a resident trace of at most \<open>2^32 / 3\<close> spans \<open>get_trace\<close>
  answers without a panic with a payload whose columns, every string index resolved in its
  string table, are exactly the rows of the trace in order (names, status, times, service names,
  parent positions, orphan flags), under the trace's id and generation; the string table holds
  no string twice.
\<close>
theorem get_trace_decodes:
  assumes "store_inv n s" "from_hex path = Some tid" "trace s tid = Some t" "3 * span_count t \<le> 2 ^ 32"
  shows "\<exists>rows p. t = repr tid (t_generation t) (t_last_activity t) rows
    \<and> get_trace s path = Some (ApiOk p)
    \<and> decodes s (t_span_ids t) rows (tp_string_table p) p \<and> distinct (tp_string_table p)
    \<and> tp_trace_id p = to_hex tid \<and> tp_generation p = t_generation t"
  using assms by (rule get_trace_resident)

theorem get_trace_decodes_witness:
  "\<exists>s rows p. store_inv 0 s \<and> length rows = 1
     \<and> get_trace s (to_hex sample_trace_id) = Some (ApiOk p)
     \<and> decodes s [SpanId (replicate 8 1)] rows (tp_string_table p) p"
proof -
  obtain s tr where s: "store_inv 0 s" "trace s sample_trace_id = Some tr" "t_span_ids tr = [SpanId (replicate 8 1)]"
    by (rule sample_store)
  have c: "3 * span_count tr \<le> 2 ^ 32" by (simp add: span_count_def s(3))
  from get_trace_decodes [OF s(1) from_hex_sample s(2) c] obtain rows p where
    r: "tr = repr sample_trace_id (t_generation tr) (t_last_activity tr) rows"
      "get_trace s (to_hex sample_trace_id) = Some (ApiOk p)" "decodes s (t_span_ids tr) rows (tp_string_table p) p" by blast
  have "t_span_ids tr = map r_span_id rows" using r(1) by (metis repr_sel(4))
  with s(3) have "length rows = 1" by (metis length_map One_nat_def length_Cons list.size(3))
  with s r show ?thesis by auto
qed

section \<open>Attributes of a span\<close>

lemma get_attributes_rows:
  assumes rows: "rows_ok rows" "\<forall>r \<in> set rows. row_resolves (s_key_interner s) (s_service_interner s) r"
    and "from_hex path = Some tid" "trace s tid = Some t" "t = repr tid gen la rows"
  shows "length rows \<le> idx \<Longrightarrow> get_attributes s path idx = Some ApiNotFound"
    and "idx < length rows \<Longrightarrow> get_attributes s path idx = Some (ApiOk
      (map (\<lambda>kv. \<lparr>ae_key = the (attribute_key s (fst kv)), ae_value = snd kv\<rparr>) (r_attrs (rows ! idx))))"
proof -
  let ?kvs = "r_attrs (rows ! idx)" and ?entry = "\<lambda>kv. \<lparr>ae_key = the (attribute_key s (fst kv)), ae_value = snd kv\<rparr>"
  show "get_attributes s path idx = Some ApiNotFound" if "length rows \<le> idx"
    using that by (simp add: get_attributes_def assms(3,4)) (simp add: assms(5))
  assume idx: "idx < length rows"
  have "mapO (\<lambda>kv. do { key \<leftarrow> attribute_key s (fst kv); Some \<lparr>ae_key = key, ae_value = snd kv\<rparr> }) ?kvs
      = Some (map ?entry ?kvs)"
  proof (rule mapO_Some)
    fix kv assume "kv \<in> set ?kvs"
    then obtain key where "attribute_key s (fst kv) = Some key"
      using bspec [OF rows(2) nth_mem [OF idx]] by (auto simp: row_resolves_def attribute_key_def)
    then show "do { key \<leftarrow> attribute_key s (fst kv); Some \<lparr>ae_key = key, ae_value = snd kv\<rparr> } = Some (?entry kv)" by simp
  qed
  then show "get_attributes s path idx = Some (ApiOk (map ?entry ?kvs))"
    using idx by (simp add: get_attributes_def assms(3,4)) (simp add: assms(5) repr_attrs [OF rows(1)] zip_map_fst_snd)
qed

lemma get_attributes_resident:
  assumes "store_inv n s" "from_hex path = Some tid" "trace s tid = Some t"
  shows "\<exists>rows. t = repr tid (t_generation t) (t_last_activity t) rows
    \<and> (\<forall>idx. length rows \<le> idx \<longrightarrow> get_attributes s path idx = Some ApiNotFound)
    \<and> (\<forall>idx. idx < length rows \<longrightarrow>
        (\<exists>es. get_attributes s path idx = Some (ApiOk es)
          \<and> list_all2 (\<lambda>e kv. attribute_key s (fst kv) = Some (ae_key e) \<and> ae_value e = snd kv) es (r_attrs (rows ! idx))))"
proof -
  from assms(1,3) obtain rows where rows: "rows_ok rows" "t = repr tid (t_generation t) (t_last_activity t) rows"
    "\<forall>r \<in> set rows. row_resolves (s_key_interner s) (s_service_interner s) r"
    by (rule resident_rows)
  have res: "\<exists>key. attribute_key s (fst kv) = Some key" if "idx < length rows" "kv \<in> set (r_attrs (rows ! idx))" for idx kv
    using bspec [OF rows(3) nth_mem [OF that(1)]] that(2) by (auto simp: row_resolves_def attribute_key_def)
  have "list_all2 (\<lambda>e kv. attribute_key s (fst kv) = Some (ae_key e) \<and> ae_value e = snd kv)
      (map (\<lambda>kv. \<lparr>ae_key = the (attribute_key s (fst kv)), ae_value = snd kv\<rparr>) (r_attrs (rows ! idx))) (r_attrs (rows ! idx))"
    if "idx < length rows" for idx
    unfolding list_all2_conv_all_nth using res [OF that nth_mem] by auto
  with get_attributes_rows [OF rows(1,3) assms(2,3) rows(2)] rows(2) show ?thesis by blast
qed

text \<open>
  C34. The attributes of a span: for a resident trace and a position within it \<open>get_attributes\<close>
  answers without a panic with exactly the span's stored pairs in order, each key id resolved to
  the key it was interned from; a position past the end is 404.
\<close>
theorem get_attributes_exact:
  assumes "store_inv n s" "from_hex path = Some tid" "trace s tid = Some t"
  shows "\<exists>rows. t = repr tid (t_generation t) (t_last_activity t) rows
    \<and> (\<forall>idx. length rows \<le> idx \<longrightarrow> get_attributes s path idx = Some ApiNotFound)
    \<and> (\<forall>idx. idx < length rows \<longrightarrow>
        (\<exists>es. get_attributes s path idx = Some (ApiOk es)
          \<and> list_all2 (\<lambda>e kv. attribute_key s (fst kv) = Some (ae_key e) \<and> ae_value e = snd kv) es (r_attrs (rows ! idx))))"
  using assms by (rule get_attributes_resident)

theorem get_attributes_exact_witness:
  "\<exists>s. store_inv 0 s \<and> get_attributes s (to_hex sample_trace_id) 1 = Some ApiNotFound
     \<and> (\<exists>es. get_attributes s (to_hex sample_trace_id) 0 = Some (ApiOk es))"
proof -
  obtain s tr where s: "store_inv 0 s" "trace s sample_trace_id = Some tr" "t_span_ids tr = [SpanId (replicate 8 1)]"
    by (rule sample_store)
  from get_attributes_exact [OF s(1) from_hex_sample s(2)] obtain rows where
    r: "tr = repr sample_trace_id (t_generation tr) (t_last_activity tr) rows"
    "\<forall>idx. length rows \<le> idx \<longrightarrow> get_attributes s (to_hex sample_trace_id) idx = Some ApiNotFound"
    "\<forall>idx. idx < length rows \<longrightarrow> (\<exists>es. get_attributes s (to_hex sample_trace_id) idx = Some (ApiOk es))" by blast
  have "t_span_ids tr = map r_span_id rows" using r(1) by (metis repr_sel(4))
  with s(3) have "length rows = 1" by (metis length_map One_nat_def length_Cons list.size(3))
  with s(1) r(2,3) show ?thesis by auto
qed

section \<open>The list of traces\<close>

lemma services_of_rows:
  assumes "\<forall>r \<in> set rows. row_resolves ki (s_service_interner s) r"
  shows "services_of s (repr tid gen la rows) = Some {nm. \<exists>r \<in> set rows. service_text s r = Some nm}"
proof -
  let ?t = "repr tid gen la rows"
  have "foldO (\<lambda>services idx.
        do { sid \<leftarrow> service_name_id ?t idx;
             case sid of
               Some service_id \<Rightarrow> do { nm \<leftarrow> service_name s service_id; Some (insert nm services) }
             | None \<Rightarrow> Some services }) {} [0..<k]
      = Some {nm. \<exists>r \<in> set (take k rows). service_text s r = Some nm}" if "k \<le> length rows" for k
    using that
  proof (induction k)
    case (Suc k)
    then have k: "k < length rows" by simp
    have sv: "service_name_id ?t k = Some (r_service (rows ! k))" using repr_access(8) [OF k] .
    have tk: "take (Suc k) rows = take k rows @ [rows ! k]" using k by (rule take_Suc_conv_app_nth)
    show ?case
    proof (cases "r_service (rows ! k)")
      case None
      with Suc k sv tk show ?thesis by (auto simp: foldO_append service_text_def)
    next
      case (Some i)
      then obtain nm where "service_name s i = Some nm"
        using bspec [OF assms nth_mem [OF k]] by (auto simp: row_resolves_def service_name_def)
      with Some Suc k sv tk show ?thesis by (auto simp: foldO_append service_text_def)
    qed
  qed simp
  from this [of "length rows"] show ?thesis by (simp add: services_of_def)
qed

text \<open>What the summary of a trace with the given rows says.\<close>
definition summary_of :: "store \<Rightarrow> trace_id \<Rightarrow> trace \<Rightarrow> span_row list \<Rightarrow> trace_summary \<Rightarrow> bool" where
  "summary_of s tid t rows x \<longleftrightarrow>
     ts_trace_id x = to_hex tid \<and> ts_span_count x = length rows \<and> ts_duration_nanos x = duration_nanos t
     \<and> sorted (ts_services x) \<and> distinct (ts_services x)
     \<and> set (ts_services x) = {nm. \<exists>r \<in> set rows. service_text s r = Some nm}"

lemma list_traces_summaries:
  assumes "iterates ord" "store_inv n s"
  shows "\<exists>out. list_traces ord s = Some out \<and> length out = trace_count s
    \<and> mset (map ts_trace_id out) = mset (map (to_hex \<circ> fst) (s_traces s))
    \<and> (\<forall>tid t. trace s tid = Some t \<longrightarrow>
        (\<exists>rows. t = repr tid (t_generation t) (t_last_activity t) rows \<and> (\<exists>x \<in> set out. summary_of s tid t rows x)))"
proof -
  define f where "f = (\<lambda>e. \<lparr>ts_trace_id = to_hex (fst e), ts_span_count = span_count (snd e),
      ts_duration_nanos = duration_nanos (snd e), ts_services = sorted_list_of_set (the (services_of s (snd e)))\<rparr>)"
  have rows: "\<exists>rows. t = repr tid (t_generation t) (t_last_activity t) rows
      \<and> services_of s t = Some {nm. \<exists>r \<in> set rows. service_text s r = Some nm}" if t: "trace s tid = Some t" for tid t
  proof -
    from assms(2) t obtain rows where r: "t = repr tid (t_generation t) (t_last_activity t) rows"
      "\<forall>r \<in> set rows. row_resolves (s_key_interner s) (s_service_interner s) r" by (rule resident_rows)
    have "services_of s t = Some {nm. \<exists>r \<in> set rows. service_text s r = Some nm}"
      by (subst r(1)) (rule services_of_rows [OF r(2)])
    with r(1) show ?thesis by blast
  qed
  have entry: "trace s (fst e) = Some (snd e)" if "e \<in> set (traces ord s)" for e
    using that iterates_set [OF assms(1)] store_invD(1) [OF assms(2)]
    by (simp add: traces_def trace_def)
  have "summarize s e = Some (f e)" if e: "e \<in> set (traces ord s)" for e
  proof -
    from rows [OF entry [OF e]] obtain S where "services_of s (snd e) = Some S" by blast
    then show ?thesis by (simp add: summarize_def f_def)
  qed
  then have out: "list_traces ord s = Some (map f (traces ord s))"
    unfolding list_traces_def by (rule mapO_Some)
  have m: "mset (traces ord s) = mset (s_traces s)" using assms(1) by (simp add: traces_def iterates_def)
  have len: "length (map f (traces ord s)) = trace_count s" using mset_eq_length [OF m] by (simp add: trace_count_def)
  have "map ts_trace_id (map f (traces ord s)) = map (to_hex \<circ> fst) (traces ord s)" by (simp add: f_def)
  then have ids: "mset (map ts_trace_id (map f (traces ord s))) = mset (map (to_hex \<circ> fst) (s_traces s))"
    by (simp only: mset_map m)
  have "\<exists>rows. t = repr tid (t_generation t) (t_last_activity t) rows
      \<and> (\<exists>x \<in> set (map f (traces ord s)). summary_of s tid t rows x)" if t: "trace s tid = Some t" for tid t
  proof -
    from rows [OF t] obtain rows where r: "t = repr tid (t_generation t) (t_last_activity t) rows"
      "services_of s t = Some {nm. \<exists>r \<in> set rows. service_text s r = Some nm}" by blast
    have fin: "finite {nm. \<exists>r \<in> set rows. service_text s r = Some nm}"
      by (rule finite_subset [of _ "(\<lambda>r. the (service_text s r)) ` set rows"]) force+
    have "span_count t = length rows" using r(1) by (metis span_count_repr)
    then have "summary_of s tid t rows (f (tid, t))" using r(2) fin by (simp add: summary_of_def f_def)
    moreover have "(tid, t) \<in> set (traces ord s)"
      using trace_SomeD [OF t] iterates_set [OF assms(1)] by (simp add: traces_def)
    then have "f (tid, t) \<in> set (map f (traces ord s))" by simp
    ultimately show ?thesis using r(1) by blast
  qed
  with out len ids show ?thesis by blast
qed

text \<open>
  C33. The list of traces: on any store the writer can produce and for any hash iteration order
  \<open>list_traces\<close> answers without a panic with exactly one summary per resident trace, each with the
  trace's id, span count, duration, and the service names of its spans, sorted and without
  repetition.
\<close>
theorem list_traces_exact:
  assumes "iterates ord" "store_inv n s"
  shows "\<exists>out. list_traces ord s = Some out \<and> length out = trace_count s
    \<and> mset (map ts_trace_id out) = mset (map (to_hex \<circ> fst) (s_traces s))
    \<and> (\<forall>tid t. trace s tid = Some t \<longrightarrow>
        (\<exists>rows. t = repr tid (t_generation t) (t_last_activity t) rows \<and> (\<exists>x \<in> set out. summary_of s tid t rows x)))"
  using assms by (rule list_traces_summaries)

theorem list_traces_exact_witness:
  "\<exists>s out. store_inv 0 s \<and> trace s sample_trace_id \<noteq> None
     \<and> list_traces rev s = Some out \<and> (\<exists>x \<in> set out. ts_trace_id x = to_hex sample_trace_id)"
proof -
  obtain s tr where s: "store_inv 0 s" "trace s sample_trace_id = Some tr" by (rule sample_store)
  from list_traces_exact [OF iterates_rev s(1)] s show ?thesis unfolding summary_of_def by blast
qed

section \<open>The contract of the endpoints for one trace\<close>

text \<open>
  The handlers for one trace share their first steps: an id that does not parse is 400, a trace that
  is not resident is 404, and a resident one is read.  \<open>readable\<close> is what the reading needs of it.
\<close>
locale trace_endpoint =
  fixes respond :: "store \<Rightarrow> string \<Rightarrow> 'r api_reply panics"
    and readable :: "trace \<Rightarrow> bool"
  assumes bad_id: "from_hex path = None \<Longrightarrow>
      respond s path = Some (ApiBadRequest ''trace id must be 32 hex characters'')"
    and missing: "from_hex path = Some tid \<Longrightarrow> trace s tid = None \<Longrightarrow> respond s path = Some ApiNotFound"
    and resident: "store_inv n s \<Longrightarrow> from_hex path = Some tid \<Longrightarrow> trace s tid = Some t \<Longrightarrow> readable t \<Longrightarrow>
      \<exists>r. respond s path = Some r"
begin

lemma never_panics:
  assumes "store_inv n s" "\<And>tid t. trace s tid = Some t \<Longrightarrow> readable t"
  shows "\<exists>r. respond s path = Some r"
proof (cases "from_hex path")
  case None
  with bad_id show ?thesis by blast
next
  case (Some tid)
  then show ?thesis
    using missing [OF Some] resident [OF assms(1) Some] assms(2) by (cases "trace s tid") blast+
qed

text \<open>Once a trace is evicted, every endpoint answers 404 for it.\<close>
lemma evicted_is_not_found:
  "from_hex path = Some tid \<Longrightarrow> trace s tid \<noteq> None \<Longrightarrow> respond (evict s tid) path = Some ApiNotFound"
  by (auto intro!: missing simp: evict_sel(1))

end

interpretation trace_get: trace_endpoint get_trace "\<lambda>t. 3 * span_count t \<le> 2 ^ 32"
proof unfold_locales
  fix n s path tid t
  assume "store_inv n s" "from_hex path = Some tid" "trace s tid = Some t" "3 * span_count t \<le> 2 ^ 32"
  from get_trace_resident [OF this] show "\<exists>r. get_trace s path = Some r" by blast
qed (simp_all add: get_trace_def)

interpretation attributes_get: trace_endpoint "\<lambda>s path. get_attributes s path idx" "\<lambda>_. True" for idx
proof unfold_locales
  fix n s path tid t
  assume a: "store_inv n s" "from_hex path = Some tid" "trace s tid = Some t"
  from get_attributes_resident [OF a] show "\<exists>r. get_attributes s path idx = Some r"
    by (cases "idx < span_count t") (metis not_less span_count_repr)+
qed (simp_all add: get_attributes_def)

lemma get_filter_no_query:
  "params ''q'' = None \<Longrightarrow> get_filter s path params = get_filter s path (params(''q'' \<mapsto> []))"
  by (simp add: get_filter_def split: option.split)

lemma filter_resident:
  assumes "store_inv n s" "\<And>q. params ''q'' = Some q \<Longrightarrow> utf8_valid q"
    and "from_hex path = Some tid" "trace s tid = Some t"
  shows "\<exists>r. get_filter s path params = Some (ApiOk r)"
proof (cases "params ''q''")
  case None
  have "utf8_valid []" by simp
  with get_filter_replies [where params = "params(''q'' \<mapsto> [])" and q = "[]" and path = path, OF assms(1)] assms(3,4)
  show ?thesis unfolding get_filter_no_query [of params, OF None] by auto
next
  case (Some q)
  with get_filter_replies [where params = params and q = q and path = path, OF assms(1)] assms(2) [OF Some] assms(3,4)
  show ?thesis by auto
qed

lemma filter_endpoint:
  assumes "\<And>q. params ''q'' = Some q \<Longrightarrow> utf8_valid q"
  shows "trace_endpoint (\<lambda>s path. get_filter s path params) (\<lambda>_. True)"
proof unfold_locales
  fix n s path tid t
  assume "store_inv n s" "from_hex path = Some tid" "trace s tid = Some t"
  with filter_resident assms show "\<exists>r. get_filter s path params = Some r" by blast
qed (simp_all add: get_filter_def)

lemma filter_never_panics:
  assumes "store_inv n s" "\<And>q. params ''q'' = Some q \<Longrightarrow> utf8_valid q"
  shows "\<exists>r. get_filter s path params = Some r"
proof -
  have "trace_endpoint (\<lambda>s path. get_filter s path params) (\<lambda>_. True)" using assms(2) by (rule filter_endpoint)
  from trace_endpoint.never_panics [OF this assms(1)] show ?thesis by blast
qed

end
