(* ===== verification/Contents.thy ===== *)
theory Contents
  imports Capacity Read_Api
begin

text \<open>
  What the store holds, as spans.  The struct of arrays with its interned keys and service names
  stands for a list of the spans that were sent; \<open>holds\<close> is that relation, and an insertion (\<open>src/store/mod.rs\<close>,
  \<open>trace.rs\<close>, \<open>interner.rs\<close>) refines an insertion into the list, as long as the interners are not full.
  The read API (\<open>src/api/traces.rs\<close>, \<open>attributes.rs\<close>) then shows the spans of the list.
\<close>

section \<open>Interners with room\<close>

text \<open>All strings that are ever to be interned fit under the cap.\<close>
definition roomy :: "string set \<Rightarrow> interner \<Rightarrow> bool" where
  "roomy K p \<longleftrightarrow> finite K \<and> set (i_values p) \<subseteq> K \<and> card K \<le> i_cap p"

lemma roomy_new: "finite K \<Longrightarrow> card K \<le> cap \<Longrightarrow> roomy K (interner_new cap)"
  by (simp add: roomy_def interner_new_def)

lemma roomy_mono: "roomy K p \<Longrightarrow> K \<subseteq> K' \<Longrightarrow> finite K' \<Longrightarrow> card K' \<le> i_cap p \<Longrightarrow> roomy K' p"
  by (auto simp: roomy_def)

lemma intern_roomy:
  assumes "interner_wf p" "roomy K p" "s \<in> K" "intern p s = (p', r)"
  shows "roomy K p' \<and> r \<noteq> None"
  using assms(4)
proof (cases rule: intern_cases)
  case full
  have "s \<notin> set (i_values p)" using full(1) assms(1) by (simp add: interner_wf_map_None)
  with assms(2,3) have "set (i_values p) \<subset> K" by (auto simp: roomy_def)
  then have "card (set (i_values p)) < card K" using assms(2) by (intro psubset_card_mono) (simp_all add: roomy_def)
  moreover have "card (set (i_values p)) = length (i_values p)"
    using assms(1) by (intro distinct_card) (simp add: wf_simps)
  ultimately show ?thesis using full(2) assms(2) by (simp add: roomy_def)
qed (use assms(2,3) in \<open>auto simp: roomy_def\<close>)

lemma intern_pairs_roomy:
  "interner_wf p \<Longrightarrow> roomy K p \<Longrightarrow> fst ` set kvs \<subseteq> K \<Longrightarrow> intern_pairs intern p kvs = (p', out) \<Longrightarrow>
   roomy K p' \<and> length out = length kvs"
proof (induction kvs arbitrary: p out)
  case (Cons kv kvs)
  have k: "fst kv \<in> K" "fst ` set kvs \<subseteq> K" using Cons.prems(3) by auto
  from Cons.prems(4) show ?case
  proof (cases rule: intern_pairs_ConsE)
    case (refused p1)
    with intern_roomy [OF Cons.prems(1,2) k(1)] show ?thesis by blast
  next
    case (kept p1 i rest)
    from intern_roomy [OF Cons.prems(1,2) k(1) kept(1)] interner_wf_intern [OF Cons.prems(1) kept(1)]
      Cons.IH [OF _ _ k(2) kept(2)] kept(3) show ?thesis by simp
  qed
qed simp

text \<open>Then no pair is dropped: what is stored resolves to exactly what was sent.\<close>
lemma intern_pairs_exact:
  assumes "interner_wf p" "roomy K p" "fst ` set kvs \<subseteq> K" "intern_pairs intern p kvs = (p', out)"
  shows "map (map_prod (get p') id) out = map (map_prod Some id) kvs"
proof -
  from si.intern_pairs_resolve [OF assms(1,4)] obtain kept where
    kept: "subseq kept kvs" "list_all2 (\<lambda>(i, v) (k, w). v = w \<and> get p' i = Some k) out kept" by blast
  have "length kept = length kvs"
    using intern_pairs_roomy [OF assms] list_all2_lengthD [OF kept(2)] by simp
  with kept(1) have "kept = kvs" by (metis subseq_same_length)
  with kept(2) show ?thesis
    by (auto intro!: nth_equalityI simp: list_all2_conv_all_nth map_prod_def split: prod.splits)
qed

section \<open>Rows and the spans they stand for\<close>

definition span_of :: "interner \<Rightarrow> interner \<Rightarrow> span_row \<Rightarrow> new_span" where
  "span_of ki si r =
    \<lparr>ns_span_id = r_span_id r, ns_parent_span_id = r_parent r, ns_name = r_name r,
     ns_start_time_unix_nano = r_start r, ns_end_time_unix_nano = r_end r,
     ns_status_message = r_status_message r, ns_status_code = r_status_code r,
     ns_unknown_service = r_unknown_service r, ns_service_name = Option.bind (r_service r) (get si),
     ns_attributes = map (\<lambda>kv. (the (get ki (fst kv)), snd kv)) (r_attrs r)\<rparr>"

lemma span_of_sel [simp]:
  "ns_span_id (span_of ki si r) = r_span_id r" "ns_parent_span_id (span_of ki si r) = r_parent r"
  "ns_name (span_of ki si r) = r_name r" "ns_start_time_unix_nano (span_of ki si r) = r_start r"
  "ns_end_time_unix_nano (span_of ki si r) = r_end r" "ns_status_message (span_of ki si r) = r_status_message r"
  "ns_status_code (span_of ki si r) = r_status_code r" "ns_unknown_service (span_of ki si r) = r_unknown_service r"
  by (simp_all add: span_of_def)

lemma span_of_parent: "span_of ki si (r\<lparr>r_parent := p\<rparr>) = (span_of ki si r)\<lparr>ns_parent_span_id := p\<rparr>"
  by (simp add: span_of_def)

lemma span_of_stable:
  assumes "row_resolves ki si r" "\<And>i x. get ki i = Some x \<Longrightarrow> get ki' i = Some x"
    and "\<And>i x. get si i = Some x \<Longrightarrow> get si' i = Some x"
  shows "span_of ki' si' r = span_of ki si r" and "row_resolves ki' si' r"
proof -
  have k: "get ki' (fst kv) = get ki (fst kv)" if "kv \<in> set (r_attrs r)" for kv
    using that assms(1,2) by (fastforce simp: row_resolves_def)
  have s: "get si' i = get si i" if "r_service r = Some i" for i
    using that assms(1,3) by (fastforce simp: row_resolves_def)
  show "span_of ki' si' r = span_of ki si r"
    using k s by (cases "r_service r") (simp_all add: span_of_def)
  show "row_resolves ki' si' r" using assms(1) k s by (simp add: row_resolves_def)
qed

text \<open>The specification of an insertion: the span replaces the one with its id, except that the parent
  of the first stays, or comes last.\<close>
definition upsert :: "new_span list \<Rightarrow> new_span \<Rightarrow> new_span list" where
  "upsert spans x =
    (case index_of (map ns_span_id spans) (ns_span_id x) of
       Some i \<Rightarrow> spans[i := x\<lparr>ns_parent_span_id := ns_parent_span_id (spans ! i)\<rparr>]
     | None \<Rightarrow> spans @ [x])"

definition put_span :: "(trace_id \<Rightarrow> new_span list) \<Rightarrow> trace_id \<times> new_span \<Rightarrow> trace_id \<Rightarrow> new_span list" where
  "put_span m x = m(fst x := upsert (m (fst x)) (snd x))"

lemma upsert_not_Nil [simp]: "upsert spans x \<noteq> []"
  by (auto simp: upsert_def split: option.split)

lemma span_of_rows_insert:
  "map (span_of ki si) (fst (rows_insert rows r)) = upsert (map (span_of ki si) rows) (span_of ki si r)"
proof (cases "index_of (map r_span_id rows) (r_span_id r)")
  case None
  then show ?thesis by (simp add: rows_insert_def upsert_def comp_def)
next
  case (Some i)
  then have "i < length rows" using index_of_SomeD [OF Some] by simp
  with Some show ?thesis by (simp add: rows_insert_def upsert_def comp_def map_update span_of_parent)
qed

text \<open>A trace holds these spans: it is the layout of rows that resolve to them.  It holds none exactly
  when it is not resident.\<close>
definition holds :: "store \<Rightarrow> trace_id \<Rightarrow> new_span list \<Rightarrow> bool" where
  "holds s tid spans \<longleftrightarrow>
    (case trace s tid of
       None \<Rightarrow> spans = []
     | Some t \<Rightarrow>
         \<exists>rows. rows \<noteq> [] \<and> rows_ok rows \<and> t = repr tid (t_generation t) (t_last_activity t) rows
           \<and> (\<forall>r \<in> set rows. row_resolves (s_key_interner s) (s_service_interner s) r)
           \<and> spans = map (span_of (s_key_interner s) (s_service_interner s)) rows)"

lemma holds_resident:
  assumes "holds s tid spans" "trace s tid = Some t"
  obtains rows where "rows_ok rows" "t = repr tid (t_generation t) (t_last_activity t) rows"
    "\<forall>r \<in> set rows. row_resolves (s_key_interner s) (s_service_interner s) r"
    "spans = map (span_of (s_key_interner s) (s_service_interner s)) rows"
  using assms by (auto simp: holds_def)

lemma holds_nothing: "holds s tid [] \<longleftrightarrow> trace s tid = None"
  by (cases "trace s tid") (auto simp: holds_def)

lemma holds_ids: "holds s tid spans \<Longrightarrow> resident_ids s tid = map ns_span_id spans"
  by (cases "trace s tid") (auto simp: holds_def resident_ids_def dest!: arg_cong [of _ _ t_span_ids])

text \<open>What it holds depends on the trace and on what its ids resolve to.\<close>
lemma holds_frame:
  assumes "holds s k spans" "trace s' k = trace s k"
    and "\<forall>i x. get (s_key_interner s) i = Some x \<longrightarrow> get (s_key_interner s') i = Some x"
    and "\<forall>i x. get (s_service_interner s) i = Some x \<longrightarrow> get (s_service_interner s') i = Some x"
  shows "holds s' k spans"
proof (cases "trace s k")
  case None
  with assms(1,2) show ?thesis by (simp add: holds_def)
next
  case (Some t)
  from assms(1) Some obtain rows where rows: "rows \<noteq> []" "rows_ok rows"
    "t = repr k (t_generation t) (t_last_activity t) rows"
    "\<forall>r \<in> set rows. row_resolves (s_key_interner s) (s_service_interner s) r"
    "spans = map (span_of (s_key_interner s) (s_service_interner s)) rows" by (auto simp: holds_def)
  have "\<forall>r \<in> set rows. span_of (s_key_interner s') (s_service_interner s') r = span_of (s_key_interner s) (s_service_interner s) r
      \<and> row_resolves (s_key_interner s') (s_service_interner s') r"
    using rows(4) span_of_stable assms(3,4) by blast
  then have "spans = map (span_of (s_key_interner s') (s_service_interner s')) rows"
    "\<forall>r \<in> set rows. row_resolves (s_key_interner s') (s_service_interner s') r" by (simp_all add: rows(5))
  with rows(1-3) Some assms(2) show ?thesis by (auto simp: holds_def)
qed

lemma holds_count_malformed [simp]: "holds (count_malformed s c) k xs = holds s k xs"
proof -
  have "s_key_interner (count_malformed s c) = s_key_interner s" "s_service_interner (count_malformed s c) = s_service_interner s"
    by (simp_all add: count_malformed_def)
  then show ?thesis by (simp_all only: holds_def count_malformed_sel)
qed

section \<open>Insertion refines \<open>upsert\<close>\<close>

text \<open>A full interner drops what it refuses: the stored span lacks attributes or the service name of
  the span that was sent, and is the same otherwise.\<close>
definition stored_as :: "new_span \<Rightarrow> new_span \<Rightarrow> bool" where
  "stored_as x y \<longleftrightarrow>
     y = x\<lparr>ns_service_name := ns_service_name y, ns_attributes := ns_attributes y\<rparr>
     \<and> ns_service_name y \<in> {None, ns_service_name x} \<and> subseq (ns_attributes y) (ns_attributes x)"

lemma stored_as_sel:
  assumes "stored_as x y"
  shows "ns_span_id y = ns_span_id x" "ns_parent_span_id y = ns_parent_span_id x"
proof -
  have "y = x\<lparr>ns_service_name := ns_service_name y, ns_attributes := ns_attributes y\<rparr>" using assms by (simp add: stored_as_def)
  then show "ns_span_id y = ns_span_id x" "ns_parent_span_id y = ns_parent_span_id x"
    by (metis new_span.select_convs(1) new_span.surjective new_span.update_convs(9,10),
        metis new_span.select_convs(2) new_span.surjective new_span.update_convs(9,10))
qed

text \<open>The interners of a store have room for the keys \<open>K\<close> and the service names \<open>S\<close>.\<close>
definition store_roomy :: "string set \<Rightarrow> string set \<Rightarrow> store \<Rightarrow> bool" where
  "store_roomy K S s \<longleftrightarrow> roomy K (s_key_interner s) \<and> roomy S (s_service_interner s)"

definition span_strings_in :: "string set \<Rightarrow> string set \<Rightarrow> new_span \<Rightarrow> bool" where
  "span_strings_in K S x \<longleftrightarrow> fst ` set (ns_attributes x) \<subseteq> K \<and> set_option (ns_service_name x) \<subseteq> S"

lemma store_roomy_count_malformed [simp]: "store_roomy K S (count_malformed s c) = store_roomy K S s"
  by (simp add: store_roomy_def count_malformed_def)

text \<open>The row of a span, resolved again.\<close>
lemma span_of_row_of:
  assumes "interner_wf ki" "interner_wf si"
    and ia: "intern_pairs intern ki (ns_attributes x) = (ki', ia)"
    and sv: "(case ns_service_name x of None \<Rightarrow> (si, None) | Some nm \<Rightarrow> intern si nm) = (si', svc)"
  defines "y \<equiv> span_of ki' si' (row_of (x\<lparr>ns_service_name := None\<rparr>) svc ia)"
  shows "stored_as x y"
    and "roomy K ki \<Longrightarrow> roomy S si \<Longrightarrow> span_strings_in K S x \<Longrightarrow> y = x \<and> roomy K ki' \<and> roomy S si'"
proof -
  have attrs: "ns_attributes y = map (map_prod the id) (map (map_prod (get ki') id) ia)"
    by (simp add: y_def span_of_def row_of_def map_prod_def case_prod_beta)
  have svc: "ns_service_name y = Option.bind svc (get si')" by (simp add: y_def span_of_def row_of_def)
  have same: "y = x\<lparr>ns_service_name := ns_service_name y, ns_attributes := ns_attributes y\<rparr>"
    by (simp add: y_def span_of_def row_of_def)
  have "Option.bind svc (get si') \<in> {None, ns_service_name x}"
  proof (cases "ns_service_name x")
    case (Some nm)
    with sv have "intern si nm = (si', svc)" by simp
    with Some intern_resolves [OF assms(2)] show ?thesis by (cases svc) auto
  qed (use sv in auto)
  moreover from si.intern_pairs_resolve [OF assms(1) ia] obtain kept where
    kept: "subseq kept (ns_attributes x)" "list_all2 (\<lambda>(i, v) (k, w). v = w \<and> get ki' i = Some k) ia kept" by blast
  from kept(2) have "map (map_prod the id) (map (map_prod (get ki') id) ia) = kept"
    by (induction rule: list_all2_induct) auto
  ultimately show "stored_as x y" using same svc attrs kept(1) by (simp add: stored_as_def)
  assume room: "roomy K ki" "roomy S si" "span_strings_in K S x"
  have "map (map_prod the id) (map (map_prod (get ki') id) ia) = ns_attributes x"
  proof -
    have "fst ` set (ns_attributes x) \<subseteq> K" using room(3) by (simp add: span_strings_in_def)
    from intern_pairs_exact [OF assms(1) room(1) this ia] show ?thesis
      by (simp only: list.map_comp) (rule map_idI, auto)
  qed
  moreover have "roomy S si' \<and> Option.bind svc (get si') = ns_service_name x"
  proof (cases "ns_service_name x")
    case None
    with sv room show ?thesis by auto
  next
    case (Some nm)
    with sv have i: "intern si nm = (si', svc)" by simp
    with intern_roomy [OF assms(2) room(2) _ i] room(3) Some obtain k where "roomy S si'" "svc = Some k"
      by (auto simp: span_strings_in_def)
    with i intern_resolves [OF assms(2)] Some show ?thesis by simp
  qed
  ultimately show "y = x \<and> roomy K ki' \<and> roomy S si'"
    using same svc attrs intern_pairs_roomy [OF assms(1) room(1) _ ia] room(3) by (simp add: span_strings_in_def)
qed

text \<open>The rows of the trace an insertion goes to.\<close>
lemma entry_rows:
  assumes "entry_or_insert s tid now = (t, evicted)" "holds s tid spans"
  obtains rows where "rows_ok rows" "t = repr tid (t_generation t) (t_last_activity t) rows"
    "\<forall>r \<in> set rows. row_resolves (s_key_interner s) (s_service_interner s) r"
    "spans = map (span_of (s_key_interner s) (s_service_interner s)) rows"
proof (cases "trace s tid")
  case None
  with assms(1) have "t = (trace_new tid now)\<lparr>t_generation := t_generation t, t_last_activity := t_last_activity t\<rparr>"
    by (auto simp: entry_or_insert_def Let_def)
  then have "t = repr tid (t_generation t) (t_last_activity t) []"
    by (metis repr_empty repr_generation repr_activity)
  moreover have "spans = []" using assms(2) None by (simp add: holds_def)
  ultimately show thesis by (intro that [of "[]"]) (simp_all add: wf_simps attr_total_def)
next
  case (Some u)
  with assms(1) have "t = u" by (simp add: entry_or_insert_def)
  with holds_resident [OF assms(2) Some] that show thesis by metis
qed

lemma insert_stores:
  assumes inv: "store_inv n s" and room: "n + length (ns_attributes x) < 2 ^ 32"
    and ins: "insert_span_no_evict s tid x now = Some (s', out)"
  obtains y where "stored_as x y"
    "\<forall>k spans. holds s k spans \<longrightarrow> holds s' k (if k = tid then upsert spans y else spans)"
    "\<forall>K S. store_roomy K S s \<and> span_strings_in K S x \<longrightarrow> y = x \<and> store_roomy K S s'"
proof -
  let ?ki = "s_key_interner s" and ?si = "s_service_interner s" and ?x = "x\<lparr>ns_service_name := None\<rparr>"
  from inv room obtain t evicted si' svc t' ki' o' c where
    e: "entry_or_insert s tid now = (t, evicted)"
    and sv: "(case ns_service_name x of None \<Rightarrow> (?si, None) | Some nm \<Rightarrow> intern ?si nm) = (si', svc)"
    and ok: "trace_ok n ?ki si' tid t"
    and ti: "trace_insert t ?x svc ?ki now = Some (t', ki', o')"
    and ok': "trace_ok (n + length (ns_attributes x)) ki' si' tid t'"
    and stable: "\<forall>i x. get ?ki i = Some x \<longrightarrow> get ki' i = Some x" "\<forall>i x. get ?si i = Some x \<longrightarrow> get si' i = Some x"
    and res: "insert_span_no_evict s tid x now =
       Some (s\<lparr>s_traces := AList.update tid t' (s_traces s), s_key_interner := ki',
               s_service_interner := si', s_evicted_generations := evicted, s_counters := c\<rparr>,
             \<lparr>so_local_idx = local_idx o', so_is_duplicate = is_duplicate o',
              so_resurrected = (trace s tid = None \<and> s_evicted_generations s tid \<noteq> None)\<rparr>)"
    by (rule insert_span_no_evict_result [where tid = tid and now = now]) (rule that, (assumption | blast)+)
  have s': "trace s' = (trace s)(tid \<mapsto> t')" "s_key_interner s' = ki'" "s_service_interner s' = si'"
    using ins res by auto
  note wf = store_invD(3,4) [OF inv]
  obtain ki2 ia where ia: "intern_pairs intern ?ki (ns_attributes ?x) = (ki2, ia)" by fastforce
  let ?r = "row_of ?x svc ia"
  have t': "t' = repr tid (t_generation t) now (fst (rows_insert rows ?r))" "ki2 = ki'"
    if "rows_ok rows" "t = repr tid (t_generation t) (t_last_activity t) rows" for rows
    using ti trace_insert_refines [OF that(1) ia, of tid "t_generation t" "t_last_activity t" svc now] that(2)
    by (simp_all split: prod.splits)
  from ok obtain rows0 where "rows_ok rows0" "t = repr tid (t_generation t) (t_last_activity t) rows0"
    by (auto simp: trace_ok_def trace_wf_def)
  from t'(2) [OF this] have ia': "intern_pairs intern ?ki (ns_attributes x) = (ki', ia)" using ia by simp
  note y = span_of_row_of [OF wf ia' sv]
  have put: "holds s' tid (upsert spans (span_of ki' si' ?r))" if h: "holds s tid spans" for spans
  proof -
    from e h obtain rows where rows: "rows_ok rows" "t = repr tid (t_generation t) (t_last_activity t) rows"
      "\<forall>r \<in> set rows. row_resolves ?ki ?si r" "spans = map (span_of ?ki ?si) rows" by (rule entry_rows)
    let ?rows' = "fst (rows_insert rows ?r)"
    have "attr_total rows \<le> n" using ok rows(2) attr_count_repr by (metis trace_ok_def)
    with intern_pairs_length [OF ia'] room have ok'': "rows_ok ?rows'"
      by (intro rows_insert_ok [OF rows(1)]) (simp add: row_of_def)
    have "\<forall>r \<in> set rows. span_of ki' si' r = span_of ?ki ?si r" using rows(3) span_of_stable(1) stable by blast
    then have spans: "upsert spans (span_of ki' si' ?r) = map (span_of ki' si') ?rows'"
      by (simp add: span_of_rows_insert rows(4) cong: map_cong)
    then have "?rows' \<noteq> []" using upsert_not_Nil [of spans "span_of ki' si' ?r"] by auto
    moreover have "(\<forall>k \<in> set (t_attr_keys t'). get ki' k \<noteq> None) \<and> (\<forall>i. Some i \<in> set (t_service_name_id t') \<longrightarrow> get si' i \<noteq> None)"
      using ok' by (simp add: trace_ok_def)
    then have "\<forall>r \<in> set ?rows'. row_resolves ki' si' r"
      unfolding t'(1) [OF rows(1,2)] set_attr_keys_repr set_service_repr by (force simp: row_resolves_def)
    moreover have "t_generation t' = t_generation t" "t_last_activity t' = now" by (simp_all add: t'(1) [OF rows(1,2)])
    ultimately show ?thesis using t'(1) [OF rows(1,2)] ok'' spans by (auto simp: holds_def s')
  qed
  have "holds s' k (if k = tid then upsert spans (span_of ki' si' ?r) else spans)" if "holds s k spans" for k spans
    using that put holds_frame [of s k spans s'] stable s' by auto
  then show thesis using y by (intro that [of "span_of ki' si' ?r"]) (auto simp: store_roomy_def s')
qed

lemma insert_holds:
  assumes "store_inv n s" "n + length (ns_attributes x) < 2 ^ 32"
    and "store_roomy K S s" "span_strings_in K S x" "insert_span_no_evict s tid x now = Some (s', out)"
  shows "holds s k spans \<Longrightarrow> holds s' k (if k = tid then upsert spans x else spans)"
    and "store_roomy K S s'"
  using insert_stores [OF assms(1,2,5)] assms(3,4) by metis+

section \<open>Batches\<close>

definition keys_sent :: "(trace_id \<times> new_span) list \<Rightarrow> string set" where
  "keys_sent xs = (\<Union>x \<in> set xs. fst ` set (ns_attributes (snd x)))"

definition services_sent :: "(trace_id \<times> new_span) list \<Rightarrow> string set" where
  "services_sent xs = (\<Union>x \<in> set xs. set_option (ns_service_name (snd x)))"

lemma sent_simps [simp]:
  "keys_sent [] = {}" "keys_sent (xs @ ys) = keys_sent xs \<union> keys_sent ys"
  "services_sent [] = {}" "services_sent (xs @ ys) = services_sent xs \<union> services_sent ys"
  "finite (keys_sent xs)" "finite (services_sent xs)"
  by (auto simp: keys_sent_def services_sent_def)

lemma sent_in: "x \<in> set xs \<Longrightarrow> span_strings_in (keys_sent xs) (services_sent xs) (snd x)"
  by (auto simp: span_strings_in_def keys_sent_def services_sent_def)

lemma insert_all_holds:
  assumes "store_inv n s" "n + sum_list (map (\<lambda>x. length (ns_attributes (snd x))) xs) < 2 ^ 32"
    and "store_roomy K S s" "\<forall>x \<in> set xs. span_strings_in K S (snd x)"
    and "insert_all now s xs = Some s'" "\<forall>k. holds s k (m k)"
  shows "(\<forall>k. holds s' k (foldl put_span m xs k)) \<and> store_roomy K S s'"
  using assms
proof (induction xs arbitrary: n s m)
  case (Cons x xs)
  have room: "n + length (ns_attributes (snd x)) < 2 ^ 32" using Cons.prems(2) by simp
  from insert_span_no_evict_inv [OF Cons.prems(1) room] obtain s1 out where
    i: "insert_span_no_evict s (fst x) (snd x) now = Some (s1, out)" "store_inv (n + length (ns_attributes (snd x))) s1"
    by blast
  have strs: "span_strings_in K S (snd x)" using Cons.prems(4) by simp
  note h = insert_holds [OF Cons.prems(1) room Cons.prems(3) strs i(1)]
  have "holds s1 k (put_span m x k)" for k
    using h(1) [OF spec [OF Cons.prems(6)], of k] by (auto simp: put_span_def split: if_splits)
  then show ?case
    using Cons.IH [OF i(2) _ h(2), of "put_span m x"] Cons.prems(2,4,5) i(1)
    by (simp add: insert_all_def add.assoc)
qed (simp add: insert_all_def)

section \<open>Nothing is made up\<close>

text \<open>A stored span is one that was sent to its trace, but for its parent, which a span with the same id
  named, and for what a full interner drops.\<close>
definition genuine :: "(trace_id \<times> new_span) set \<Rightarrow> trace_id \<Rightarrow> new_span \<Rightarrow> bool" where
  "genuine X tid y \<longleftrightarrow>
     (\<exists>x. (tid, x) \<in> X \<and> stored_as x (y\<lparr>ns_parent_span_id := ns_parent_span_id x\<rparr>))
     \<and> (\<exists>x. (tid, x) \<in> X \<and> ns_span_id x = ns_span_id y \<and> ns_parent_span_id x = ns_parent_span_id y)"

definition store_genuine :: "(trace_id \<times> new_span) set \<Rightarrow> store \<Rightarrow> bool" where
  "store_genuine X s \<longleftrightarrow> (\<forall>tid. \<exists>spans. holds s tid spans \<and> (\<forall>y \<in> set spans. genuine X tid y))"

lemma genuine_mono: "genuine X tid y \<Longrightarrow> X \<subseteq> X' \<Longrightarrow> genuine X' tid y"
  unfolding genuine_def by blast

lemma store_genuine_mono: "store_genuine X s \<Longrightarrow> X \<subseteq> X' \<Longrightarrow> store_genuine X' s"
  unfolding store_genuine_def using genuine_mono by meson

lemma store_genuine_new: "store_genuine X (store_new budget)"
  unfolding store_genuine_def by (intro allI exI [of _ "[]"]) (simp add: holds_def store_new_def trace_def)

lemma genuine_stored:
  assumes "(tid, x) \<in> X" "stored_as x y"
  shows "genuine X tid y"
proof -
  have "y\<lparr>ns_parent_span_id := ns_parent_span_id x\<rparr> = y" using stored_as_sel(2) [OF assms(2)] by simp
  with assms have "(tid, x) \<in> X \<and> stored_as x (y\<lparr>ns_parent_span_id := ns_parent_span_id x\<rparr>)" by simp
  moreover have "(tid, x) \<in> X \<and> ns_span_id x = ns_span_id y \<and> ns_parent_span_id x = ns_parent_span_id y"
    using assms(1) stored_as_sel [OF assms(2)] by simp
  ultimately show ?thesis unfolding genuine_def by blast
qed

lemma genuine_upsert:
  assumes "(tid, x) \<in> X" "stored_as x y" "\<forall>z \<in> set spans. genuine X tid z"
  shows "\<forall>z \<in> set (upsert spans y). genuine X tid z"
proof (cases "index_of (map ns_span_id spans) (ns_span_id y)")
  case None
  with assms(3) genuine_stored [OF assms(1,2)] show ?thesis by (simp add: upsert_def)
next
  case (Some i)
  then have i: "i < length spans" "ns_span_id (spans ! i) = ns_span_id y" using index_of_SomeD [OF Some] by auto
  let ?z = "y\<lparr>ns_parent_span_id := ns_parent_span_id (spans ! i)\<rparr>"
  have "y\<lparr>ns_parent_span_id := ns_parent_span_id x\<rparr> = y" using stored_as_sel(2) [OF assms(2)] by simp
  moreover have "genuine X tid (spans ! i)" using assms(3) i(1) by simp
  ultimately have "genuine X tid ?z" using assms(1,2) i(2) by (auto simp: genuine_def)
  moreover have "upsert spans y = spans[i := ?z]" using Some by (simp add: upsert_def)
  ultimately show ?thesis using assms(3) set_update_subset_insert [of spans i ?z] by auto
qed

lemma insert_genuine:
  assumes "store_inv n s" "n + length (ns_attributes x) < 2 ^ 32" "insert_span_no_evict s tid x now = Some (s', out)"
    and "store_genuine X s" "(tid, x) \<in> X"
  shows "store_genuine X s'"
proof -
  from assms(1-3) obtain y where y: "stored_as x y"
    "\<forall>k spans. holds s k spans \<longrightarrow> holds s' k (if k = tid then upsert spans y else spans)"
    by (rule insert_stores)
  show ?thesis
    unfolding store_genuine_def
  proof
    fix k
    from assms(4) obtain spans where "holds s k spans" "\<forall>z \<in> set spans. genuine X k z" by (auto simp: store_genuine_def)
    with y(2) genuine_upsert [OF assms(5) y(1)]
    show "\<exists>spans. holds s' k spans \<and> (\<forall>z \<in> set spans. genuine X k z)"
      by (intro exI [of _ "if k = tid then upsert spans y else spans"]) auto
  qed
qed

lemma sweep_interners:
  assumes "sweep_of s s'"
  shows "s_key_interner s' = s_key_interner s" "s_service_interner s' = s_service_interner s"
  using assms by (simp_all only: sweep_of_def)

lemma sweep_genuine:
  assumes "sweep_of s s'" "store_genuine X s"
  shows "store_genuine X s'"
  unfolding store_genuine_def
proof
  fix k
  from assms(2) obtain spans where spans: "holds s k spans" "\<forall>z \<in> set spans. genuine X k z" by (auto simp: store_genuine_def)
  show "\<exists>spans. holds s' k spans \<and> (\<forall>z \<in> set spans. genuine X k z)"
  proof (cases "trace s' k")
    case None
    then show ?thesis by (intro exI [of _ "[]"]) (simp add: holds_nothing)
  next
    case (Some t)
    with sweep_ofD(1) [OF assms(1) Some] have "trace s' k = trace s k" by simp
    moreover note sweep_interners [OF assms(1)]
    ultimately have "holds s' k spans" by (intro holds_frame [OF spans(1)]) simp_all
    with spans(2) show ?thesis by blast
  qed
qed

lemma store_genuine_count_malformed [simp]: "store_genuine X (count_malformed s c) = store_genuine X s"
  by (simp add: store_genuine_def)

lemma insert_all_genuine:
  assumes "store_inv n s" "n + sum_list (map (\<lambda>x. length (ns_attributes (snd x))) xs) < 2 ^ 32"
    and "insert_all now s xs = Some s'" "store_genuine X s" "set xs \<subseteq> X"
  shows "store_genuine X s'"
  using assms
proof (induction xs arbitrary: n s)
  case (Cons x xs)
  have room: "n + length (ns_attributes (snd x)) < 2 ^ 32" using Cons.prems(2) by simp
  from insert_span_no_evict_inv [OF Cons.prems(1) room] obtain s1 out where
    i: "insert_span_no_evict s (fst x) (snd x) now = Some (s1, out)" "store_inv (n + length (ns_attributes (snd x))) s1"
    by blast
  have "store_genuine X s1" using insert_genuine [OF Cons.prems(1) room i(1) Cons.prems(4)] Cons.prems(5) by simp
  then show ?case using Cons.IH [OF i(2)] Cons.prems(2,3,5) i(1) by (simp add: insert_all_def add.assoc)
qed (simp add: insert_all_def)

lemma apply_batch_genuine:
  assumes "iterates ord" "store_inv n (w_store w)" "n + batch_attrs b < 2 ^ 32"
    and "apply_batch ord clock w b = Some w'" "store_genuine X (w_store w)" "set (sb_spans b) \<subseteq> X"
  shows "store_genuine X (w_store w')"
proof -
  from assms(1-3) obtain s1 s2 where
    i: "insert_all (writer_now_unix_nano clock) (w_store w) (sb_spans b) = Some s1"
    and inv1: "store_inv (n + batch_attrs b) s1"
    and e: "evict_over_budget ord (count_malformed s1 (of_nat (sb_malformed_span_count b))) = Some s2"
    and a: "apply_batch ord clock w b = Some (w\<lparr>w_store := s2, w_seq := w_seq w + 1\<rparr>)"
    by (rule apply_batch_ok)
  have "n + sum_list (map (\<lambda>x. length (ns_attributes (snd x))) (sb_spans b)) < 2 ^ 32"
    using assms(3) by (simp add: batch_attrs_def)
  from insert_all_genuine [OF assms(2) this i assms(5,6)] have "store_genuine X s1" .
  moreover from evict_over_budget_sweep [OF assms(1) store_inv_count_malformed
      [OF inv1, of "of_nat (sb_malformed_span_count b)"]] e
  have "sweep_of (count_malformed s1 (of_nat (sb_malformed_span_count b))) s2" by auto
  ultimately show ?thesis using sweep_genuine a assms(4) by fastforce
qed

section \<open>What the API shows of it\<close>

text \<open>A client that resolves the indices of a payload in its string table reads these spans.\<close>
definition payload_shows :: "new_span list \<Rightarrow> trace_payload \<Rightarrow> bool" where
  "payload_shows spans p \<longleftrightarrow>
     map (str_at (tp_string_table p)) (tp_name_idx p) = map (Some \<circ> ns_name) spans
     \<and> map (str_at (tp_string_table p)) (tp_status_message_idx p) = map (Some \<circ> ns_status_message) spans
     \<and> map (map_option (str_at (tp_string_table p))) (tp_service_idx p) = map (map_option Some \<circ> ns_service_name) spans
     \<and> tp_parent_idx p = map (parent_in (map ns_span_id spans) \<circ> ns_parent_span_id) spans
     \<and> tp_orphan p = map (orphan_in (map ns_span_id spans) \<circ> ns_parent_span_id) spans
     \<and> tp_start_time_unix_nano p = map ns_start_time_unix_nano spans
     \<and> tp_end_time_unix_nano p = map ns_end_time_unix_nano spans
     \<and> tp_status_code p = map ns_status_code spans \<and> tp_unknown_service p = map ns_unknown_service spans"

definition entries_of :: "new_span \<Rightarrow> attribute_entry list" where
  "entries_of x = map (\<lambda>kv. \<lparr>ae_key = fst kv, ae_value = snd kv\<rparr>) (ns_attributes x)"

lemma api_shows:
  assumes "holds s tid spans" "trace s tid = Some t" "from_hex path = Some tid"
  shows "3 * length spans \<le> 2 ^ 32 \<Longrightarrow> \<exists>p. get_trace s path = Some (ApiOk p) \<and> payload_shows spans p \<and> tp_trace_id p = to_hex tid"
    and "get_attributes s path idx =
      Some (if idx < length spans then ApiOk (entries_of (spans ! idx)) else ApiNotFound)"
proof -
  let ?of = "span_of (s_key_interner s) (s_service_interner s)"
  from assms(1,2) obtain rows where rows: "rows_ok rows" "t = repr tid (t_generation t) (t_last_activity t) rows"
    "\<forall>r \<in> set rows. row_resolves (s_key_interner s) (s_service_interner s) r" "spans = map ?of rows"
    by (rule holds_resident)
  have svc: "service_text s = ns_service_name \<circ> ?of"
    by (simp add: fun_eq_iff service_text_def span_of_def service_name_def [abs_def])
  show "\<exists>p. get_trace s path = Some (ApiOk p) \<and> payload_shows spans p \<and> tp_trace_id p = to_hex tid"
    if "3 * length spans \<le> 2 ^ 32"
  proof -
    have "3 * length rows \<le> 2 ^ 32" using that rows(4) by simp
    from get_trace_rows [OF rows(1,3) assms(3,2) rows(2) this] show ?thesis
      by (auto simp: decodes_def payload_shows_def rows(4) comp_def svc)
  qed
  show "get_attributes s path idx = Some (if idx < length spans then ApiOk (entries_of (spans ! idx)) else ApiNotFound)"
    using get_attributes_rows [OF rows(1,3) assms(3,2) rows(2), of idx]
    by (simp add: rows(4) entries_of_def span_of_def attribute_key_def comp_def)
qed

end
