(* ===== verification/Served.thy ===== *)
theory Served
  imports Server Contents
begin

text \<open>
  The running server end to end: what the handlers of the read API (\<open>src/api/\<close>) show of the spans in the
  batches that the ingest handlers acknowledged and the writer applied.
\<close>

section \<open>The contents of the store of a running server\<close>

definition applied_spans :: "server \<Rightarrow> (trace_id \<times> new_span) list" where
  "applied_spans y = concat (map sb_spans (y_applied y))"

definition acked_spans :: "server \<Rightarrow> (trace_id \<times> new_span) list" where
  "acked_spans y = concat (map sb_spans (y_acked y))"

text \<open>Of a server started empty, while everything applied fits the budget and its strings are among \<open>K\<close> and \<open>S\<close>.\<close>
definition contents_inv :: "string set \<Rightarrow> string set \<Rightarrow> nat \<Rightarrow> server \<Rightarrow> bool" where
  "contents_inv K S budget y \<longleftrightarrow>
     (attrs_total (y_applied y) < 2 ^ 32 \<and> bytes_total (y_applied y) \<le> budget
      \<and> (\<forall>x \<in> set (applied_spans y). span_strings_in K S (snd x)) \<longrightarrow>
        (\<forall>tid. holds (w_store (y_writer y)) tid (foldl put_span (\<lambda>_. []) (applied_spans y) tid))
        \<and> store_roomy K S (w_store (y_writer y)))"

lemma contents_inv_start:
  assumes "build_server ord budget timeout False = Some y"
    and "finite K" "finite S" "card K \<le> GLOBAL_INTERNER_CAP" "card S \<le> GLOBAL_INTERNER_CAP"
  shows "contents_inv K S budget y"
proof -
  have "w_store (y_writer y) = store_new budget" "y_applied y = []"
    using assms(1) by (auto simp: build_server_plain spawn_writer_def)
  moreover have "holds (store_new budget) tid []" for tid by (simp add: holds_def store_new_def trace_def)
  moreover have "store_roomy K S (store_new budget)"
    using roomy_new assms(2-5) by (simp add: store_roomy_def store_new_def)
  ultimately show ?thesis by (simp add: contents_inv_def applied_spans_def)
qed

lemma contents_inv_apply:
  assumes inv: "server_inv 0 y" and cap: "capacity_inv budget y" and con: "contents_inv K S budget y"
    and ord: "iterates ord" and ap: "apply_batch ord clock (y_writer y) b = Some w"
    and y': "y_writer y' = w" "y_applied y' = y_applied y @ [b]"
  shows "contents_inv K S budget y'"
  unfolding contents_inv_def
proof (intro impI, elim conjE)
  let ?s = "w_store (y_writer y)"
  assume "attrs_total (y_applied y') < 2 ^ 32" "bytes_total (y_applied y') \<le> budget"
    and strs': "\<forall>x \<in> set (applied_spans y'). span_strings_in K S (snd x)"
  then have room: "attrs_total (y_applied y) + batch_attrs b < 2 ^ 32"
    and fits: "bytes_total (y_applied y) + batch_bytes b \<le> budget" by (simp_all add: y' bytes_total_def)
  have spans: "applied_spans y' = applied_spans y @ sb_spans b" by (simp add: applied_spans_def y')
  from room have st: "store_inv (attrs_total (y_applied y)) ?s" using inv by (simp add: server_inv_def)
  have c: "s_max_memory_bytes ?s = budget" "store_bytes ?s \<le> bytes_total (y_applied y)"
    using cap room fits by (auto simp: capacity_inv_def)
  have h: "\<forall>k. holds ?s k (foldl put_span (\<lambda>_. []) (applied_spans y) k)" "store_roomy K S ?s"
    using con room fits strs' by (auto simp: contents_inv_def spans)
  have "store_bytes ?s + batch_bytes b \<le> s_max_memory_bytes ?s" using c fits by simp
  with ord st room obtain s1 where
    i: "insert_all (writer_now_unix_nano clock) ?s (sb_spans b) = Some s1"
    and w: "w_store w = count_malformed s1 (of_nat (sb_malformed_span_count b))"
    using ap by (rule apply_batch_plain)
  have "attrs_total (y_applied y) + sum_list (map (\<lambda>x. length (ns_attributes (snd x))) (sb_spans b)) < 2 ^ 32"
    using room by (simp add: batch_attrs_def)
  from insert_all_holds [OF st this h(2) _ i h(1)] strs'
  show "(\<forall>tid. holds (w_store (y_writer y')) tid (foldl put_span (\<lambda>_. []) (applied_spans y') tid))
    \<and> store_roomy K S (w_store (y_writer y'))" by (simp add: spans y'(1) w)
qed

lemma contents_inv_reachable:
  assumes "reachable env y0 y" "bounded_channel env" "server_inv 0 y0" "capacity_inv budget y0" "contents_inv K S budget y0"
  shows "contents_inv K S budget y"
  using assms(1)
proof (induction rule: reachable.induct)
  case start
  show ?case by (rule assms(5))
next
  case (step y y')
  note invs = server_inv_reachable [OF step.hyps(1) assms(2,3)] capacity_inv_reachable [OF step.hyps(1) assms(2-4)]
  from step.hyps(2) show ?case
  proof (cases rule: server_stepE)
    case (apply_next b bs ord clock w)
    then show ?thesis by (intro contents_inv_apply [OF invs step.IH]) simp_all
  qed (use step.IH in \<open>simp_all add: contents_inv_def applied_spans_def\<close>)
qed

lemma served_contents:
  assumes "iterates ord" "build_server ord budget timeout False = Some y0" "bounded_channel env" "reachable env y0 y"
    and "attrs_total (y_acked y) < 2 ^ 32" "bytes_total (y_acked y) \<le> budget"
    and "card (keys_sent (acked_spans y)) \<le> 100000" "card (services_sent (acked_spans y)) \<le> 100000"
  shows "holds (w_store (y_writer y)) tid (foldl put_span (\<lambda>_. []) (applied_spans y) tid)"
    and "store_ids_wf (w_store (y_writer y))"
proof -
  let ?K = "keys_sent (acked_spans y)" and ?S = "services_sent (acked_spans y)"
  have inv0: "server_inv 0 y0" using server_inv_start [OF assms(1,2)] by simp
  have inv: "server_inv 0 y" by (rule server_inv_reachable [OF assms(4,3) inv0])
  then have acked: "y_acked y = y_applied y @ ch_queue (tx (y_ingest y))" by (simp add: server_inv_def)
  then have fits: "attrs_total (y_applied y) < 2 ^ 32" "bytes_total (y_applied y) \<le> budget"
    using assms(5,6) by (simp_all add: bytes_total_def)
  have "set (applied_spans y) \<subseteq> set (acked_spans y)" by (auto simp: applied_spans_def acked_spans_def acked)
  then have "\<forall>x \<in> set (applied_spans y). span_strings_in ?K ?S (snd x)" using sent_in by blast
  moreover have "contents_inv ?K ?S budget y0"
    using assms(7,8) by (intro contents_inv_start [OF assms(2)]) (simp_all add: GLOBAL_INTERNER_CAP_def)
  ultimately show "holds (w_store (y_writer y)) tid (foldl put_span (\<lambda>_. []) (applied_spans y) tid)"
    using contents_inv_reachable [OF assms(4,3) inv0 capacity_inv_start [OF assms(2)]] fits by (auto simp: contents_inv_def)
  show "store_ids_wf (w_store (y_writer y))" using inv fits(1) by (simp add: server_inv_def)
qed

section \<open>What was sent is what is served\<close>

text \<open>
  C2. Served as sent.  Start a server empty and let exporters, over both transports, and the writer
  interleave in any way, with what is accepted within \<open>--max-memory\<close>, \<open>2^32\<close> attribute pairs, and 100000
  distinct attribute keys and service names.  Then for every trace the API shows the spans that
  the applied batches carried for it, in the order of their first arrival, each as it was last
  sent but for its first parent: \<open>get_trace\<close> answers with a payload that reads back to their names,
  times, status, service names, parent positions and orphan flags, \<open>get_attributes\<close> with the keys and
  values of each, and a trace that nothing was sent for is a 404.
\<close>
theorem served_as_sent:
  assumes "iterates ord" "build_server ord budget timeout False = Some y0" "bounded_channel env" "reachable env y0 y"
    and "attrs_total (y_acked y) < 2 ^ 32" "bytes_total (y_acked y) \<le> budget"
    and "card (keys_sent (acked_spans y)) \<le> 100000" "card (services_sent (acked_spans y)) \<le> 100000"
    and "spans = foldl put_span (\<lambda>_. []) (applied_spans y) tid" "trace_id_wf tid" "3 * length spans \<le> 2 ^ 32"
  shows "get_attributes (w_store (y_writer y)) (to_hex tid) idx =
      Some (if idx < length spans then ApiOk (entries_of (spans ! idx)) else ApiNotFound)
    \<and> (if spans = [] then get_trace (w_store (y_writer y)) (to_hex tid) = Some ApiNotFound
       else \<exists>p. get_trace (w_store (y_writer y)) (to_hex tid) = Some (ApiOk p) \<and> payload_shows spans p
              \<and> tp_trace_id p = to_hex tid)"
proof -
  let ?s = "w_store (y_writer y)"
  have h: "holds ?s tid spans" using served_contents(1) [OF assms(1-8)] assms(9) by simp
  have hex: "from_hex (to_hex tid) = Some tid" by (rule from_hex_to_hex [OF assms(10)])
  show ?thesis
  proof (cases "trace ?s tid")
    case None
    with h have "spans = []" by (simp add: holds_def)
    with None show ?thesis by (simp add: get_attributes_def get_trace_def hex)
  next
    case (Some t)
    with h have "spans \<noteq> []" using holds_nothing [of ?s tid] by auto
    with api_shows [OF h Some hex] assms(11) show ?thesis by simp
  qed
qed

lemma sample_span_sent:
  obtains x where "sb_spans (batch_of sample_request) = [(TraceId (replicate 16 1), x)]"
    "ns_span_id x = SpanId (replicate 8 2)" "ns_attributes x = []"
  using that
  by (simp add: batch_of_def sample_request_def request_spans_def convert_one_def List.map_filter_simps)

theorem served_as_sent_witness:
  "\<exists>y0 y x p. build_server rev 1000 10 False = Some y0 \<and> reachable sample_env y0 y
     \<and> sb_spans (batch_of sample_request) = [(TraceId (replicate 16 1), x)] \<and> y_acked y = [batch_of sample_request]
     \<and> get_trace (w_store (y_writer y)) (to_hex (TraceId (replicate 16 1))) = Some (ApiOk p) \<and> payload_shows [x] p
     \<and> get_attributes (w_store (y_writer y)) (to_hex (TraceId (replicate 16 1))) 0 = Some (ApiOk (entries_of x))"
proof -
  obtain y0 y where y: "build_server rev 1000 10 False = Some y0" "reachable sample_env y0 y"
    "y_acked y = [batch_of sample_request]" "y_applied y = [batch_of sample_request]" by (rule sample_drained)
  obtain x where x: "sb_spans (batch_of sample_request) = [(TraceId (replicate 16 1), x)]" "ns_attributes x = []"
    by (rule sample_span_sent)
  have acked: "acked_spans y = [(TraceId (replicate 16 1), x)]" by (simp add: acked_spans_def y(3) x(1))
  have spans: "[x] = foldl put_span (\<lambda>_. []) (applied_spans y) (TraceId (replicate 16 1))"
    by (simp add: applied_spans_def y(4) x(1) put_span_def upsert_def)
  have size: "attrs_total (y_acked y) < 2 ^ 32" "bytes_total (y_acked y) \<le> 1000"
    using sample_batch_size by (simp_all add: y(3) bytes_total_def)
  have "card (set_option (ns_service_name x)) \<le> 1" by (cases "ns_service_name x") simp_all
  then have strs: "card (keys_sent (acked_spans y)) \<le> 100000" "card (services_sent (acked_spans y)) \<le> 100000"
    by (simp_all add: acked keys_sent_def services_sent_def x(2))
  have tid: "trace_id_wf (TraceId (replicate 16 1))" by (simp add: wf_simps)
  have "3 * length [x] \<le> 2 ^ 32" by simp
  from served_as_sent [OF iterates_rev y(1) bounded_channel_sample y(2) size strs spans tid this, of 0] y x(1)
  show ?thesis by (intro exI [of _ y0] exI [of _ y] exI [of _ x]) auto
qed

section \<open>What is served was sent\<close>

text \<open>Where a server's spans can come from: the demo data, if it was seeded, and the applied batches.\<close>
definition sources :: "bool \<Rightarrow> server \<Rightarrow> (trace_id \<times> new_span) set" where
  "sources demo y = (if demo then set demo_spans else {}) \<union> set (applied_spans y)"

lemma demo_inserts_genuine:
  assumes "store_inv n s" "n + sum_list (map (\<lambda>x. length (ns_attributes (snd x))) xs) < 2 ^ 32"
    and "foldO demo_insert (s, now) xs = Some (s', now')" "store_genuine X s" "set xs \<subseteq> X"
  shows "store_genuine X s' \<and> store_inv (n + sum_list (map (\<lambda>x. length (ns_attributes (snd x))) xs)) s'"
  using assms
proof (induction xs arbitrary: n s now)
  case (Cons x xs)
  have room: "n + length (ns_attributes (snd x)) < 2 ^ 32" using Cons.prems(2) by simp
  from insert_span_no_evict_inv [OF Cons.prems(1) room] obtain s1 out where
    i: "insert_span_no_evict s (fst x) (snd x) now = Some (s1, out)" "store_inv (n + length (ns_attributes (snd x))) s1"
    by blast
  have "store_genuine X s1" using insert_genuine [OF Cons.prems(1) room i(1) Cons.prems(4)] Cons.prems(5) by simp
  moreover have "foldO demo_insert (s1, now + 1) xs = Some (s', now')"
    using Cons.prems(3) i(1) by (simp add: demo_insert_def [of "(s, now)"])
  ultimately show ?case using Cons.IH [OF i(2), of "now + 1"] Cons.prems(2,5) by (simp add: add.assoc)
qed simp

lemma seed_genuine:
  assumes "iterates ord" "seed ord (store_new budget) = Some s"
  shows "store_genuine (set demo_spans) s"
proof -
  from assms(2) obtain s1 now where s1: "foldO demo_insert (store_new budget, 0) demo_spans = Some (s1, now)"
    "evict_over_budget ord s1 = Some s" by (auto simp: seed_def split: Option.bind_splits)
  have cost: "sum_list (map (\<lambda>x. length (ns_attributes (snd x))) demo_spans) = 2"
    by (simp add: demo_spans_def demo_span_def search_span_def comp_def sum_list_triv)
  have "store_genuine (set demo_spans) s1 \<and> store_inv (0 + 2) s1"
    using demo_inserts_genuine [OF store_inv_new [of 0 budget] _ s1(1) store_genuine_new order_refl] unfolding cost by simp
  then have gen: "store_genuine (set demo_spans) s1" and inv: "store_inv (0 + 2) s1" by blast+
  from evict_over_budget_sweep [OF assms(1) inv] s1(2) have "sweep_of s1 s" by auto
  then show ?thesis by (rule sweep_genuine [OF _ gen])
qed

definition genuine_inv :: "bool \<Rightarrow> server \<Rightarrow> bool" where
  "genuine_inv demo y \<longleftrightarrow>
     ((if demo then 2 else 0) + attrs_total (y_applied y) < 2 ^ 32 \<longrightarrow> store_genuine (sources demo y) (w_store (y_writer y)))"

lemma genuine_inv_start:
  assumes "iterates ord" "build_server ord budget timeout demo = Some y"
  shows "genuine_inv demo y"
proof (cases demo)
  case True
  with assms(2) obtain s where "seed ord (store_new budget) = Some s" "w_store (y_writer y) = s" "y_applied y = []"
    by (auto simp: build_server_def spawn_writer_def Let_def split: Option.bind_splits)
  with seed_genuine [OF assms(1)] True show ?thesis by (simp add: genuine_inv_def sources_def applied_spans_def)
next
  case False
  with assms(2) have "w_store (y_writer y) = store_new budget" by (auto simp: build_server_plain spawn_writer_def)
  then show ?thesis by (simp add: genuine_inv_def store_genuine_new)
qed

lemma genuine_inv_apply:
  assumes inv: "server_inv (if demo then 2 else 0) y" and gen: "genuine_inv demo y" and ord: "iterates ord"
    and ap: "apply_batch ord clock (y_writer y) b = Some w"
    and y': "y_writer y' = w" "y_applied y' = y_applied y @ [b]"
  shows "genuine_inv demo y'"
  unfolding genuine_inv_def
proof
  let ?n = "(if demo then 2 else 0) + attrs_total (y_applied y)"
  assume "(if demo then 2 else 0) + attrs_total (y_applied y') < 2 ^ 32"
  then have room: "?n + batch_attrs b < 2 ^ 32" by (simp add: y' add.assoc)
  then have "store_inv ?n (w_store (y_writer y))" "store_genuine (sources demo y) (w_store (y_writer y))"
    using inv gen by (simp_all add: server_inv_def genuine_inv_def)
  moreover have "sources demo y' = sources demo y \<union> set (sb_spans b)" by (auto simp: sources_def applied_spans_def y')
  ultimately show "store_genuine (sources demo y') (w_store (y_writer y'))"
    using apply_batch_genuine [OF ord _ room ap] store_genuine_mono by (simp add: y'(1))
qed

lemma genuine_inv_reachable:
  assumes "reachable env y0 y" "bounded_channel env" "server_inv (if demo then 2 else 0) y0" "genuine_inv demo y0"
  shows "genuine_inv demo y"
  using assms(1)
proof (induction rule: reachable.induct)
  case start
  show ?case by (rule assms(4))
next
  case (step y y')
  note inv = server_inv_reachable [OF step.hyps(1) assms(2,3)]
  from step.hyps(2) show ?case
  proof (cases rule: server_stepE)
    case (apply_next b bs ord clock w)
    then show ?thesis by (intro genuine_inv_apply [OF inv step.IH]) simp_all
  qed (use step.IH in \<open>simp_all add: genuine_inv_def sources_def applied_spans_def\<close>)
qed

text \<open>
  C4. Nothing is made up.  In every reachable state, whatever has been evicted, resurrected, overwritten
  or refused by a full interner (with fewer than \<open>2^32\<close> attribute pairs applied), what the API shows of a
  resident trace are spans that were sent for that very trace: each has the name, times, status
  and ids of one span of an applied batch or of the demo data, its service name or none, a
  subsequence of its attributes, and a parent that a span sent with the same id named.  The
  spans have distinct ids, \<open>get_trace\<close> reads back to them and \<open>get_attributes\<close> gives their attributes.
\<close>
theorem nothing_made_up:
  assumes "iterates ord" "build_server ord budget timeout demo = Some y0" "bounded_channel env" "reachable env y0 y"
    and "2 + attrs_total (y_applied y) < 2 ^ 32" "trace (w_store (y_writer y)) tid = Some t"
  shows "\<exists>spans. spans \<noteq> [] \<and> distinct (map ns_span_id spans) \<and> (\<forall>x \<in> set spans. genuine (sources demo y) tid x)
    \<and> (3 * length spans \<le> 2 ^ 32 \<longrightarrow>
        (\<exists>p. get_trace (w_store (y_writer y)) (to_hex tid) = Some (ApiOk p) \<and> payload_shows spans p))
    \<and> (\<forall>idx. get_attributes (w_store (y_writer y)) (to_hex tid) idx =
        Some (if idx < length spans then ApiOk (entries_of (spans ! idx)) else ApiNotFound))"
proof -
  let ?s = "w_store (y_writer y)"
  have inv0: "server_inv (if demo then 2 else 0) y0" by (rule server_inv_start [OF assms(1,2)])
  have inv: "server_inv (if demo then 2 else 0) y" by (rule server_inv_reachable [OF assms(4,3) inv0])
  have room: "(if demo then 2 else 0) + attrs_total (y_applied y) < 2 ^ 32" using assms(5) by simp
  with genuine_inv_reachable [OF assms(4,3) inv0 genuine_inv_start [OF assms(1,2)]]
  obtain spans where spans: "holds ?s tid spans" "\<forall>x \<in> set spans. genuine (sources demo y) tid x"
    by (auto simp: genuine_inv_def store_genuine_def)
  have hex: "from_hex (to_hex tid) = Some tid"
    using inv room assms(6) by (auto simp: server_inv_def store_ids_wf_def intro: from_hex_to_hex)
  from spans(1) assms(6) obtain rows where "rows_ok rows"
    "spans = map (span_of (s_key_interner ?s) (s_service_interner ?s)) rows" by (rule holds_resident)
  then have "distinct (map ns_span_id spans)" by (simp add: wf_simps comp_def)
  moreover have "spans \<noteq> []" using spans(1) assms(6) holds_nothing [of ?s tid] by auto
  ultimately show ?thesis
    using spans(2) api_shows [OF spans(1) assms(6) hex] by (intro exI [of _ spans]) auto
qed

theorem nothing_made_up_witness:
  "\<exists>y0 y spans. build_server rev 1000 10 False = Some y0 \<and> reachable sample_env y0 y \<and> spans \<noteq> []
     \<and> (\<forall>x \<in> set spans. genuine (set (sb_spans (batch_of sample_request))) (TraceId (replicate 16 1)) x)
     \<and> get_attributes (w_store (y_writer y)) (to_hex (TraceId (replicate 16 1))) 0 = Some (ApiOk (entries_of (spans ! 0)))"
proof -
  obtain y0 y where y: "build_server rev 1000 10 False = Some y0" "reachable sample_env y0 y"
    "y_applied y = [batch_of sample_request]"
    "resident_ids (w_store (y_writer y)) = (\<lambda>_. [])(TraceId (replicate 16 1) := [SpanId (replicate 8 2)])"
    by (rule sample_drained)
  from y(4) have "resident_ids (w_store (y_writer y)) (TraceId (replicate 16 1)) \<noteq> []" by simp
  then obtain t where t: "trace (w_store (y_writer y)) (TraceId (replicate 16 1)) = Some t"
    by (cases "trace (w_store (y_writer y)) (TraceId (replicate 16 1))") (simp_all add: resident_ids_def)
  have room: "2 + attrs_total (y_applied y) < 2 ^ 32" using sample_batch_size(1) by (simp add: y(3))
  have "sources False y = set (sb_spans (batch_of sample_request))" by (simp add: sources_def applied_spans_def y(3))
  with nothing_made_up [OF iterates_rev y(1) bounded_channel_sample y(2) room t] obtain spans where
    "spans \<noteq> []" "\<forall>x \<in> set spans. genuine (set (sb_spans (batch_of sample_request))) (TraceId (replicate 16 1)) x"
    "get_attributes (w_store (y_writer y)) (to_hex (TraceId (replicate 16 1))) 0
       = Some (if 0 < length spans then ApiOk (entries_of (spans ! 0)) else ApiNotFound)" by auto
  with y(1,2) show ?thesis by (intro exI [of _ y0] exI [of _ y] exI [of _ spans]) simp
qed

end
