(* ===== verification/Json.thy ===== *)
theory Json
  imports Types "HOL-Library.Char_ord" "HOL-Library.List_Lexorder"
begin

text \<open>
  JSON documents as \<open>serde_json\<close> presents them to the sources: the accessors of \<open>Value\<close> the client calls,
  and the order in which an object's fields appear.  A server serializes the fields of a struct in
  the order of their declaration; a client's \<open>Value\<close> keeps them in a map sorted by key.
\<close>

datatype json =
    JNull
  | JBool bool
  | JInt int
  | JFloat f64
  | JStr string
  | JArr "json list"
  | JObj "(string \<times> json) list"

text \<open>\<open>Value::as_str\<close>, \<open>as_u64\<close>, \<open>as_array\<close>, and indexing by a key, which gives \<open>null\<close> when there is no such field.\<close>
fun as_str :: "json \<Rightarrow> string option" where
  "as_str (JStr s) = Some s"
| "as_str _ = None"

fun as_u64 :: "json \<Rightarrow> nat option" where
  "as_u64 (JInt i) = (if 0 \<le> i \<and> i < 2 ^ 64 then Some (nat i) else None)"
| "as_u64 _ = None"

fun as_array :: "json \<Rightarrow> json list option" where
  "as_array (JArr xs) = Some xs"
| "as_array _ = None"

fun field :: "json \<Rightarrow> string \<Rightarrow> json" where
  "field (JObj kvs) k = (case map_of kvs k of Some v \<Rightarrow> v | None \<Rightarrow> JNull)"
| "field _ k = JNull"

section \<open>Serialization of Rust values\<close>

definition json_opt :: "('a \<Rightarrow> json) \<Rightarrow> 'a option \<Rightarrow> json" where
  "json_opt f x = (case x of None \<Rightarrow> JNull | Some y \<Rightarrow> f y)"

definition json_vec :: "('a \<Rightarrow> json) \<Rightarrow> 'a list \<Rightarrow> json" where
  "json_vec f xs = JArr (map f xs)"

definition json_unsigned :: "'a :: len word \<Rightarrow> json" where
  "json_unsigned w = JInt (uint w)"

definition json_signed :: "'a :: len word \<Rightarrow> json" where
  "json_signed w = JInt (sint w)"

definition json_usize :: "nat \<Rightarrow> json" where
  "json_usize n = JInt (int n)"

section \<open>Sorted objects\<close>

text \<open>The document a parser returns for the text of a document: the fields of every object sorted.\<close>
fun canon :: "json \<Rightarrow> json" where
  "canon (JArr xs) = JArr (map canon xs)"
| "canon (JObj kvs) = JObj (sort_key fst (map (map_prod id canon) kvs))"
| "canon v = v"

text \<open>Documents that text carries exactly: no floats (\<open>NaN\<close> is written as \<open>null\<close>), keys distinct.\<close>
fun exact :: "json \<Rightarrow> bool" where
  "exact (JFloat d) = False"
| "exact (JArr xs) = (\<forall>x \<in> set xs. exact x)"
| "exact (JObj kvs) = (distinct (map fst kvs) \<and> (\<forall>kv \<in> set kvs. exact (snd kv)))"
| "exact v = True"

lemma exact_values [simp]:
  "exact (json_unsigned w)" "exact (json_signed w)" "exact (json_usize n)"
  "exact (json_vec f xs) \<longleftrightarrow> (\<forall>x \<in> set xs. exact (f x))"
  "exact (json_opt f y) \<longleftrightarrow> (\<forall>x. y = Some x \<longrightarrow> exact (f x))"
  by (auto simp: json_unsigned_def json_signed_def json_usize_def json_vec_def json_opt_def split: option.split)

lemma canon_values [simp]:
  "canon (json_unsigned w) = json_unsigned w" "canon (json_signed w) = json_signed w"
  "canon (json_usize n) = json_usize n"
  "canon (json_vec f xs) = json_vec (canon \<circ> f) xs" "canon (json_opt f y) = json_opt (canon \<circ> f) y"
  by (auto simp: json_unsigned_def json_signed_def json_usize_def json_vec_def json_opt_def split: option.split)

text \<open>Sorting the fields changes none of them.\<close>
lemma map_of_sort_key: "distinct (map fst kvs) \<Longrightarrow> map_of (sort_key fst kvs) = map_of kvs"
  by (rule map_of_inject_set [THEN iffD2]) (simp_all add: distinct_map)

lemma field_canon:
  assumes "distinct (map fst kvs)" "map_of kvs k = Some v"
  shows "field (canon (JObj kvs)) k = canon v"
proof -
  have "distinct (map fst (map (map_prod id canon) kvs))" using assms(1) by (simp add: comp_def)
  then have "map_of (sort_key fst (map (map_prod id canon) kvs)) k = map_of (map (map_prod id canon) kvs) k"
    by (simp add: map_of_sort_key)
  also have "\<dots> = Some (canon v)" using assms(2) by (simp add: map_of_map map_prod_def)
  finally show ?thesis by simp
qed

end
