(* ===== verification/Api_Router.thy ===== *)
theory Api_Router
  imports Read_Api Handler Json
begin

text \<open>
  \<open>src/api/mod.rs\<close> and the route of \<open>src/ingest/http.rs\<close>: which handler answers which path, and the JSON
  documents the handlers' replies are serialized to (the \<open>#[derive(Serialize)]\<close> of the response types).
  Matching a path against the route patterns is the router library's: \<open>find_route\<close>, a parameter, gets the
  patterns and a path and returns the pattern that matches with the decoded captures.
\<close>

section \<open>Serialized responses\<close>

definition json_of_summary :: "trace_summary \<Rightarrow> json" where
  "json_of_summary x = JObj
    [(''trace_id'', JStr (ts_trace_id x)), (''span_count'', json_usize (ts_span_count x)),
     (''duration_nanos'', json_opt json_unsigned (ts_duration_nanos x)),
     (''services'', json_vec JStr (ts_services x))]"

definition json_of_payload :: "trace_payload \<Rightarrow> json" where
  "json_of_payload p = JObj
    [(''trace_id'', JStr (tp_trace_id p)), (''generation'', json_unsigned (tp_generation p)),
     (''string_table'', json_vec JStr (tp_string_table p)), (''name_idx'', json_vec json_unsigned (tp_name_idx p)),
     (''parent_idx'', json_vec (json_opt json_usize) (tp_parent_idx p)),
     (''start_time_unix_nano'', json_vec json_unsigned (tp_start_time_unix_nano p)),
     (''end_time_unix_nano'', json_vec json_unsigned (tp_end_time_unix_nano p)),
     (''status_message_idx'', json_vec json_unsigned (tp_status_message_idx p)),
     (''status_code'', json_vec json_signed (tp_status_code p)), (''orphan'', json_vec JBool (tp_orphan p)),
     (''unknown_service'', json_vec JBool (tp_unknown_service p)),
     (''service_idx'', json_vec (json_opt json_unsigned) (tp_service_idx p))]"

text \<open>\<open>AttrValue\<close> is untagged.\<close>
definition json_of_attr :: "attr_value \<Rightarrow> json" where
  "json_of_attr v = (case v of Str s \<Rightarrow> JStr s | Int64 i \<Rightarrow> json_signed i | Double d \<Rightarrow> JFloat d | Bool b \<Rightarrow> JBool b)"

definition json_of_entry :: "attribute_entry \<Rightarrow> json" where
  "json_of_entry e = JObj [(''key'', JStr (ae_key e)), (''value'', json_of_attr (ae_value e))]"

definition json_of_filter :: "filter_response \<Rightarrow> json" where
  "json_of_filter r = JObj [(''indices'', json_vec json_usize (indices r)), (''dropped_terms'', json_vec JStr (dropped_terms r))]"

definition json_of_arrivals :: "arrival_counts \<Rightarrow> json" where
  "json_of_arrivals c = JObj
    [(''grpc_v4317'', json_unsigned (grpc_v4317 c)), (''http_protobuf_v4318'', json_unsigned (http_protobuf_v4318 c)),
     (''http_json_v4318'', json_unsigned (http_json_v4318 c))]"

definition json_of_counters :: "counters \<Rightarrow> json" where
  "json_of_counters c = JObj
    [(''duplicate_span'', json_unsigned (duplicate_span c)), (''attribute_key_cap_hit'', json_unsigned (attribute_key_cap_hit c)),
     (''late_span_after_eviction'', json_unsigned (late_span_after_eviction c)),
     (''evicted_traces'', json_unsigned (evicted_traces c)), (''malformed_span'', json_unsigned (malformed_span c))]"

definition json_of_reject :: "reject_record \<Rightarrow> json" where
  "json_of_reject r = JObj [(''reason'', JStr (rr_reason r)), (''at_unix_nano'', json_unsigned (rr_at_unix_nano r))]"

definition json_of_receiver :: "receiver_response \<Rightarrow> json" where
  "json_of_receiver r = JObj
    [(''arrivals'', json_of_arrivals (rsp_arrivals r)), (''counters'', json_of_counters (rsp_counters r)),
     (''recent_rejects'', json_vec json_of_reject (rsp_recent_rejects r))]"

definition json_of_lint :: "unit list \<Rightarrow> json" where
  "json_of_lint findings = JObj [(''findings'', json_vec (\<lambda>_. JNull) findings)]"

lemmas json_of_defs = json_of_summary_def json_of_payload_def json_of_filter_def json_of_arrivals_def
  json_of_counters_def json_of_reject_def json_of_receiver_def

text \<open>Everything but the attributes of a span, which may be floats, survives the trip as text.\<close>
lemma exact_responses [simp]:
  "exact (json_of_summary x)" "exact (json_of_payload p)" "exact (json_of_filter r)" "exact (json_of_receiver v)"
  by (simp_all add: json_of_defs)

section \<open>The routes\<close>

datatype http_method = GET | HEAD | POST | OtherMethod

datatype api_body = JsonBody json | TextBody string | EmptyBody | EventStream "string list"

datatype api_handler = ListTraces | GetTrace | GetAttributes | GetFilter | GetReceiver | GetEvents | GetLint

definition API_ROUTES :: "(string \<times> api_handler) list" where
  "API_ROUTES =
    [(''/api/traces'', ListTraces),
     (''/api/traces/{id}'', GetTrace),
     (''/api/traces/{id}/spans/{idx}/attributes'', GetAttributes),
     (''/api/traces/{id}/filter'', GetFilter),
     (''/api/receiver'', GetReceiver),
     (''/api/events'', GetEvents),
     (''/api/lint'', GetLint)]"

text \<open>\<open>ApiState\<close>; the third field is what the watched sequence number goes through from now on.\<close>
record api_state =
  as_store :: store
  as_receiver :: receiver_state
  as_events_seq :: "u64 list"

text \<open>\<open>IntoResponse\<close> of the replies for one trace.\<close>
definition into_response :: "('a \<Rightarrow> json) \<Rightarrow> 'a api_reply \<Rightarrow> nat \<times> api_body" where
  "into_response f r =
    (case r of
       ApiBadRequest text \<Rightarrow> (400, TextBody text)
     | ApiNotFound \<Rightarrow> (404, EmptyBody)
     | ApiOk x \<Rightarrow> (200, JsonBody (f x)))"

text \<open>The handlers' arguments come out of the captures; a \<open>usize\<close> that does not parse is refused with 400
  and the extractor's own text \<open>path_error\<close>, a wrong number of captures is a 500.\<close>
definition call_handler ::
    "(string \<Rightarrow> string) \<Rightarrow> hash_order \<Rightarrow> api_state \<Rightarrow> api_handler \<Rightarrow> string list \<Rightarrow> (string \<rightharpoonup> string)
     \<Rightarrow> (nat \<times> api_body) panics" where
  "call_handler path_error ord st h args params =
    (case h of
       ListTraces \<Rightarrow> map_option (\<lambda>out. (200, JsonBody (json_vec json_of_summary out))) (list_traces ord (as_store st))
     | GetReceiver \<Rightarrow> Some (200, JsonBody (json_of_receiver (get_receiver (as_store st) (as_receiver st))))
     | GetEvents \<Rightarrow> Some (200, EventStream (get_events (as_events_seq st)))
     | GetLint \<Rightarrow> Some (200, JsonBody (json_of_lint get_lint))
     | GetTrace \<Rightarrow>
         (case args of
            [path] \<Rightarrow> map_option (into_response json_of_payload) (get_trace (as_store st) path)
          | _ \<Rightarrow> Some (500, EmptyBody))
     | GetFilter \<Rightarrow>
         (case args of
            [path] \<Rightarrow> map_option (into_response json_of_filter) (get_filter (as_store st) path params)
          | _ \<Rightarrow> Some (500, EmptyBody))
     | GetAttributes \<Rightarrow>
         (case args of
            [path, n] \<Rightarrow>
              (case from_str_radix_unsigned (2 ^ 64) 10 n of
                 None \<Rightarrow> Some (400, TextBody (path_error n))
               | Some idx \<Rightarrow> map_option (into_response (json_vec json_of_entry)) (get_attributes (as_store st) path idx))
          | _ \<Rightarrow> Some (500, EmptyBody)))"

definition router ::
    "(string list \<Rightarrow> string \<Rightarrow> (string \<times> string list) option) \<Rightarrow> (string \<Rightarrow> string) \<Rightarrow> hash_order \<Rightarrow> api_state
     \<Rightarrow> http_method \<Rightarrow> string \<Rightarrow> (string \<rightharpoonup> string) \<Rightarrow> (nat \<times> api_body) panics" where
  "router find_route path_error ord st meth path params =
    (case find_route (map fst API_ROUTES) path of
       None \<Rightarrow> Some (404, EmptyBody)
     | Some (pat, args) \<Rightarrow>
         (case map_of API_ROUTES pat of
            None \<Rightarrow> Some (404, EmptyBody)
          | Some h \<Rightarrow>
              if meth = GET then call_handler path_error ord st h args params
              else if meth = HEAD then map_option (\<lambda>(code, _). (code, EmptyBody)) (call_handler path_error ord st h args params)
              else Some (405, EmptyBody)))"

text \<open>\<open>http::router\<close>: the one route of the OTLP/HTTP port.\<close>
definition ingest_router ::
    "(string list \<Rightarrow> string \<Rightarrow> (string \<times> string list) option) \<Rightarrow> 'c ingest_env \<Rightarrow> nat option \<Rightarrow> 'c ingest_state
     \<Rightarrow> http_method \<Rightarrow> string \<Rightarrow> string option \<Rightarrow> u8 list \<Rightarrow> 'c ingest_state \<times> http_response" where
  "ingest_router find_route env clock st meth path header bytes =
    (case find_route [''/v1/traces''] path of
       None \<Rightarrow> (st, status_only 404)
     | Some _ \<Rightarrow> if meth = POST then http_export env clock st header bytes else (st, status_only 405))"

text \<open>The router's panics are those of the handlers, and they have none.\<close>
lemma router_answers:
  assumes "iterates ord" "store_inv n (as_store st)" "\<And>q. params ''q'' = Some q \<Longrightarrow> utf8_valid q"
    and "\<And>tid t. trace (as_store st) tid = Some t \<Longrightarrow> 3 * span_count t \<le> 2 ^ 32"
  shows "\<exists>r. router find_route path_error ord st meth path params = Some r"
proof -
  note list = list_traces_summaries [OF assms(1,2)] and filter = filter_never_panics [OF assms(2,3)]
    and trace = trace_get.never_panics [OF assms(2,4)] and attributes = attributes_get.never_panics [OF assms(2)]
  have "\<exists>r. call_handler path_error ord st h args params = Some r" for h args
  proof (cases h)
    case ListTraces
    with list show ?thesis by (auto simp: call_handler_def)
  next
    case GetTrace
    with trace show ?thesis by (auto simp: call_handler_def simp del: split_paired_Ex split: list.split)
  next
    case GetFilter
    with filter show ?thesis by (auto simp: call_handler_def simp del: split_paired_Ex split: list.split)
  next
    case GetAttributes
    with attributes show ?thesis by (auto simp: call_handler_def simp del: split_paired_Ex split: list.split option.split)
  qed (simp_all add: call_handler_def)
  then show ?thesis
    by (auto simp: router_def simp del: split_paired_Ex split: option.split prod.split)
qed

section \<open>What the client relies on\<close>

text \<open>Documented behaviour of the matcher on the paths the client asks for: a pattern without a capture
  matches itself, and a capture takes one segment of letters and digits as it stands.\<close>
definition is_plain :: "string \<Rightarrow> bool" where
  "is_plain s \<longleftrightarrow> s \<noteq> [] \<and> (\<forall>c \<in> set s. is_ascii_alphabetic c \<or> is_ascii_digit c)"

definition matches_routes :: "(string list \<Rightarrow> string \<Rightarrow> (string \<times> string list) option) \<Rightarrow> bool" where
  "matches_routes find_route \<longleftrightarrow>
     find_route (map fst API_ROUTES) ''/api/traces'' = Some (''/api/traces'', [])
     \<and> find_route (map fst API_ROUTES) ''/api/receiver'' = Some (''/api/receiver'', [])
     \<and> (\<forall>path. is_plain path \<longrightarrow>
          find_route (map fst API_ROUTES) (''/api/traces/'' @ path) = Some (''/api/traces/{id}'', [path]))"

lemma router_get:
  assumes "matches_routes find_route"
  shows "router find_route pe ord st GET ''/api/traces'' params
      = map_option (\<lambda>out. (200, JsonBody (json_vec json_of_summary out))) (list_traces ord (as_store st))"
    and "router find_route pe ord st GET ''/api/receiver'' params
      = Some (200, JsonBody (json_of_receiver (get_receiver (as_store st) (as_receiver st))))"
    and "is_plain path \<Longrightarrow> router find_route pe ord st GET (''/api/traces/'' @ path) params
      = map_option (into_response json_of_payload) (get_trace (as_store st) path)"
  using assms by (simp_all add: matches_routes_def router_def call_handler_def API_ROUTES_def)

lemma is_plain_to_hex:
  assumes "trace_id_wf tid"
  shows "is_plain (to_hex tid)"
proof -
  have hex: "is_ascii_alphabetic (hex_digit d) \<or> is_ascii_digit (hex_digit d)" if "d < 16" for d
    using byte_hex_digit [OF that] that by (auto simp: is_ascii_alphabetic_def is_ascii_digit_def)
  have "is_ascii_alphabetic c \<or> is_ascii_digit c" if "c \<in> set (to_hex tid)" for c
    using that hex [OF u8_nibble] hex [of "unat b mod 16" for b :: u8] by (fastforce simp: to_hex_def fmt_02x_def)
  moreover have "to_hex tid \<noteq> []" using assms by (auto simp: wf_simps simp flip: length_0_conv)
  ultimately show ?thesis by (simp add: is_plain_def)
qed

end
