(* ===== verification/Rust_Text.thy ===== *)
theory Rust_Text
  imports Prelude
begin

text \<open>
  The text functions of the Rust standard library that the command line client uses:
  \<open>String::from_utf8_lossy\<close>, \<open>str::lines\<close>, \<open>str::split_whitespace\<close>, the position of a byte pattern in a
  buffer and the padding of \<open>format!\<close>, with the facts the client's proofs need of them.
\<close>

section \<open>Bytes as text\<close>

definition text_of :: "u8 list \<Rightarrow> string" where
  "text_of bs = map (\<lambda>b. char_of (unat b)) bs"

lemma text_of_append [simp]: "text_of (a @ b) = text_of a @ text_of b"
  by (simp add: text_of_def)

lemma length_bytes_of [simp]: "length (bytes_of s) = length s"
  by (simp add: bytes_of_def)

lemma bytes_of_append [simp]: "bytes_of (a @ b) = bytes_of a @ bytes_of b"
  by (simp add: bytes_of_def)

lemma text_of_bytes_of [simp]: "text_of (bytes_of s) = s"
proof -
  have "char_of (unat (of_nat (byte c) :: u8)) = c" for c
  proof -
    have "byte c < 256" by (simp add: byte_def)
    then have "unat (of_nat (byte c) :: u8) = byte c" by (simp add: unat_of_nat take_bit_nat_eq_self)
    then show ?thesis by (simp add: byte_def)
  qed
  then show ?thesis by (simp add: text_of_def bytes_of_def comp_def)
qed

lemma bytes_of_inject [simp]: "bytes_of s = bytes_of t \<longleftrightarrow> s = t"
  by (metis text_of_bytes_of)

section \<open>\<open>String::from_utf8_lossy\<close>\<close>

text \<open>U+FFFD, the replacement character.\<close>
definition REPLACEMENT :: rchar where
  "REPLACEMENT = [CHR 0xEF, CHR 0xBF, CHR 0xBD]"

text \<open>Whether \<open>b\<close> may follow the lead byte \<open>a\<close> of a longer sequence.\<close>
definition second_ok :: "char \<Rightarrow> char \<Rightarrow> bool" where
  "second_ok a b \<longleftrightarrow> is_cont b
     \<and> (byte a = 0xE0 \<longrightarrow> 0xA0 \<le> byte b) \<and> (byte a = 0xED \<longrightarrow> byte b \<le> 0x9F)
     \<and> (byte a = 0xF0 \<longrightarrow> 0x90 \<le> byte b) \<and> (byte a = 0xF4 \<longrightarrow> byte b \<le> 0x8F)"

text \<open>The sequence that starts at a byte: how many bytes follow it, and whether it is a character.
  A sequence that is cut short ends before the first byte that cannot continue it.\<close>
definition utf8_unit :: "char \<Rightarrow> string \<Rightarrow> nat \<times> bool" where
  "utf8_unit a bs =
    (let w = (if byte a < 0x80 then 1 else if 0xC2 \<le> byte a \<and> byte a \<le> 0xDF then 2
              else if 0xE0 \<le> byte a \<and> byte a \<le> 0xEF then 3
              else if 0xF0 \<le> byte a \<and> byte a \<le> 0xF4 then 4 else 0 :: nat)
     in if w = 0 then (0, False)
        else if w = 1 then (0, True)
        else case bs of
          [] \<Rightarrow> (0, False)
        | b # cs \<Rightarrow>
            if \<not> second_ok a b then (0, False)
            else if w = 2 then (1, True)
            else case cs of
              [] \<Rightarrow> (1, False)
            | c # ds \<Rightarrow>
                if \<not> is_cont c then (1, False)
                else if w = 3 then (2, True)
                else case ds of
                  [] \<Rightarrow> (2, False)
                | d # es \<Rightarrow> if is_cont d then (3, True) else (2, False))"

fun from_utf8_lossy :: "string \<Rightarrow> string" where
  "from_utf8_lossy [] = []"
| "from_utf8_lossy (a # bs) =
    (case utf8_unit a bs of (n, ok) \<Rightarrow>
       (if ok then a # take n bs else REPLACEMENT) @ from_utf8_lossy (drop n bs))"

text \<open>Decoding the bytes of a string gives that string back, and decoding any bytes gives a string.\<close>
lemma utf8_unit_of_valid: "utf8_valid (a # bs) \<Longrightarrow> utf8_unit a bs = (utf8_width a - 1, True)"
  unfolding utf8_valid.simps(2)
  by (auto simp: utf8_unit_def utf8_width_def second_ok_def Let_def split: if_splits list.splits)

lemma from_utf8_lossy_valid: "utf8_valid s \<Longrightarrow> from_utf8_lossy s = s"
proof (induction s rule: chars.induct)
  case (2 a bs)
  from 2(2) have "utf8_valid (drop (utf8_width a - 1) bs)" using utf8_valid_head by blast
  with 2 show ?case by (simp add: utf8_unit_of_valid)
qed simp

lemma utf8_unit_valid:
  assumes "utf8_unit a bs = (n, True)"
  shows "utf8_valid (a # take n bs)"
  using assms
  by (auto simp: utf8_unit_def second_ok_def utf8_valid.simps Let_def numeral_eq_Suc split: if_splits list.splits)

lemma utf8_valid_replacement: "utf8_valid REPLACEMENT"
  by (simp add: REPLACEMENT_def utf8_valid.simps is_cont_def byte_def)

lemma from_utf8_lossy_is_str: "utf8_valid (from_utf8_lossy bs)"
proof (induction bs rule: from_utf8_lossy.induct)
  case (2 a bs)
  obtain n ok where u: "utf8_unit a bs = (n, ok)" by fastforce
  have "utf8_valid (if ok then a # take n bs else REPLACEMENT)"
    using u utf8_unit_valid [of a bs n] utf8_valid_replacement by (cases ok) auto
  with 2 u show ?case by (auto simp: utf8_valid_append simp flip: append_Cons)
qed simp

section \<open>\<open>str::lines\<close>\<close>

abbreviation LF :: char where "LF \<equiv> CHR 0x0A"
abbreviation CR :: char where "CR \<equiv> CHR 0x0D"

definition CRLF :: string where "CRLF = [CR, LF]"

text \<open>The pieces of a string, each ending after its line feed.\<close>
fun split_inclusive :: "string \<Rightarrow> string list" where
  "split_inclusive [] = []"
| "split_inclusive (c # cs) =
    (if c = LF then [c] # split_inclusive cs
     else case split_inclusive cs of [] \<Rightarrow> [[c]] | l # ls \<Rightarrow> (c # l) # ls)"

definition strip_eol :: "string \<Rightarrow> string" where
  "strip_eol l =
    (case strip_suffix l [LF] of
       None \<Rightarrow> l
     | Some l' \<Rightarrow> (case strip_suffix l' [CR] of None \<Rightarrow> l' | Some l'' \<Rightarrow> l''))"

definition lines :: "string \<Rightarrow> string list" where
  "lines s = map strip_eol (split_inclusive s)"

lemma concat_split_inclusive: "concat (split_inclusive s) = s"
  by (induction s) (auto split: list.split)

lemma split_inclusive_line: "LF \<notin> set l \<Longrightarrow> split_inclusive (l @ LF # rest) = (l @ [LF]) # split_inclusive rest"
  by (induction l) auto

lemma lines_CRLF: "LF \<notin> set l \<Longrightarrow> lines (l @ CRLF @ rest) = l # lines rest"
  using split_inclusive_line [of "l @ [CR]" rest]
  by (simp add: lines_def CRLF_def strip_eol_def strip_suffix_def suffix_def)

section \<open>\<open>str::split_whitespace\<close>\<close>

text \<open>The characters still to come and the word under construction.\<close>
fun split_whitespace_loop :: "rchar list \<Rightarrow> string \<Rightarrow> string list" where
  "split_whitespace_loop [] cur = (if cur = [] then [] else [cur])"
| "split_whitespace_loop (c # cs) cur =
    (if is_whitespace c
     then (if cur = [] then [] else [cur]) @ split_whitespace_loop cs []
     else split_whitespace_loop cs (cur @ c))"

definition split_whitespace :: "string \<Rightarrow> string list" where
  "split_whitespace s = split_whitespace_loop (chars s) []"

lemma split_whitespace_ne: "[] \<notin> set (split_whitespace s)"
proof -
  have "[] \<notin> set (split_whitespace_loop cs cur)" for cs cur
    by (induction cs cur rule: split_whitespace_loop.induct) auto
  then show ?thesis by (simp add: split_whitespace_def)
qed

section \<open>Searching a buffer\<close>

text \<open>\<open>windows(pat.len()).position(|w| w == pat)\<close> for a pattern that is not empty.\<close>
fun find_window :: "'a list \<Rightarrow> 'a list \<Rightarrow> nat option" where
  "find_window pat [] = None"
| "find_window pat (x # xs) =
    (if take (length pat) (x # xs) = pat then Some 0 else map_option Suc (find_window pat xs))"

lemma find_window_None: "pat \<noteq> [] \<Longrightarrow> find_window pat xs = None \<longleftrightarrow> \<not> sublist pat xs"
proof (induction xs)
  case (Cons x xs)
  then show ?case by (auto simp: sublist_Cons_right prefix_def take_is_prefix dest: sym)
    (metis append_eq_conv_conj)+
qed (simp add: sublist_def)

text \<open>The first occurrence is found: nothing before its end contains the pattern.\<close>
lemma find_window_first:
  assumes "pat \<noteq> []" "\<not> sublist pat (butlast (pre @ pat))"
  shows "find_window pat (pre @ pat @ post) = Some (length pre)"
  using assms(2)
proof (induction pre)
  case Nil
  then show ?case using assms(1) by (cases pat) auto
next
  case (Cons x pre)
  have ne: "take (length pat) (x # pre @ pat @ post) \<noteq> pat"
  proof
    assume t: "take (length pat) (x # pre @ pat @ post) = pat"
    have len: "length pat \<le> length (butlast (x # pre @ pat))" by simp
    have "take (length pat) (butlast (x # pre @ pat)) = take (length pat) (x # pre @ pat @ post)"
      using assms(1) by (simp add: take_butlast butlast_append take_Cons')
    with t have "prefix pat (butlast (x # pre @ pat))" by (metis take_is_prefix)
    with Cons.prems show False by (simp add: prefix_imp_sublist)
  qed
  have "\<not> sublist pat (butlast (pre @ pat))"
    using Cons.prems assms(1) by (auto simp: sublist_Cons_right)
  with Cons.IH ne show ?case by simp
qed

section \<open>Padding\<close>

text \<open>\<open>format!("{s:<n}")\<close> and \<open>format!("{s:>n}")\<close>; the width counts characters.\<close>
definition pad_right :: "nat \<Rightarrow> string \<Rightarrow> string" where
  "pad_right n s = s @ replicate (n - length (chars s)) CHR '' ''"

definition pad_left :: "nat \<Rightarrow> string \<Rightarrow> string" where
  "pad_left n s = replicate (n - length (chars s)) CHR '' '' @ s"

text \<open>\<open>[..].join(sep)\<close>\<close>
fun join :: "string \<Rightarrow> string list \<Rightarrow> string" where
  "join sep [] = []"
| "join sep [x] = x"
| "join sep (x # y # xs) = x @ sep @ join sep (y # xs)"

end
