(* ===== verification/Client.thy ===== *)
theory Client
  imports Api_Router Rust_Text
begin

text \<open>
  \<open>src/client.rs\<close> and \<open>src/dump.rs\<close>: the hand-written HTTP/1.1 client behind \<open>list\<close> and \<open>--dump\<close>, and the two
  commands.  What a connection yields is an input: \<open>exchange\<close> takes the state of the world, an address and
  the request text.  Parsing and pretty-printing JSON text is the JSON library's.
\<close>

section \<open>\<open>client.rs\<close>\<close>

text \<open>The outcome of connecting, writing the request and reading to the end of the stream; an error
  comes with its text.\<close>
datatype net_result = ConnectError string | WriteError string | ReadError string | Received "u8 list"

record 'w client_env =
  exchange :: "'w \<Rightarrow> string \<Rightarrow> string \<Rightarrow> 'w \<times> net_result"
  from_slice :: "u8 list \<Rightarrow> string + json"
  to_string_pretty :: "json \<Rightarrow> string + string"

definition request_text :: "string \<Rightarrow> string \<Rightarrow> string" where
  "request_text addr path =
    ''GET '' @ path @ '' HTTP/1.1'' @ CRLF @ ''Host: '' @ addr @ CRLF @ ''Connection: close'' @ CRLF @ CRLF"

definition get_json :: "'w client_env \<Rightarrow> 'w \<Rightarrow> string \<Rightarrow> string \<Rightarrow> 'w \<times> (string + json)" where
  "get_json env w addr path =
    (let (w', r) = exchange env w addr (request_text addr path)
     in (w', case r of
          ConnectError e \<Rightarrow>
            Inl (''no spanfall instance found at '' @ addr @ '' ('' @ e @ '') -- start one with `spanfall`'')
        | WriteError e \<Rightarrow> Inl (''write to '' @ addr @ '': '' @ e)
        | ReadError e \<Rightarrow> Inl (''read from '' @ addr @ '': '' @ e)
        | Received raw \<Rightarrow>
            (case find_window (bytes_of (CRLF @ CRLF)) raw of
               None \<Rightarrow> Inl (''malformed HTTP response from '' @ addr @ path)
             | Some split \<Rightarrow>
                 (let headers = from_utf8_lossy (text_of (take split raw));
                      status_line = (case lines headers of [] \<Rightarrow> [] | l # _ \<Rightarrow> l)
                  in if \<not> str_contains status_line '' 200 ''
                     then Inl (path @ '' returned `'' @ status_line @ ''`'')
                     else case from_slice env (drop (split + 4) raw) of
                       Inl e \<Rightarrow> Inl (''parsing response from '' @ path @ '': '' @ e)
                     | Inr v \<Rightarrow> Inr v))))"

section \<open>\<open>dump.rs\<close>\<close>

text \<open>\<open>dump::traces\<close>\<close>
definition dump_traces :: "'w client_env \<Rightarrow> 'w \<Rightarrow> string \<Rightarrow> 'w \<times> (string + json list)" where
  "dump_traces env w addr =
    (case get_json env w addr ''/api/traces'' of
       (w', Inl e) \<Rightarrow> (w', Inl e)
     | (w', Inr doc) \<Rightarrow>
         (w', case as_array doc of Some rows \<Rightarrow> Inr rows | None \<Rightarrow> Inl ''unexpected /api/traces response shape''))"

definition fetch_list :: "'w client_env \<Rightarrow> 'w \<Rightarrow> string \<Rightarrow> 'w \<times> (string + json list)" where
  "fetch_list env w addr = dump_traces env w addr"

text \<open>One row of the table \<open>print_list\<close> prints.\<close>
definition list_row :: "json \<Rightarrow> string" where
  "list_row row =
    (let trace_id = (case as_str (field row ''trace_id'') of Some s \<Rightarrow> s | None \<Rightarrow> ''?'');
         span_count = (case as_u64 (field row ''span_count'') of Some n \<Rightarrow> n | None \<Rightarrow> 0);
         duration = (case as_u64 (field row ''duration_nanos'') of Some d \<Rightarrow> nat_to_string d | None \<Rightarrow> ''-'');
         services = (case as_array (field row ''services'') of Some a \<Rightarrow> List.map_filter as_str a | None \<Rightarrow> [])
     in pad_right 34 trace_id @ '' '' @ pad_left 6 (nat_to_string span_count) @ '' '' @ pad_left 14 duration
        @ ''  '' @ join '','' services)"

text \<open>The lines printed and the result.\<close>
definition print_list :: "'w client_env \<Rightarrow> 'w \<Rightarrow> string \<Rightarrow> 'w \<times> string list \<times> (string + unit)" where
  "print_list env w addr =
    (case fetch_list env w addr of
       (w', Inl e) \<Rightarrow> (w', [], Inl e)
     | (w', Inr rows) \<Rightarrow>
         (w', if rows = [] then [''no resident traces'']
              else (pad_right 34 ''TRACE ID'' @ '' '' @ pad_left 6 ''SPANS'' @ '' '' @ pad_left 14 ''DURATION(ns)''
                    @ ''  SERVICES'') # map list_row rows,
          Inr ()))"

text \<open>The loop of \<open>fetch_dump\<close>.\<close>
fun fetch_rows :: "'w client_env \<Rightarrow> 'w \<Rightarrow> string \<Rightarrow> json list \<Rightarrow> 'w \<times> (string + json list)" where
  "fetch_rows env w addr [] = (w, Inr [])"
| "fetch_rows env w addr (row # rows) =
    (case as_str (field row ''trace_id'') of
       None \<Rightarrow> (w, Inl ''unexpected /api/traces response shape'')
     | Some trace_id \<Rightarrow>
         (case get_json env w addr (''/api/traces/'' @ trace_id) of
            (w', Inl e) \<Rightarrow> (w', Inl e)
          | (w', Inr t) \<Rightarrow>
              (case fetch_rows env w' addr rows of
                 (w'', Inl e) \<Rightarrow> (w'', Inl e)
               | (w'', Inr full_traces) \<Rightarrow> (w'', Inr (t # full_traces)))))"

definition fetch_dump :: "'w client_env \<Rightarrow> 'w \<Rightarrow> string \<Rightarrow> 'w \<times> (string + json)" where
  "fetch_dump env w addr =
    (case dump_traces env w addr of
       (w1, Inl e) \<Rightarrow> (w1, Inl e)
     | (w1, Inr rows) \<Rightarrow>
         (case fetch_rows env w1 addr rows of
            (w2, Inl e) \<Rightarrow> (w2, Inl e)
          | (w2, Inr full_traces) \<Rightarrow>
              (case get_json env w2 addr ''/api/receiver'' of
                 (w3, Inl e) \<Rightarrow> (w3, Inl e)
               | (w3, Inr rcv) \<Rightarrow> (w3, Inr (JObj [(''receiver'', rcv), (''traces'', JArr full_traces)])))))"

definition print_dump :: "'w client_env \<Rightarrow> 'w \<Rightarrow> string \<Rightarrow> 'w \<times> string list \<times> (string + unit)" where
  "print_dump env w addr =
    (case fetch_dump env w addr of
       (w', Inl e) \<Rightarrow> (w', [], Inl e)
     | (w', Inr dump) \<Rightarrow>
         (case to_string_pretty env dump of
            Inl e \<Rightarrow> (w', [], Inl e)
          | Inr text \<Rightarrow> (w', [text], Inr ())))"

section \<open>A running instance at the other end\<close>

text \<open>The libraries between the handlers and the client: the route matcher, the JSON printer and parser, and
  the reason phrases and header lines of the HTTP implementation.\<close>
record web =
  find_route :: "string list \<Rightarrow> string \<Rightarrow> (string \<times> string list) option"
  path_error :: "string \<Rightarrow> string"
  to_vec :: "json \<Rightarrow> u8 list"
  parse :: "u8 list \<Rightarrow> string + json"
  reason_phrase :: "nat \<Rightarrow> string"
  header_lines :: "nat \<Rightarrow> u8 list \<Rightarrow> string"

definition status_text :: "web \<Rightarrow> nat \<Rightarrow> string" where
  "status_text web code = ''HTTP/1.1 '' @ nat_to_string code @ '' '' @ reason_phrase web code"

definition response_head :: "web \<Rightarrow> nat \<Rightarrow> u8 list \<Rightarrow> string" where
  "response_head web code content = status_text web code @ CRLF @ header_lines web code content"

definition http_text :: "web \<Rightarrow> nat \<Rightarrow> u8 list \<Rightarrow> u8 list" where
  "http_text web code content = bytes_of (response_head web code content @ CRLF @ CRLF) @ content"

fun body_bytes :: "web \<Rightarrow> api_body \<Rightarrow> u8 list" where
  "body_bytes web (JsonBody v) = to_vec web v"
| "body_bytes web (TextBody s) = bytes_of s"
| "body_bytes web EmptyBody = []"
| "body_bytes web (EventStream evs) = bytes_of (concat (map (\<lambda>d. ''data: '' @ d @ [LF, LF]) evs))"

text \<open>The bytes on the connection: nothing at all when the handler panicked.\<close>
definition served :: "web \<Rightarrow> hash_order \<Rightarrow> api_state \<Rightarrow> string \<Rightarrow> u8 list" where
  "served web ord st path =
    (case router (find_route web) (path_error web) ord st GET path Map.empty of
       None \<Rightarrow> []
     | Some (code, b) \<Rightarrow> http_text web code (body_bytes web b))"

text \<open>Their documented behaviour: routes match; parsing the text of a document without floats gives the
  document back with its objects sorted; a reason phrase consists of letters and spaces; the header
  lines are ASCII and the head of a response holds no empty line.\<close>
definition web_ok :: "web \<Rightarrow> bool" where
  "web_ok web \<longleftrightarrow>
     matches_routes (find_route web)
     \<and> (\<forall>v. exact v \<longrightarrow> parse web (to_vec web v) = Inr (canon v))
     \<and> (\<forall>code. \<forall>c \<in> set (reason_phrase web code). is_ascii_alphabetic c \<or> c = CHR '' '')
     \<and> (\<forall>code content. (\<forall>c \<in> set (header_lines web code content). byte c < 0x80)
          \<and> \<not> sublist (CRLF @ CRLF) (butlast (response_head web code content @ CRLF @ CRLF)))"

text \<open>The world of the client, as the number of requests made so far: the \<open>k\<close>-th request is answered
  from the state \<open>view k\<close> the instance has by then.\<close>
definition instance_at :: "web \<Rightarrow> string \<Rightarrow> (nat \<Rightarrow> hash_order) \<Rightarrow> (nat \<Rightarrow> api_state) \<Rightarrow> nat client_env \<Rightarrow> bool" where
  "instance_at web addr ord view env \<longleftrightarrow>
     from_slice env = parse web
     \<and> (\<forall>k path. CHR '' '' \<notin> set path \<longrightarrow>
          exchange env k addr (request_text addr path) = (Suc k, Received (served web (ord k) (view k) path)))"

section \<open>Reading a response\<close>

lemma nat_to_string_codes: "nat_to_string 200 = ''200''" "nat_to_string 400 = ''400''" "nat_to_string 404 = ''404''"
  by (simp_all add: nat_to_string.simps char_of_def bit_0)

lemma web_okD:
  assumes "web_ok web"
  shows "matches_routes (find_route web)" "exact v \<Longrightarrow> parse web (to_vec web v) = Inr (canon v)"
    and "c \<in> set (reason_phrase web code) \<Longrightarrow> is_ascii_alphabetic c \<or> c = CHR '' ''"
    and "c \<in> set (header_lines web code content) \<Longrightarrow> byte c < 0x80"
    and "\<not> sublist (CRLF @ CRLF) (butlast (response_head web code content @ CRLF @ CRLF))"
  using assms unfolding web_ok_def by blast+

lemma status_text_ascii:
  assumes "web_ok web" "code \<in> {200, 400, 404}"
  shows "\<forall>c \<in> set (status_text web code). byte c < 0x80 \<and> c \<noteq> LF"
proof -
  have "byte c < 0x80 \<and> c \<noteq> LF" if "c \<in> set (reason_phrase web code)" for c
    using web_okD(3) [OF assms(1) that] by (auto simp: is_ascii_alphabetic_def byte_def)
  with assms(2) show ?thesis by (auto simp: status_text_def nat_to_string_codes byte_def)
qed

lemma status_text_contains_200:
  assumes "web_ok web" "code \<in> {200, 400, 404}"
  shows "str_contains (status_text web code) '' 200 '' \<longleftrightarrow> code = 200"
proof -
  let ?ds = "filter is_ascii_digit"
  have r: "?ds (reason_phrase web code) = []"
    using web_okD(3) [OF assms(1)] by (fastforce simp: filter_empty_conv is_ascii_digit_def is_ascii_alphabetic_def byte_def)
  have "sublist (?ds '' 200 '') (?ds (status_text web code))" if "sublist '' 200 '' (status_text web code)"
    using that unfolding sublist_def by (metis filter_append)
  moreover have "\<not> sublist ''200'' ''11400''" "\<not> sublist ''200'' ''11404''" by (simp_all add: sublist_Cons_right)
  moreover have "?ds '' 200 '' = ''200''" by (simp add: is_ascii_digit_def byte_def)
  moreover have "?ds (status_text web 400) = ''11400''" if "code = 400"
    using r that by (simp add: status_text_def nat_to_string_codes is_ascii_digit_def byte_def)
  moreover have "?ds (status_text web 404) = ''11404''" if "code = 404"
    using r that by (simp add: status_text_def nat_to_string_codes is_ascii_digit_def byte_def)
  moreover have "sublist '' 200 '' (status_text web 200)"
    unfolding status_text_def sublist_def nat_to_string_codes
    by (intro exI [of _ "''HTTP/1.1''"] exI [of _ "reason_phrase web 200"]) simp
  ultimately show ?thesis using assms(2) by (auto simp: str_contains_def)
qed

text \<open>The client splits a response where the server did.\<close>
lemma http_text_split:
  assumes "web_ok web"
  shows "find_window (bytes_of (CRLF @ CRLF)) (http_text web code content)
    = Some (length (bytes_of (response_head web code content)))"
proof -
  let ?h = "response_head web code content"
  have "\<not> sublist (bytes_of (CRLF @ CRLF)) (butlast (bytes_of ?h @ bytes_of (CRLF @ CRLF)))"
  proof
    assume "sublist (bytes_of (CRLF @ CRLF)) (butlast (bytes_of ?h @ bytes_of (CRLF @ CRLF)))"
    then have "sublist (bytes_of (CRLF @ CRLF)) (butlast (bytes_of (?h @ CRLF @ CRLF)))" by simp
    then have "sublist (text_of (bytes_of (CRLF @ CRLF))) (text_of (butlast (bytes_of (?h @ CRLF @ CRLF))))"
      unfolding text_of_def by (rule map_mono_sublist)
    moreover have "text_of (butlast (bytes_of (?h @ CRLF @ CRLF))) = butlast (?h @ CRLF @ CRLF)"
      by (metis map_butlast text_of_bytes_of text_of_def)
    ultimately have "sublist (CRLF @ CRLF) (butlast (?h @ CRLF @ CRLF))" by (simp only: text_of_bytes_of)
    with web_okD(5) [OF assms] show False by blast
  qed
  then show ?thesis
    using find_window_first [of "bytes_of (CRLF @ CRLF)" "bytes_of ?h" content]
    by (simp add: http_text_def CRLF_def) (simp add: bytes_of_def)
qed

lemma response_status_line:
  assumes "web_ok web" "code \<in> {200, 400, 404}"
  shows "\<exists>rest. lines (from_utf8_lossy (response_head web code content)) = status_text web code # rest"
proof -
  have "\<forall>c \<in> set (response_head web code content). byte c < 0x80"
    using status_text_ascii [OF assms] web_okD(4) [OF assms(1)]
    by (auto simp: response_head_def CRLF_def byte_def)
  then have "from_utf8_lossy (response_head web code content) = response_head web code content"
    by (intro from_utf8_lossy_valid utf8_valid_ascii) blast
  moreover have "LF \<notin> set (status_text web code)" using status_text_ascii [OF assms] by blast
  ultimately show ?thesis by (simp add: response_head_def lines_CRLF)
qed

text \<open>What \<open>get_json\<close> makes of a response: the document of a 200, an error that quotes any other status.\<close>
lemma get_json_instance:
  assumes web: "web_ok web" and at: "instance_at web addr ord view env" and path: "CHR '' '' \<notin> set path"
    and r: "router (find_route web) (path_error web) (ord k) (view k) GET path Map.empty = Some (code, b)"
    and code: "code \<in> {200, 400, 404}"
  shows "get_json env k addr path = (Suc k,
    if code \<noteq> 200 then Inl (path @ '' returned `'' @ status_text web code @ ''`'')
    else case parse web (body_bytes web b) of
      Inl e \<Rightarrow> Inl (''parsing response from '' @ path @ '': '' @ e) | Inr v \<Rightarrow> Inr v)"
proof -
  let ?h = "response_head web code (body_bytes web b)"
  have x: "exchange env k addr (request_text addr path) = (Suc k, Received (http_text web code (body_bytes web b)))"
    "from_slice env = parse web"
    using at path r by (simp_all add: instance_at_def served_def)
  have tk: "take (length (bytes_of ?h)) (http_text web code (body_bytes web b)) = bytes_of ?h"
    "drop (length (bytes_of ?h) + 4) (http_text web code (body_bytes web b)) = body_bytes web b"
    by (simp_all add: http_text_def CRLF_def bytes_of_def)
  from response_status_line [OF web code] obtain rest where "lines (from_utf8_lossy ?h) = status_text web code # rest" by blast
  then show ?thesis
    unfolding get_json_def
    by (simp only: x prod.case Let_def net_result.simps http_text_split [OF web] option.simps tk text_of_bytes_of
        list.simps status_text_contains_200 [OF web code])
qed

section \<open>The rows of the list\<close>

lemma list_traces_in_order:
  assumes "iterates ord" "store_inv n s"
  obtains out where "list_traces ord s = Some out" "length out = length (traces ord s)"
    "\<forall>k < length out. ts_trace_id (out ! k) = to_hex (fst (traces ord s ! k))"
proof -
  from list_traces_summaries [OF assms] obtain out where out: "list_traces ord s = Some out" by blast
  then have m: "mapO (summarize s) (traces ord s) = Some out" by (simp add: list_traces_def)
  have "ts_trace_id (out ! k) = to_hex (fst (traces ord s ! k))" if "k < length out" for k
    using mapO_nth [OF m, of k] that mapO_length [OF m]
    by (auto simp: summarize_def split: Option.bind_splits dest!: sym [of _ "out ! k"])
  then show thesis using out mapO_length [OF m] by (intro that [of out]) simp_all
qed

lemma row_trace_id: "as_str (field (canon (json_of_summary x)) ''trace_id'') = Some (ts_trace_id x)"
  unfolding json_of_summary_def by (subst field_canon [where v = "JStr (ts_trace_id x)"]) simp_all

lemma no_space_to_hex: "trace_id_wf tid \<Longrightarrow> CHR '' '' \<notin> set (''/api/traces/'' @ to_hex tid)"
  using is_plain_to_hex [of tid] by (fastforce simp: is_plain_def is_ascii_alphabetic_def is_ascii_digit_def byte_def)

section \<open>Dumping an instance\<close>

text \<open>What is known of the instance at every request: the store's invariant, traces small enough for
  their string tables, identifiers of 16 bytes.\<close>
definition sound_view :: "nat \<Rightarrow> api_state \<Rightarrow> bool" where
  "sound_view n st \<longleftrightarrow> store_inv n (as_store st)
     \<and> (\<forall>tid t. trace (as_store st) tid = Some t \<longrightarrow> 3 * span_count t \<le> 2 ^ 32 \<and> trace_id_wf tid)"

lemma dump_list:
  assumes web: "web_ok web" and at: "instance_at web addr ord view env" and it: "iterates (ord k)"
    and inv: "sound_view n (view k)"
  obtains rows where "dump_traces env k addr = (Suc k, Inr rows)"
    "map (\<lambda>row. as_str (field row ''trace_id'')) rows
      = map (\<lambda>e. Some (to_hex (fst e))) (traces (ord k) (as_store (view k)))"
proof -
  from inv have "store_inv n (as_store (view k))" by (simp add: sound_view_def)
  from list_traces_in_order [OF it this] obtain out where out: "list_traces (ord k) (as_store (view k)) = Some out"
    "length out = length (traces (ord k) (as_store (view k)))"
    "\<forall>i < length out. ts_trace_id (out ! i) = to_hex (fst (traces (ord k) (as_store (view k)) ! i))" by blast
  have r: "router (find_route web) (path_error web) (ord k) (view k) GET ''/api/traces'' Map.empty
      = Some (200, JsonBody (json_vec json_of_summary out))"
    by (simp add: router_get [OF web_okD(1) [OF web]] out(1))
  have "get_json env k addr ''/api/traces'' = (Suc k, Inr (json_vec (canon \<circ> json_of_summary) out))"
    using get_json_instance [OF web at _ r] web_okD(2) [OF web, of "json_vec json_of_summary out"] by simp
  then have "dump_traces env k addr = (Suc k, Inr (map (canon \<circ> json_of_summary) out))"
    by (simp add: dump_traces_def json_vec_def)
  moreover have "map (\<lambda>row. as_str (field row ''trace_id'')) (map (canon \<circ> json_of_summary) out)
      = map (\<lambda>e. Some (to_hex (fst e))) (traces (ord k) (as_store (view k)))"
    using out(2,3) by (intro nth_equalityI) (simp_all add: row_trace_id)
  ultimately show thesis by (rule that)
qed

lemma get_json_trace:
  assumes web: "web_ok web" and at: "instance_at web addr ord view env" and inv: "sound_view n (view k)"
    and wf: "trace_id_wf tid"
  shows "trace (as_store (view k)) tid \<noteq> None \<Longrightarrow>
      \<exists>p. get_trace (as_store (view k)) (to_hex tid) = Some (ApiOk p)
        \<and> get_json env k addr (''/api/traces/'' @ to_hex tid) = (Suc k, Inr (canon (json_of_payload p)))"
    and "trace (as_store (view k)) tid = None \<Longrightarrow>
      get_json env k addr (''/api/traces/'' @ to_hex tid) = (Suc k,
        Inl (''/api/traces/'' @ to_hex tid @ '' returned `'' @ status_text web 404 @ ''`''))"
proof -
  have route: "router (find_route web) (path_error web) (ord k) (view k) GET (''/api/traces/'' @ to_hex tid) Map.empty
      = map_option (into_response json_of_payload) (get_trace (as_store (view k)) (to_hex tid))"
    using router_get(3) [OF web_okD(1) [OF web] is_plain_to_hex [OF wf]] .
  {
    assume "trace (as_store (view k)) tid \<noteq> None"
    then obtain t where t: "trace (as_store (view k)) tid = Some t" by blast
    with inv have "store_inv n (as_store (view k))" "3 * span_count t \<le> 2 ^ 32" by (auto simp: sound_view_def)
    from get_trace_resident [OF this(1) from_hex_to_hex [OF wf] t this(2)] obtain p where
      p: "get_trace (as_store (view k)) (to_hex tid) = Some (ApiOk p)" by blast
    have r: "router (find_route web) (path_error web) (ord k) (view k) GET (''/api/traces/'' @ to_hex tid) Map.empty
        = Some (200, JsonBody (json_of_payload p))" unfolding route by (simp add: p into_response_def)
    show "\<exists>p. get_trace (as_store (view k)) (to_hex tid) = Some (ApiOk p)
        \<and> get_json env k addr (''/api/traces/'' @ to_hex tid) = (Suc k, Inr (canon (json_of_payload p)))"
      using p get_json_instance [OF web at no_space_to_hex [OF wf] r] web_okD(2) [OF web, of "json_of_payload p"]
      by (intro exI [of _ p]) simp
  next
    assume t: "trace (as_store (view k)) tid = None"
    have r: "router (find_route web) (path_error web) (ord k) (view k) GET (''/api/traces/'' @ to_hex tid) Map.empty
        = Some (404, EmptyBody)"
      unfolding route by (simp add: trace_get.missing [OF from_hex_to_hex [OF wf] t] into_response_def)
    show "get_json env k addr (''/api/traces/'' @ to_hex tid) = (Suc k,
        Inl (''/api/traces/'' @ to_hex tid @ '' returned `'' @ status_text web 404 @ ''`''))"
      using get_json_instance [OF web at no_space_to_hex [OF wf] r] by simp
  }
qed

text \<open>The loop, started at request \<open>k\<close>, on the rows of the traces \<open>tids\<close>: all still there, or one gone.\<close>
lemma fetch_rows_resident:
  assumes web: "web_ok web" and at: "instance_at web addr ord view env" and inv: "\<And>k. sound_view n (view k)"
  shows "map (\<lambda>row. as_str (field row ''trace_id'')) rows = map (Some \<circ> to_hex) tids \<Longrightarrow> \<forall>tid \<in> set tids. trace_id_wf tid \<Longrightarrow>
    \<forall>i < length tids. trace (as_store (view (k + i))) (tids ! i) \<noteq> None \<Longrightarrow>
    \<exists>ps. length ps = length tids
      \<and> (\<forall>i < length tids. get_trace (as_store (view (k + i))) (to_hex (tids ! i)) = Some (ApiOk (ps ! i)))
      \<and> fetch_rows env k addr rows = (k + length tids, Inr (map (canon \<circ> json_of_payload) ps))"
proof (induction tids arbitrary: k rows)
  case (Cons tid tids)
  then obtain row rows' where rows: "rows = row # rows'" by (cases rows) auto
  from Cons.prems(3) have "trace (as_store (view k)) tid \<noteq> None" by (auto dest: spec [of _ 0])
  from get_json_trace(1) [OF web at inv _ this] Cons.prems(2) obtain p where
    p: "get_trace (as_store (view k)) (to_hex tid) = Some (ApiOk p)"
      "get_json env k addr (''/api/traces/'' @ to_hex tid) = (Suc k, Inr (canon (json_of_payload p)))" by auto
  have "trace (as_store (view (Suc k + i))) (tids ! i) \<noteq> None" if "i < length tids" for i
    using spec [OF Cons.prems(3), of "Suc i"] that by simp
  with Cons.IH [of rows' "Suc k"] Cons.prems(1,2) rows obtain ps where
    ps: "length ps = length tids"
      "\<forall>i < length tids. get_trace (as_store (view (Suc k + i))) (to_hex (tids ! i)) = Some (ApiOk (ps ! i))"
      "fetch_rows env (Suc k) addr rows' = (Suc k + length tids, Inr (map (canon \<circ> json_of_payload) ps))" by auto
  have "get_trace (as_store (view (k + i))) (to_hex ((tid # tids) ! i)) = Some (ApiOk ((p # ps) ! i))"
    if "i < length (tid # tids)" for i using that p(1) ps(2) by (cases i) auto
  moreover have "fetch_rows env k addr rows = (k + length (tid # tids), Inr (map (canon \<circ> json_of_payload) (p # ps)))"
    using Cons.prems(1) by (simp add: rows p(2) [simplified] ps(3))
  ultimately show ?case using ps(1) by (intro exI [of _ "p # ps"]) simp
qed simp

lemma fetch_rows_vanished:
  assumes web: "web_ok web" and at: "instance_at web addr ord view env" and inv: "\<And>k. sound_view n (view k)"
  shows "map (\<lambda>row. as_str (field row ''trace_id'')) rows = map (Some \<circ> to_hex) tids \<Longrightarrow> \<forall>tid \<in> set tids. trace_id_wf tid \<Longrightarrow>
    j < length tids \<Longrightarrow> trace (as_store (view (k + j))) (tids ! j) = None \<Longrightarrow>
    \<forall>i < j. trace (as_store (view (k + i))) (tids ! i) \<noteq> None \<Longrightarrow>
    fetch_rows env k addr rows = (k + Suc j,
      Inl (''/api/traces/'' @ to_hex (tids ! j) @ '' returned `'' @ status_text web 404 @ ''`''))"
proof (induction tids arbitrary: j k rows)
  case (Cons tid tids)
  then obtain row rows' where rows: "rows = row # rows'" by (cases rows) auto
  show ?case
  proof (cases j)
    case 0
    with Cons.prems have "trace (as_store (view k)) tid = None" by simp
    from get_json_trace(2) [OF web at inv _ this] Cons.prems(1,2) 0 show ?thesis by (simp add: rows)
  next
    case (Suc i)
    then have "trace (as_store (view k)) tid \<noteq> None" using Cons.prems(5) by (auto dest: spec [of _ 0])
    from get_json_trace(1) [OF web at inv _ this] Cons.prems(2) obtain p where
      p: "get_json env k addr (''/api/traces/'' @ to_hex tid) = (Suc k, Inr (canon (json_of_payload p)))" by auto
    have "trace (as_store (view (Suc k + l))) (tids ! l) \<noteq> None" if "l < i" for l
      using spec [OF Cons.prems(5), of "Suc l"] that Suc by simp
    with Cons.IH [of rows' i "Suc k"] Cons.prems(1,2,3,4) rows Suc have
      "fetch_rows env (Suc k) addr rows' = (Suc k + Suc i,
        Inl (''/api/traces/'' @ to_hex (tids ! i) @ '' returned `'' @ status_text web 404 @ ''`''))" by simp
    with Cons.prems(1) p [simplified] Suc show ?thesis by (simp add: rows)
  qed
qed simp

lemma listed_ids_wf:
  assumes "iterates ord" "sound_view n st"
  shows "\<forall>e \<in> set (traces ord (as_store st)). trace_id_wf (fst e)"
proof
  fix e assume "e \<in> set (traces ord (as_store st))"
  then have "trace (as_store st) (fst e) = Some (snd e)"
    using iterates_set [OF assms(1)] store_invD(1) [of n "as_store st"] assms(2)
    by (simp add: traces_def trace_def sound_view_def)
  with assms(2) show "trace_id_wf (fst e)" by (auto simp: sound_view_def)
qed

lemma dump_receiver:
  assumes web: "web_ok web" and at: "instance_at web addr ord view env"
  shows "get_json env k addr ''/api/receiver''
    = (Suc k, Inr (canon (json_of_receiver (get_receiver (as_store (view k)) (as_receiver (view k))))))"
  using get_json_instance [OF web at _ router_get(2) [OF web_okD(1) [OF web]]]
    web_okD(2) [OF web exact_responses(4)] by simp

text \<open>
  A dump is complete.  Against a running instance on which the writer keeps applying batches between
  the requests, if every trace listed is still resident when its turn comes, \<open>fetch_dump\<close> returns a
  document with exactly one entry per listed trace, in the order of the list, each the payload the
  trace has when it is asked for, and the receiver's state after the last of them; it makes two
  requests more than there are traces.  So the client's splitting of responses, its check of the
  status line and the routes of the API fit together.
\<close>
lemma fetch_dump_complete:
  assumes "web_ok web" "instance_at web addr ord view env" "iterates (ord 0)" "\<And>k. sound_view n (view k)"
    and "es = traces (ord 0) (as_store (view 0))"
    and "\<forall>k < length es. trace (as_store (view (Suc k))) (fst (es ! k)) \<noteq> None"
  shows "\<exists>ps. length ps = length es
    \<and> (\<forall>k < length es. get_trace (as_store (view (Suc k))) (to_hex (fst (es ! k))) = Some (ApiOk (ps ! k)))
    \<and> fetch_dump env 0 addr = (length es + 2, Inr (JObj
        [(''receiver'', canon (json_of_receiver
            (get_receiver (as_store (view (Suc (length es)))) (as_receiver (view (Suc (length es))))))),
         (''traces'', JArr (map (canon \<circ> json_of_payload) ps))]))"
proof -
  from dump_list [OF assms(1,2,3,4)] obtain rows where rows: "dump_traces env 0 addr = (Suc 0, Inr rows)"
    "map (\<lambda>row. as_str (field row ''trace_id'')) rows = map (Some \<circ> to_hex) (map fst es)"
    by (auto simp: assms(5) comp_def)
  have wf: "\<forall>tid \<in> set (map fst es). trace_id_wf tid" using listed_ids_wf [OF assms(3) assms(4) [of 0]] assms(5) by simp
  from fetch_rows_resident [OF assms(1,2,4) rows(2) wf, of "Suc 0"] assms(6) obtain ps where
    ps: "length ps = length es"
      "\<forall>i < length es. get_trace (as_store (view (Suc i))) (to_hex (fst (es ! i))) = Some (ApiOk (ps ! i))"
      "fetch_rows env (Suc 0) addr rows = (Suc (length es), Inr (map (canon \<circ> json_of_payload) ps))" by auto
  from dump_receiver [OF assms(1,2), of "Suc (length es)"] ps show ?thesis
    by (intro exI [of _ ps]) (simp add: fetch_dump_def rows(1))
qed

text \<open>
  A dump races with eviction.  If a listed trace has been evicted by the time its turn comes, \<open>fetch_dump\<close>
  stops there with an error that quotes the 404, and none of the traces already fetched is reported.
\<close>
lemma fetch_dump_aborts:
  assumes "web_ok web" "instance_at web addr ord view env" "iterates (ord 0)" "\<And>k. sound_view n (view k)"
    and "es = traces (ord 0) (as_store (view 0))" "j < length es"
    and "\<forall>k < j. trace (as_store (view (Suc k))) (fst (es ! k)) \<noteq> None"
    and "trace (as_store (view (Suc j))) (fst (es ! j)) = None"
  shows "fetch_dump env 0 addr = (Suc (Suc j),
    Inl (''/api/traces/'' @ to_hex (fst (es ! j)) @ '' returned `'' @ status_text web 404 @ ''`''))"
proof -
  from dump_list [OF assms(1,2,3,4)] obtain rows where rows: "dump_traces env 0 addr = (Suc 0, Inr rows)"
    "map (\<lambda>row. as_str (field row ''trace_id'')) rows = map (Some \<circ> to_hex) (map fst es)"
    by (auto simp: assms(5) comp_def)
  have wf: "\<forall>tid \<in> set (map fst es). trace_id_wf tid" using listed_ids_wf [OF assms(3) assms(4) [of 0]] assms(5) by simp
  from fetch_rows_vanished [OF assms(1,2,4) rows(2) wf, of j "Suc 0"] assms(6,7,8) show ?thesis
    by (simp add: fetch_dump_def rows(1))
qed

end
