(* ===== verification/Command_Line.thy ===== *)
theory Command_Line
  imports Server Client
begin

text \<open>
  \<open>src/cli.rs\<close>, \<open>src/main.rs\<close> and \<open>src/port_conflict.rs\<close>: the options, what the process does with them, and the
  start of the server.  The operating system's answers (binding a port, running \<open>lsof\<close>, the client's
  connections) are inputs, collected in a machine.  Both names Cargo provides are \<open>spanfall\<close>.
\<close>

section \<open>\<open>port_conflict.rs\<close>\<close>

record process_output =
  po_success :: bool
  po_stdout :: "u8 list"

definition lsof_args :: "nat \<Rightarrow> string list" where
  "lsof_args port = [''-nP'', ''-iTCP:'' @ nat_to_string port, ''-sTCP:LISTEN'']"

text \<open>\<open>lsof\<close> runs the command with the given arguments, \<open>None\<close> when it cannot be run.\<close>
definition describe_holder :: "(string list \<Rightarrow> process_output option) \<Rightarrow> nat \<Rightarrow> string option" where
  "describe_holder lsof port =
    do { output \<leftarrow> lsof (lsof_args port);
         if \<not> po_success output then None
         else case lines (from_utf8_lossy (text_of (po_stdout output))) of
           _ # line # _ \<Rightarrow>
             (case split_whitespace line of
                cmd # pid # _ \<Rightarrow> Some (cmd @ '' (pid '' @ pid @ '')'')
              | _ \<Rightarrow> None)
         | _ \<Rightarrow> None }"

text \<open>The first row after the header is the one reported, when it has a command and a pid.\<close>
lemma describe_holder_first_row:
  assumes "lsof (lsof_args port) = Some \<lparr>po_success = True, po_stdout = bytes_of (header @ [LF] @ row @ [LF] @ others)\<rparr>"
    and "utf8_valid (header @ [LF] @ row @ [LF] @ others)" "LF \<notin> set header" "LF \<notin> set row"
    and "split_whitespace (strip_eol (row @ [LF])) = cmd # pid # rest"
  shows "describe_holder lsof port = Some (cmd @ '' (pid '' @ pid @ '')'')"
  using assms split_inclusive_line [of header "row @ LF # others"] split_inclusive_line [of row others]
  by (simp add: describe_holder_def from_utf8_lossy_valid lines_def)

lemma describe_holder_none: "lsof (lsof_args port) = None \<Longrightarrow> describe_holder lsof port = None"
  by (simp add: describe_holder_def)

section \<open>\<open>cli.rs\<close>\<close>

datatype command = CmdList

record cli =
  cli_command :: "command option"
  cli_max_memory :: nat
  cli_ingest_timeout :: nat
  cli_dump :: bool
  cli_demo :: bool

text \<open>The options as given on the command line, with the declared defaults filled in.\<close>
definition cli_of :: "command option \<Rightarrow> nat option \<Rightarrow> nat option \<Rightarrow> bool \<Rightarrow> bool \<Rightarrow> cli" where
  "cli_of cmd max_memory timeout_secs dump demo =
    \<lparr>cli_command = cmd,
     cli_max_memory = (case max_memory of Some n \<Rightarrow> n | None \<Rightarrow> push_bit 30 1),
     cli_ingest_timeout = (case timeout_secs of Some n \<Rightarrow> n | None \<Rightarrow> 10),
     cli_dump = dump, cli_demo = demo\<rparr>"

section \<open>\<open>main.rs\<close>\<close>

definition GRPC_PORT :: nat where "GRPC_PORT = 4317"
definition HTTP_PORT :: nat where "HTTP_PORT = 4318"
definition API_PORT :: nat where "API_PORT = 5317"
definition API_ADDR :: string where "API_ADDR = ''127.0.0.1:5317''"

datatype bind_result = Bound | AddrInUse | BindError string

datatype status = ExitCode nat | Panicked | Serving server

text \<open>\<open>TcpListener::bind\<close> for each port, \<open>lsof\<close>, the iteration order of the hash map, and the client's connections.\<close>
record 'w machine =
  m_bind :: "nat \<Rightarrow> bind_result"
  m_lsof :: "string list \<Rightarrow> process_output option"
  m_ord :: hash_order
  m_client :: "'w client_env"

text \<open>What the process has printed and how it stands.\<close>
record outcome =
  o_stdout :: "string list"
  o_stderr :: "string list"
  o_status :: status

definition exit_on_err :: "string list \<times> (string + unit) \<Rightarrow> outcome" where
  "exit_on_err r =
    (case r of
       (out, Inl e) \<Rightarrow> \<lparr>o_stdout = out, o_stderr = [''spanfall: '' @ e], o_status = ExitCode 1\<rparr>
     | (out, Inr _) \<Rightarrow> \<lparr>o_stdout = out, o_stderr = [], o_status = ExitCode 0\<rparr>)"

text \<open>\<open>Inl\<close>: the process ends here.\<close>
definition bind_or_exit :: "'w machine \<Rightarrow> nat \<Rightarrow> outcome + unit" where
  "bind_or_exit m port =
    (case m_bind m port of
       Bound \<Rightarrow> Inr ()
     | AddrInUse \<Rightarrow>
         (let holder = (case describe_holder (m_lsof m) port of Some h \<Rightarrow> '' -- held by '' @ h | None \<Rightarrow> [])
          in Inl \<lparr>o_stdout = [],
                  o_stderr = [''spanfall: port '' @ nat_to_string port @ '' is already in use'' @ holder],
                  o_status = ExitCode 1\<rparr>)
     | BindError e \<Rightarrow>
         Inl \<lparr>o_stdout = [], o_stderr = [''bind 127.0.0.1:'' @ nat_to_string port @ '': '' @ e], o_status = Panicked\<rparr>)"

definition banner :: "bool \<Rightarrow> string list" where
  "banner seed_demo =
    [''Listening on http://localhost:5317'', ''OTLP gRPC: 4317   OTLP HTTP: 4318'']
    @ (if seed_demo then [''--demo: pre-seeded with a curated fake trace set''] else [])"

text \<open>\<open>run_server\<close> up to the point where it serves: the three listeners in order, then the banner, then the
  state.\<close>
definition run_server :: "'w machine \<Rightarrow> nat \<Rightarrow> nat \<Rightarrow> bool \<Rightarrow> outcome" where
  "run_server m max_memory_bytes ingest_timeout_secs seed_demo =
    (case bind_or_exit m GRPC_PORT of
       Inl end \<Rightarrow> end
     | Inr _ \<Rightarrow>
         (case bind_or_exit m HTTP_PORT of
            Inl end \<Rightarrow> end
          | Inr _ \<Rightarrow>
              (case bind_or_exit m API_PORT of
                 Inl end \<Rightarrow> end
               | Inr _ \<Rightarrow>
                   \<lparr>o_stdout = banner seed_demo, o_stderr = [],
                    o_status = (case build_server (m_ord m) max_memory_bytes ingest_timeout_secs seed_demo of
                                  Some y \<Rightarrow> Serving y | None \<Rightarrow> Panicked)\<rparr>)))"

text \<open>The \<open>select!\<close> that ends it: the first of the servers to stop, or ctrl-c; the lines printed to standard
  output and standard error.\<close>
datatype finished = GrpcDone "string option" | HttpDone "string option" | ApiDone "string option" | CtrlC

definition finish :: "finished \<Rightarrow> string list \<times> string list" where
  "finish f =
    (case f of
       GrpcDone err \<Rightarrow> ([], case err of Some e \<Rightarrow> [''gRPC server error: '' @ e] | None \<Rightarrow> [])
     | HttpDone err \<Rightarrow> ([], case err of Some e \<Rightarrow> [''HTTP server error: '' @ e] | None \<Rightarrow> [])
     | ApiDone err \<Rightarrow> ([], case err of Some e \<Rightarrow> [''API server error: '' @ e] | None \<Rightarrow> [])
     | CtrlC \<Rightarrow> ([''shutting down''], []))"

definition main :: "'w machine \<Rightarrow> 'w \<Rightarrow> cli \<Rightarrow> 'w \<times> outcome" where
  "main m w cli =
    (if cli_dump cli \<and> cli_command cli \<noteq> None
     then (w, \<lparr>o_stdout = [],
               o_stderr = [''spanfall: --dump does not take a subcommand (did you mean `spanfall list`?)''],
               o_status = ExitCode 2\<rparr>)
     else if cli_demo cli \<and> (cli_dump cli \<or> cli_command cli \<noteq> None)
     then (w, \<lparr>o_stdout = [],
               o_stderr = [''spanfall: --demo seeds a new server, it doesn'' @ [CHR 0x27]
                 @ ''t query one -- drop --dump/list''],
               o_status = ExitCode 2\<rparr>)
     else if cli_dump cli
     then apsnd exit_on_err (print_dump (m_client m) w API_ADDR)
     else if cli_command cli = Some CmdList
     then apsnd exit_on_err (print_list (m_client m) w API_ADDR)
     else (w, run_server m (cli_max_memory cli) (cli_ingest_timeout cli) (cli_demo cli)))"

section \<open>Properties\<close>

lemma build_server_total:
  assumes "iterates ord"
  shows "\<exists>y. build_server ord budget timeout demo = Some y"
  using seed_spec [OF assms, of budget] by (cases demo) (auto simp: build_server_def)

lemma print_result:
  "snd (snd (print_dump env w addr)) = Inr () \<Longrightarrow> snd (fetch_dump env w addr) \<noteq> Inl e"
  "snd (snd (print_list env w addr)) = Inr () \<Longrightarrow> snd (fetch_list env w addr) \<noteq> Inl e"
  by (auto simp: print_dump_def print_list_def split: prod.splits sum.splits)

text \<open>An error of a command: nothing is printed to standard output.\<close>
lemma print_error:
  "snd (snd (print_dump env w addr)) = Inl e \<Longrightarrow> fst (snd (print_dump env w addr)) = []"
  "snd (snd (print_list env w addr)) = Inl e \<Longrightarrow> fst (snd (print_list env w addr)) = []"
  by (auto simp: print_dump_def print_list_def split: prod.splits sum.splits)

definition all_bound :: "'w machine \<Rightarrow> bool" where
  "all_bound m \<longleftrightarrow> (\<forall>port \<in> {GRPC_PORT, HTTP_PORT, API_PORT}. m_bind m port = Bound)"

definition conflicting :: "cli \<Rightarrow> bool" where
  "conflicting cli \<longleftrightarrow> cli_dump cli \<and> cli_command cli \<noteq> None \<or> cli_demo cli \<and> (cli_dump cli \<or> cli_command cli \<noteq> None)"

text \<open>The message of a process that could not bind the given port.\<close>
definition bind_failed :: "'w machine \<Rightarrow> outcome \<Rightarrow> nat \<Rightarrow> bool" where
  "bind_failed m out port \<longleftrightarrow>
     m_bind m port = AddrInUse \<and> o_status out = ExitCode 1
       \<and> starts_with (hd (o_stderr out)) (''spanfall: port '' @ nat_to_string port @ '' is already in use'')
     \<or> (\<exists>e. m_bind m port = BindError e) \<and> o_status out = Panicked"

lemma run_server_bound:
  assumes "iterates (m_ord m)" "all_bound m"
  shows "\<exists>y. build_server (m_ord m) budget timeout demo = Some y
    \<and> run_server m budget timeout demo = \<lparr>o_stdout = banner demo, o_stderr = [], o_status = Serving y\<rparr>"
  using build_server_total [OF assms(1), of budget timeout demo] assms(2)
  by (auto simp: run_server_def bind_or_exit_def all_bound_def)

lemma bind_or_exit_failed: "bind_or_exit m port = Inl out \<Longrightarrow> o_stdout out = [] \<and> bind_failed m out port"
  by (auto simp: bind_or_exit_def bind_failed_def starts_with_def Let_def split: bind_result.splits)

lemma bind_or_exit_ok: "bind_or_exit m port = Inr u \<Longrightarrow> m_bind m port = Bound"
  by (auto simp: bind_or_exit_def Let_def split: bind_result.splits)

lemma run_server_unbound:
  assumes "\<not> all_bound m"
  shows "o_stdout (run_server m budget timeout demo) = []
    \<and> (\<exists>port \<in> {GRPC_PORT, HTTP_PORT, API_PORT}. bind_failed m (run_server m budget timeout demo) port)"
proof -
  have "\<exists>port \<in> {GRPC_PORT, HTTP_PORT, API_PORT}. bind_or_exit m port = Inl (run_server m budget timeout demo)"
    using assms bind_or_exit_ok by (auto simp: run_server_def all_bound_def split: sum.splits)
  with bind_or_exit_failed show ?thesis by blast
qed

lemma exit_on_err_cases:
  "(\<And>e. snd r = Inl e \<Longrightarrow> fst r = []) \<Longrightarrow>
   o_status (exit_on_err r) = ExitCode 0 \<and> o_stderr (exit_on_err r) = []
   \<or> o_status (exit_on_err r) = ExitCode 1 \<and> o_stdout (exit_on_err r) = [] \<and> length (o_stderr (exit_on_err r)) = 1"
  by (cases r; cases "snd r") (auto simp: exit_on_err_def)

text \<open>
  C26. Starting up.  Contradictory options end the process with code 2 before anything is contacted or
  bound.  A query (\<open>--dump\<close>, \<open>list\<close>) ends with code 0, or with code 1 after printing nothing but the error.
  Otherwise, when all three ports can be bound the banner is printed and the server always comes
  up with the given budget, timeout and demo data; when one cannot, no banner is printed and the
  process ends, with code 1 and a message that names the port if it is in use.
\<close>
theorem startup:
  assumes "iterates (m_ord m)" "main m w cli = (w', out)"
  shows "if conflicting cli then w' = w \<and> o_stdout out = [] \<and> o_status out = ExitCode 2
    else if cli_dump cli \<or> cli_command cli \<noteq> None
    then o_status out = ExitCode 0 \<and> o_stderr out = []
      \<or> o_status out = ExitCode 1 \<and> o_stdout out = [] \<and> length (o_stderr out) = 1
    else if all_bound m
    then o_stdout out = banner (cli_demo cli)
      \<and> (\<exists>y. build_server (m_ord m) (cli_max_memory cli) (cli_ingest_timeout cli) (cli_demo cli) = Some y
           \<and> o_status out = Serving y)
    else o_stdout out = [] \<and> (\<exists>port \<in> {GRPC_PORT, HTTP_PORT, API_PORT}. bind_failed m out port)"
proof (cases "conflicting cli")
  case True
  with assms(2) show ?thesis by (auto simp: main_def conflicting_def split: if_splits)
next
  case False
  let ?query = "if cli_dump cli then print_dump (m_client m) w API_ADDR else print_list (m_client m) w API_ADDR"
  have cmd: "cli_command cli = None \<or> cli_command cli = Some CmdList" by (cases "cli_command cli") (auto intro: command.exhaust)
  show ?thesis
  proof (cases "cli_dump cli \<or> cli_command cli \<noteq> None")
    case True
    with False cmd assms(2) have "out = exit_on_err (snd ?query)"
      by (auto simp: main_def conflicting_def apsnd_def map_prod_def split: if_splits prod.splits)
    with exit_on_err_cases [of "snd ?query"] print_error [of "m_client m" w API_ADDR] True False show ?thesis by auto
  next
    case serve: False
    with False assms(2) have "out = run_server m (cli_max_memory cli) (cli_ingest_timeout cli) (cli_demo cli)"
      by (simp add: main_def conflicting_def)
    with serve False run_server_bound [OF assms(1)] run_server_unbound [of m] show ?thesis
      by (metis outcome.select_convs(1,3))
  qed
qed

definition sample_machine :: "nat machine" where
  "sample_machine =
    \<lparr>m_bind = (\<lambda>port. if port = 4318 then AddrInUse else Bound),
     m_lsof = (\<lambda>_. Some \<lparr>po_success = True,
        po_stdout = bytes_of (''COMMAND PID USER'' @ [LF] @ ''jaeger 4242 root'' @ [LF])\<rparr>),
     m_ord = rev, m_client = \<lparr>exchange = (\<lambda>k _ _. (k, ConnectError [])), from_slice = (\<lambda>_. Inl []), to_string_pretty = (\<lambda>_. Inr [])\<rparr>\<rparr>"

text \<open>With the second port taken, the process ends naming it.\<close>
theorem startup_witness:
  "\<not> conflicting (cli_of None None None False True) \<and> \<not> all_bound sample_machine
   \<and> (\<exists>out. main sample_machine 0 (cli_of None None None False True) = (0, out) \<and> o_stdout out = []
        \<and> (\<exists>port \<in> {GRPC_PORT, HTTP_PORT, API_PORT}. bind_failed sample_machine out port))"
proof -
  let ?cli = "cli_of None None None False True"
  obtain w' out where m: "main sample_machine 0 ?cli = (w', out)" by fastforce
  then have "w' = 0" by (simp add: main_def cli_of_def)
  moreover have "iterates (m_ord sample_machine)" by (simp add: sample_machine_def iterates_rev)
  moreover have "\<not> conflicting ?cli" "\<not> cli_dump ?cli" "cli_command ?cli = None" by (simp_all add: conflicting_def cli_of_def)
  moreover have "\<not> all_bound sample_machine" by (simp add: all_bound_def sample_machine_def HTTP_PORT_def)
  ultimately show ?thesis using startup [of sample_machine 0 ?cli w' out] m by auto
qed

end
