(* ===== verification/Sniff.thy ===== *)
theory Sniff
  imports Rust_Text
begin

text \<open>
  \<open>src/ingest/sniff.rs\<close>: every connection on the gRPC port is peeked at; an HTTP/2 client preface goes
  to the gRPC server untouched, anything else is answered with a canned 400 that names the right
  port.  The operating system's answers (\<open>peek\<close>, \<open>try_read\<close>, \<open>accept\<close>, whether the hand-over channel is
  still open) are inputs; the streams themselves are opaque.
\<close>

definition MISDIRECT_BODY :: string where
  "MISDIRECT_BODY =
    ''This is the OTLP/gRPC port (4317). Point your OTLP/HTTP exporter at :4318 instead.''"

text \<open>What awaiting \<open>peek\<close> comes to: the bytes copied into the four-byte buffer, an error, or an endless
  wait, when the peer keeps the connection open and sends nothing.\<close>
datatype peek_result = PeekOk "u8 list" | PeekErr | PeekPending

text \<open>The index of the next attempt and the attempts left; the second component counts the 20 ms sleeps.
  \<open>None\<close>: it waits forever.\<close>
fun preface_loop :: "(nat \<Rightarrow> peek_result) \<Rightarrow> nat \<Rightarrow> nat \<Rightarrow> (bool \<times> nat) option" where
  "preface_loop peek attempt 0 = Some (False, 0)"
| "preface_loop peek attempt (Suc left) =
    (let slept = (if 0 < attempt then 1 else 0)
     in map_option (apsnd ((+) slept))
          (case peek attempt of
             PeekOk buf \<Rightarrow>
               if length buf = 4 then Some (buf = bytes_of ''PRI '', 0)
               else if length buf = 0 then Some (False, 0)
               else preface_loop peek (attempt + 1) left
           | PeekErr \<Rightarrow> Some (False, 0)
           | PeekPending \<Rightarrow> None))"

definition looks_like_h2_preface :: "(nat \<Rightarrow> peek_result) \<Rightarrow> bool option" where
  "looks_like_h2_preface peek = map_option fst (preface_loop peek 0 5)"

text \<open>The drain loop of \<open>reject_with_400\<close> over the results of \<open>try_read\<close> (\<open>Some n\<close> for \<open>Ok(n)\<close>): how many
  reads it makes, \<open>None\<close> when it has not stopped within the given results.\<close>
fun drain :: "nat option list \<Rightarrow> nat option" where
  "drain [] = None"
| "drain (r # rs) = (case r of None \<Rightarrow> Some 1 | Some n \<Rightarrow> if n = 0 then Some 1 else map_option Suc (drain rs))"

definition reject_response :: string where
  "reject_response =
    ''HTTP/1.1 400 Bad Request'' @ CRLF @ ''Content-Type: text/plain'' @ CRLF
    @ ''Content-Length: '' @ nat_to_string (length MISDIRECT_BODY) @ CRLF
    @ ''Connection: close'' @ CRLF @ CRLF @ MISDIRECT_BODY"

section \<open>The accept loop\<close>

datatype 'c accepted = Connection 'c "nat \<Rightarrow> peek_result" | AcceptError

datatype 'c route = ToGrpc 'c | ErrorToGrpc | Reject400 'c

text \<open>One pass of the loop of \<open>serve_grpc_with_http_sniffing\<close> for an \<open>accept\<close> result, when the channel to
  the gRPC server is open or closed: what it does with the connection, and whether it goes on.  The
  preface is awaited inside the loop: \<open>None\<close> when that wait never ends.\<close>
definition serve_step :: "bool \<Rightarrow> 'c accepted \<Rightarrow> ('c route option \<times> bool) option" where
  "serve_step open a =
    (case a of
       AcceptError \<Rightarrow> Some (if open then (Some ErrorToGrpc, True) else (None, False))
     | Connection c peek \<Rightarrow>
         map_option (\<lambda>h2.
             if h2 then (if open then (Some (ToGrpc c), True) else (None, False))
             else (Some (Reject400 c), True))
           (looks_like_h2_preface peek))"

fun serve_loop :: "(bool \<times> 'c accepted) list \<Rightarrow> 'c route list" where
  "serve_loop [] = []"
| "serve_loop ((open, a) # rest) =
    (case serve_step open a of
       None \<Rightarrow> []
     | Some (r, go) \<Rightarrow> (case r of Some x \<Rightarrow> [x] | None \<Rightarrow> []) @ (if go then serve_loop rest else []))"

section \<open>Properties\<close>

text \<open>What \<open>peek\<close> is documented to do on a healthy connection: it waits for data and returns, without
  consuming them, the first bytes delivered so far, at most four; what has been delivered grows
  along the stream the peer sends.\<close>
definition peeks_at :: "u8 list \<Rightarrow> (nat \<Rightarrow> nat) \<Rightarrow> (nat \<Rightarrow> peek_result) \<Rightarrow> bool" where
  "peeks_at stream delivered peek \<longleftrightarrow>
     mono delivered \<and> (\<forall>k. 0 < delivered k \<and> delivered k \<le> length stream)
     \<and> (\<forall>k. peek k = PeekOk (take 4 (take (delivered k) stream)))"

lemma preface_loop_correct:
  assumes "peeks_at stream delivered peek"
  shows "\<exists>n. preface_loop peek k left =
    Some (take 4 stream = bytes_of ''PRI '' \<and> (\<exists>j. k \<le> j \<and> j < k + left \<and> 4 \<le> delivered j), n)"
proof (induction left arbitrary: k)
  case (Suc left)
  have pk: "peek k = PeekOk (take 4 (take (delivered k) stream))" and pos: "0 < delivered k" "delivered k \<le> length stream"
    using assms by (simp_all add: peeks_at_def)
  have len: "length (take 4 (take (delivered k) stream)) = min 4 (delivered k)" using pos by simp
  show ?case
  proof (cases "4 \<le> delivered k")
    case True
    then have "take 4 (take (delivered k) stream) = take 4 stream" by (simp add: min_def)
    with True pk len show ?thesis by (auto simp: Let_def apsnd_def)
  next
    case False
    have "(\<exists>j. k \<le> j \<and> j < k + Suc left \<and> 4 \<le> delivered j) \<longleftrightarrow> (\<exists>j. k + 1 \<le> j \<and> j < k + 1 + left \<and> 4 \<le> delivered j)"
    proof
      assume "\<exists>j. k \<le> j \<and> j < k + Suc left \<and> 4 \<le> delivered j"
      then obtain j where j: "k \<le> j" "j < k + Suc left" "4 \<le> delivered j" by blast
      moreover have "j \<noteq> k" using j(3) False by auto
      ultimately show "\<exists>j. k + 1 \<le> j \<and> j < k + 1 + left \<and> 4 \<le> delivered j" by (intro exI [of _ j]) auto
    next
      assume "\<exists>j. k + 1 \<le> j \<and> j < k + 1 + left \<and> 4 \<le> delivered j"
      then obtain j where "k + 1 \<le> j" "j < k + 1 + left" "4 \<le> delivered j" by blast
      then show "\<exists>j. k \<le> j \<and> j < k + Suc left \<and> 4 \<le> delivered j" by (intro exI [of _ j]) auto
    qed
    with False pk len pos Suc.IH [of "k + 1"] show ?thesis by (auto simp: Let_def)
  qed
qed auto

text \<open>
  C35. The fork on the gRPC port: a connection goes to the gRPC server exactly when its first four
  bytes are \<open>PRI\<close> and a space and they have all arrived by the fifth look (so within four 20 ms
  pauses); any other stream, in particular every HTTP/1.1 request line, gets the informative 400.
  But the wait for the first bytes has no limit and holds up the accept loop: behind a connection
  that stays open and silent no connection is routed any more, whatever it sends.
\<close>
theorem sniff_routes:
  assumes "peeks_at stream delivered peek"
  shows "serve_step True (Connection c peek) =
    Some (Some (if take 4 stream = bytes_of ''PRI '' \<and> 4 \<le> delivered 4 then ToGrpc c else Reject400 c), True)
    \<and> (\<forall>silent d rest. silent 0 = PeekPending \<longrightarrow>
         serve_loop ((True, Connection d silent) # (True, Connection c peek) # rest) = [])"
proof -
  have "(\<exists>j. 0 \<le> j \<and> j < 0 + 5 \<and> 4 \<le> delivered j) \<longleftrightarrow> 4 \<le> delivered 4"
  proof
    assume "\<exists>j. 0 \<le> j \<and> j < 0 + 5 \<and> 4 \<le> delivered j"
    then obtain j where "j < 5" and j4: "4 \<le> delivered j" by auto
    then have j: "j \<le> 4" by simp
    have "mono delivered" using assms by (simp add: peeks_at_def)
    from monoD [OF this j] j4 show "4 \<le> delivered 4" by simp
  qed (rule exI [of _ 4], simp)
  with preface_loop_correct [OF assms, of 0 5] have
    "looks_like_h2_preface peek = Some (take 4 stream = bytes_of ''PRI '' \<and> 4 \<le> delivered 4)"
    by (auto simp: looks_like_h2_preface_def simp del: preface_loop.simps)
  moreover have "looks_like_h2_preface silent = None" if "silent 0 = PeekPending" for silent
    using that by (simp add: looks_like_h2_preface_def numeral_eq_Suc)
  ultimately show ?thesis by (simp add: serve_step_def)
qed

theorem sniff_routes_witness:
  "peeks_at (bytes_of ''PRI *'') (\<lambda>k. min 5 (Suc k)) (\<lambda>k. PeekOk (take 4 (take (min 5 (Suc k)) (bytes_of ''PRI *''))))
   \<and> serve_step True (Connection () (\<lambda>k. PeekOk (take 4 (take (min 5 (Suc k)) (bytes_of ''PRI *'')))))
     = Some (Some (ToGrpc ()), True)
   \<and> serve_loop [(True, Connection () (\<lambda>_. PeekPending)),
       (True, Connection () (\<lambda>k. PeekOk (take 4 (take (min 5 (Suc k)) (bytes_of ''PRI *'')))))] = []"
proof -
  let ?peek = "\<lambda>k. PeekOk (take 4 (take (min 5 (Suc k)) (bytes_of ''PRI *'')))"
  have p: "peeks_at (bytes_of ''PRI *'') (\<lambda>k. min 5 (Suc k)) ?peek"
    by (auto simp: peeks_at_def bytes_of_def intro!: monoI)
  have "take 4 (bytes_of ''PRI *'') = bytes_of ''PRI ''" by (simp add: bytes_of_def)
  with sniff_routes [OF p, of "()"] p show ?thesis by simp
qed

text \<open>
  The canned reply is a well-formed HTTP response: its announced \<open>Content-Length\<close> is 82, the
  length of the text after the blank line, and the text names the port to use.
\<close>
lemma reject_response_framed:
  "\<exists>headers. reject_response = headers @ CRLF @ CRLF @ MISDIRECT_BODY
    \<and> sublist (''Content-Length: 82'' @ CRLF) headers \<and> length MISDIRECT_BODY = 82
    \<and> str_contains MISDIRECT_BODY '':4318''"
proof -
  have len: "length MISDIRECT_BODY = 82" by (simp add: MISDIRECT_BODY_def)
  have n: "nat_to_string 82 = ''82''" by code_simp
  have c: "str_contains MISDIRECT_BODY '':4318''"
    unfolding str_contains_def sublist_def MISDIRECT_BODY_def
    by (rule exI [of _ "''This is the OTLP/gRPC port (4317). Point your OTLP/HTTP exporter at ''"],
        rule exI [of _ "'' instead.''"]) simp
  have "reject_response = (''HTTP/1.1 400 Bad Request'' @ CRLF @ ''Content-Type: text/plain'' @ CRLF
      @ (''Content-Length: 82'' @ CRLF) @ ''Connection: close'') @ CRLF @ CRLF @ MISDIRECT_BODY"
    by (simp add: reject_response_def len n)
  moreover have "sublist (''Content-Length: 82'' @ CRLF) (''HTTP/1.1 400 Bad Request'' @ CRLF
      @ ''Content-Type: text/plain'' @ CRLF @ (''Content-Length: 82'' @ CRLF) @ ''Connection: close'')"
    unfolding sublist_def
    by (rule exI [of _ "''HTTP/1.1 400 Bad Request'' @ CRLF @ ''Content-Type: text/plain'' @ CRLF"],
        rule exI [of _ "''Connection: close''"]) simp
  ultimately show ?thesis using len c by blast
qed

end
