(* ===== verification/Generations.thy ===== *)
theory Generations
  imports Capacity
begin

text \<open>
  Span references.  Outside the store a span is named by its trace id, the trace's generation and
  its position (\<open>indices\<close> of a filter reply, \<open>/attributes/:idx\<close>).  A trace that is evicted and comes
  back starts over at position 0 with the next generation (\<open>insert_span_no_evict\<close> and
  \<open>evict_over_budget\<close> of \<open>src/store/mod.rs\<close>), and spec 01 has references compared by generation.
  This theory shows what the comparison is worth over a run of the writer.
\<close>

section \<open>How a store may follow another\<close>

text \<open>\<open>e\<close> evictions of the trace lie between the two stores; without any, its spans keep their positions.\<close>
definition continues :: "nat \<Rightarrow> store \<Rightarrow> store \<Rightarrow> trace_id \<Rightarrow> bool" where
  "continues e s s' tid \<longleftrightarrow>
     next_generation s' tid = next_generation s tid + of_nat e
     \<and> (e = 0 \<and> trace s tid \<noteq> None \<longrightarrow> trace s' tid \<noteq> None \<and> prefix (resident_ids s tid) (resident_ids s' tid))"

lemma continues_refl [simp]: "continues 0 s s tid"
  by (simp add: continues_def)

lemma continues_trans: "continues e s t tid \<Longrightarrow> continues e' t u tid \<Longrightarrow> continues (e + e') s u tid"
  by (auto simp: continues_def add.assoc intro: prefix_order.trans)

lemma continues_same:
  assumes "trace s' k = trace s k" "trace s' k = None \<Longrightarrow> s_evicted_generations s' k = s_evicted_generations s k"
  shows "continues 0 s s' k"
  using assms by (cases "trace s k") (simp_all add: continues_def next_generation_def resident_ids_def)

lemma continues_insert:
  assumes "store_inv n s" "n + length (ns_attributes span) < 2 ^ 32"
    and "insert_span_no_evict s tid span now = Some (s', out)"
  shows "continues 0 s s' k"
proof -
  from insert_effect(1,4) [OF assms] obtain t' where t': "trace s' = (trace s)(tid \<mapsto> t')"
    "t_generation t' = next_generation s tid"
    "t_span_ids t' = (if ns_span_id span \<in> set (resident_ids s tid) then resident_ids s tid
                      else resident_ids s tid @ [ns_span_id span])"
    and ev: "s_evicted_generations s' = (s_evicted_generations s)(tid := None)" by blast
  show ?thesis
  proof (cases "k = tid")
    case True
    with t' show ?thesis by (simp add: continues_def next_generation_def resident_ids_def)
  next
    case False
    with t'(1) ev show ?thesis by (intro continues_same) simp_all
  qed
qed

lemma continues_insert_all:
  assumes "store_inv n s" "n + sum_list (map (\<lambda>x. length (ns_attributes (snd x))) xs) < 2 ^ 32"
    and "insert_all now s xs = Some s'"
  shows "continues 0 s s' k"
  using assms
proof (induction xs arbitrary: n s)
  case (Cons x xs)
  from Cons.prems insert_span_no_evict_inv [OF Cons.prems(1), of "snd x" "fst x" now] obtain u out where
    u: "insert_span_no_evict s (fst x) (snd x) now = Some (u, out)" "store_inv (n + length (ns_attributes (snd x))) u"
    by auto
  have "continues 0 s u k" using continues_insert [OF Cons.prems(1) _ u(1)] Cons.prems(2) by simp
  moreover have "continues 0 u s' k"
    using Cons.IH [OF u(2)] Cons.prems(2,3) u(1) by (simp add: insert_all_def add.assoc)
  ultimately show ?case using continues_trans [of 0 s u k 0 s'] by simp
qed (simp add: insert_all_def)

lemma continues_sweep:
  assumes "sweep_of s s'"
  shows "\<exists>e \<le> 1. continues e s s' k \<and> (trace s' k \<noteq> None \<longrightarrow> e = 0)"
proof -
  have tr: "trace s' k = None \<or> trace s' k = trace s k"
    and ev: "s_evicted_generations s' k =
      (if trace s' k = None \<and> trace s k \<noteq> None then map_option t_generation (trace s k) else s_evicted_generations s k)"
    using assms unfolding sweep_of_def by blast+
  show ?thesis
  proof (cases "trace s' k = trace s k")
    case True
    with ev have "continues 0 s s' k" by (intro continues_same) (simp_all split: if_splits)
    then show ?thesis by blast
  next
    case False
    with tr ev have "continues 1 s s' k" by (auto simp: continues_def next_generation_def split: option.splits)
    moreover have "trace s' k = None" using tr False by simp
    ultimately show ?thesis by auto
  qed
qed

text \<open>A batch evicts a trace at most once, and then leaves it evicted.\<close>
lemma continues_apply_batch:
  assumes "iterates ord" "store_inv n (w_store w)" "n + batch_attrs b < 2 ^ 32" "apply_batch ord clock w b = Some w'"
  shows "\<exists>e \<le> 1. continues e (w_store w) (w_store w') k \<and> (trace (w_store w') k \<noteq> None \<longrightarrow> e = 0)"
proof -
  from assms(1-3) obtain s1 s2 where
    i: "insert_all (writer_now_unix_nano clock) (w_store w) (sb_spans b) = Some s1"
    and inv1: "store_inv (n + batch_attrs b) s1"
    and e: "evict_over_budget ord (count_malformed s1 (of_nat (sb_malformed_span_count b))) = Some s2"
    and a: "apply_batch ord clock w b = Some (w\<lparr>w_store := s2, w_seq := w_seq w + 1\<rparr>)"
    by (rule apply_batch_ok)
  let ?c = "count_malformed s1 (of_nat (sb_malformed_span_count b))"
  have "continues 0 (w_store w) s1 k"
    by (rule continues_insert_all [OF assms(2) _ i]) (use assms(3) in \<open>simp add: batch_attrs_def\<close>)
  moreover have "continues 0 s1 ?c k" by (rule continues_same) simp_all
  ultimately have c: "continues 0 (w_store w) ?c k" using continues_trans [of 0 _ s1 k 0] by simp
  have "sweep_of ?c s2"
    using evict_over_budget_sweep [OF assms(1) store_inv_count_malformed
      [OF inv1, of "of_nat (sb_malformed_span_count b)"]] e by auto
  from continues_sweep [OF this, of k] obtain d where
    d: "d \<le> 1" "continues d ?c s2 k" "trace s2 k \<noteq> None \<longrightarrow> d = 0" by blast
  with continues_trans [OF c d(2)] a assms(4) show ?thesis by auto
qed

lemma run_append: "run w (as @ bs) = do { u \<leftarrow> run w as; run u bs }"
  by (simp add: run_def foldO_append)

lemma continues_run:
  assumes "\<forall>(ord, _, _) \<in> set as. iterates ord" "store_inv n (w_store w)" "n + arrival_attrs as < 2 ^ 32"
    and "run w as = Some w'"
  shows "\<exists>e \<le> length as. continues e (w_store w) (w_store w') k"
    and "store_inv (n + arrival_attrs as) (w_store w')"
  using assms
proof (induction as arbitrary: n w)
  case Nil
  { case 1 then show ?case by (auto simp: run_def intro: exI [of _ 0]) }
  { case 2 then show ?case by (simp add: run_def arrival_attrs_def) }
next
  case (Cons a as)
  obtain ord clock b where a: "a = (ord, clock, b)" by (cases a) auto
  have step: "\<exists>u e. run u as = Some w' \<and> e \<le> 1 \<and> continues e (w_store w) (w_store u) k
      \<and> store_inv (n + batch_attrs b) (w_store u)"
    if p: "\<forall>(ord, _, _) \<in> set (a # as). iterates ord" "store_inv n (w_store w)" "n + arrival_attrs (a # as) < 2 ^ 32"
      "run w (a # as) = Some w'" for n w
  proof -
    have ord: "iterates ord" and room: "n + batch_attrs b < 2 ^ 32" using p by (simp_all add: a arrival_attrs_def)
    from ord p(2) room obtain s1 u where u: "apply_batch ord clock w b = Some u"
      "store_inv (n + batch_attrs b) (w_store u)" by (rule apply_batch_effect [where clock = clock])
    with p(4) continues_apply_batch [OF ord p(2) room u(1), of k] show ?thesis
      by (auto simp: run_def a)
  qed
  { case 1
    from step [OF 1] obtain u e where u: "run u as = Some w'" "e \<le> 1" "continues e (w_store w) (w_store u) k"
      "store_inv (n + batch_attrs b) (w_store u)" by blast
    from Cons.IH(1) [OF _ u(4) _ u(1)] 1 obtain e' where "e' \<le> length as" "continues e' (w_store u) (w_store w') k"
      by (auto simp: a arrival_attrs_def add.assoc)
    with continues_trans [OF u(3) this(2)] u(2) show ?case by (intro exI [of _ "e + e'"]) simp }
  { case 2
    from step [OF 2] obtain u where u: "run u as = Some w'" "store_inv (n + batch_attrs b) (w_store u)" by blast
    from Cons.IH(2) [OF _ u(2) _ u(1)] 2 show ?case by (auto simp: a arrival_attrs_def add.assoc) }
qed


lemma prefix_span_id:
  "prefix (t_span_ids t) (t_span_ids t') \<Longrightarrow> Trace.span_id t i = Some x \<Longrightarrow> Trace.span_id t' i = Some x"
  by (auto simp: Trace.span_id_def prefix_def vec_index_def nth_append split: if_splits)

section \<open>What comparing generations is worth\<close>

text \<open>
  C7. A span reference is as good as its generation.  Take a trace resident before and after a run
  of the writer of fewer than \<open>2 ^ 32\<close> batches.  If its generation is the same, every position
  names the span it named before, so positions handed out earlier stay valid.  And if it was not
  resident at any moment in between, the generation differs, so a stale reference is always
  detected, however often the trace went and came back.
\<close>
theorem generation_guards_positions:
  assumes "\<forall>(ord, _, _) \<in> set as. iterates ord" "store_inv n (w_store w)" "n + arrival_attrs as < 2 ^ 32"
    and "length as < 2 ^ 32" "run w as = Some w'"
    and "trace (w_store w) tid = Some t" "trace (w_store w') tid = Some t'"
  shows "(t_generation t' = t_generation t \<longrightarrow>
      (\<forall>i x. Trace.span_id t i = Some x \<longrightarrow> Trace.span_id t' i = Some x))
    \<and> (\<forall>bs u. prefix bs as \<and> run w bs = Some u \<and> trace (w_store u) tid = None
      \<longrightarrow> t_generation t' \<noteq> t_generation t)"
proof (rule conjI)
  have gen: "next_generation (w_store w) tid = t_generation t" "next_generation (w_store w') tid = t_generation t'"
    and ids: "resident_ids (w_store w) tid = t_span_ids t" "resident_ids (w_store w') tid = t_span_ids t'"
    using assms(6,7) by (simp_all add: next_generation_def resident_ids_def)
  have nowrap: "(of_nat e :: u32) = 0 \<longleftrightarrow> e = 0" if "e \<le> length as" for e
    using that assms(4) by (auto simp: word_of_nat_eq_0_iff dest: dvd_imp_le)
  show "t_generation t' = t_generation t \<longrightarrow>
      (\<forall>i x. Trace.span_id t i = Some x \<longrightarrow> Trace.span_id t' i = Some x)"
  proof
    assume same: "t_generation t' = t_generation t"
    from continues_run(1) [OF assms(1-3,5), of tid] obtain e where
      "e \<le> length as" "continues e (w_store w) (w_store w') tid" by blast
    with nowrap same gen ids assms(6) have "prefix (t_span_ids t) (t_span_ids t')" by (simp add: continues_def)
    then show "\<forall>i x. Trace.span_id t i = Some x \<longrightarrow> Trace.span_id t' i = Some x" using prefix_span_id by blast
  qed
  show "\<forall>bs u. prefix bs as \<and> run w bs = Some u \<and> trace (w_store u) tid = None
      \<longrightarrow> t_generation t' \<noteq> t_generation t"
  proof (intro allI impI)
    fix bs u
    assume u: "prefix bs as \<and> run w bs = Some u \<and> trace (w_store u) tid = None"
    then obtain cs where cs: "as = bs @ cs" by (auto simp: prefix_def)
    have attrs: "arrival_attrs as = arrival_attrs bs + arrival_attrs cs" by (simp add: cs arrival_attrs_def)
    have run: "run u cs = Some w'" using assms(5) u by (simp add: cs run_append)
    have bs: "\<forall>(ord, _, _) \<in> set bs. iterates ord" "n + arrival_attrs bs < 2 ^ 32"
      and cs': "\<forall>(ord, _, _) \<in> set cs. iterates ord" "n + arrival_attrs bs + arrival_attrs cs < 2 ^ 32"
      using assms(1,3) attrs by (simp_all add: cs)
    note r = continues_run [OF bs(1) assms(2) bs(2)]
    from u r(1) [of u tid] obtain d where d: "d \<le> length bs" "continues d (w_store w) (w_store u) tid" by blast
    have inv: "store_inv (n + arrival_attrs bs) (w_store u)" using r(2) [of u] u by blast
    from continues_run(1) [OF cs'(1) inv cs'(2) run, of tid] obtain e where
      e: "e \<le> length cs" "continues e (w_store u) (w_store w') tid" by blast
    have "d \<noteq> 0" using d(2) u assms(6) by (auto simp: continues_def)
    then have "(of_nat (d + e) :: u32) \<noteq> 0" using nowrap [of "d + e"] d(1) e(1) by (simp add: cs)
    moreover have "t_generation t' = t_generation t + of_nat (d + e)"
      using continues_trans [OF d(2) e(2)] gen by (simp add: continues_def)
    ultimately show "t_generation t' \<noteq> t_generation t" by simp
  qed
qed

theorem generation_guards_positions_witness:
  "\<exists>w1 w2 t t'. apply_batch id (Some 5) (spawn_writer (store_new 100000)) sample_trace_batch = Some w1
    \<and> run w1 [(rev, Some 9, sample_trace_batch)] = Some w2
    \<and> trace (w_store w1) sample_trace_id = Some t \<and> trace (w_store w2) sample_trace_id = Some t'
    \<and> Trace.span_id t 1 = Some (SpanId (replicate 8 2)) \<and> Trace.span_id t' 1 = Some (SpanId (replicate 8 2))"
proof -
  let ?b = sample_trace_batch and ?w = "spawn_writer (store_new 100000)"
  have attrs: "batch_attrs ?b = 1" by (simp add: batch_attrs_def sample_trace_batch_def)
  have bytes: "batch_bytes ?b \<le> 1000"
    by (simp add: batch_bytes_def sample_trace_batch_def span_bytes_def APPROX_SPAN_FIXED_BYTES_def
        APPROX_ATTR_FIXED_BYTES_def sample_span_def)
  have w: "store_bytes (w_store ?w) = 0" "s_max_memory_bytes (w_store ?w) = 100000"
    "resident_ids (w_store ?w) = (\<lambda>_. [])"
    by (simp_all add: spawn_writer_def store_new_def store_bytes_def resident_ids_def trace_def fun_eq_iff)
  have keys: "keys_of (sb_spans ?b) = [(sample_trace_id, SpanId (replicate 8 1)), (sample_trace_id, SpanId (replicate 8 2))]"
    by (simp add: keys_of_def sample_trace_batch_def sample_span_def)
  from apply_batch_effect [OF iterates_id store_inv_spawn [of 100000], of ?b "Some 5"] attrs obtain w1 where
    w1: "apply_batch id (Some 5) ?w ?b = Some w1" "store_inv 1 (w_store w1)" by auto
  have fit1: "store_bytes (w_store ?w) + batch_bytes ?b \<le> s_max_memory_bytes (w_store ?w)" using bytes w by simp
  note f1 = apply_batch_fits [OF iterates_id store_inv_spawn [of 100000] _ fit1 w1(1)]
  from apply_batch_effect [OF iterates_rev w1(2), of ?b "Some 9"] attrs obtain w2 where
    w2: "apply_batch rev (Some 9) w1 ?b = Some w2" by auto
  have fit2: "store_bytes (w_store w1) + batch_bytes ?b \<le> s_max_memory_bytes (w_store w1)"
    using f1(2,4) attrs bytes w by simp
  note f2 = apply_batch_fits [OF iterates_rev w1(2) _ fit2 w2]
  have ids1: "resident_ids (w_store w1) sample_trace_id = [SpanId (replicate 8 1), SpanId (replicate 8 2)]"
    using f1(1) attrs w(3) by (simp add: keys abs_put_def)
  have ids2: "resident_ids (w_store w2) sample_trace_id = [SpanId (replicate 8 1), SpanId (replicate 8 2)]"
    using f2(1) attrs ids1 by (simp add: keys abs_put_def)
  from ids1 obtain t where t: "trace (w_store w1) sample_trace_id = Some t"
    "t_span_ids t = [SpanId (replicate 8 1), SpanId (replicate 8 2)]"
    by (auto simp: resident_ids_def split: option.splits)
  from ids2 obtain t' where t': "trace (w_store w2) sample_trace_id = Some t'"
    by (auto simp: resident_ids_def split: option.splits)
  have run: "run w1 [(rev, Some 9, ?b)] = Some w2" using w2 by (simp add: run_def)
  have room: "\<forall>(ord, _, _) \<in> set [(rev, Some 9, ?b)]. iterates ord" "1 + arrival_attrs [(rev, Some 9, ?b)] < 2 ^ 32"
    "length [(rev, Some 9, ?b)] < 2 ^ 32"
    by (simp_all add: iterates_rev arrival_attrs_def attrs)
  have same: "t_generation t' = t_generation t"
    using continues_apply_batch [OF iterates_rev w1(2) _ w2, of sample_trace_id] attrs t(1) t'
    by (auto simp: continues_def next_generation_def)
  have "Trace.span_id t 1 = Some (SpanId (replicate 8 2))" by (simp add: Trace.span_id_def vec_index_def t(2))
  moreover from generation_guards_positions [OF room(1) w1(2) room(2,3) run t(1) t'] same this
  have "Trace.span_id t' 1 = Some (SpanId (replicate 8 2))" by blast
  ultimately show ?thesis using w1(1) run t(1) t' by blast
qed

end
