(* ===== verification/Trace_Tests.thy ===== *)
theory Trace_Tests
  imports Trace
begin

text \<open>
  The unit tests of \<open>src/store/types.rs\<close>, \<open>interner.rs\<close> and \<open>trace.rs\<close>, run on the model.  Each test function is a
  definition of type \<^typ>\<open>unit panics\<close>: an \<open>assert!\<close> or \<open>unwrap\<close> that fails is a panic, as in the
  source, and the test passes when its value is \<^term>\<open>Some ()\<close>.  They are evaluated by the simplifier
  from the definitions alone, so they check that the model is the code the tests were written for.
\<close>

named_theorems test_eval \<open>definitions to unfold when a test is run\<close>

definition assert_that :: "bool \<Rightarrow> unit panics" where
  [test_eval]: "assert_that b = (if b then Some () else None)"

section \<open>Identifiers\<close>

definition trace_ids_with_equal_bytes_are_equal_and_hash_equal :: "unit panics" where
  [test_eval]: "trace_ids_with_equal_bytes_are_equal_and_hash_equal =
    (let a = TraceId (replicate 16 1); b = TraceId (replicate 16 1) in assert_that (a = b))"

definition trace_ids_with_different_bytes_are_not_equal :: "unit panics" where
  [test_eval]: "trace_ids_with_different_bytes_are_not_equal =
    (let a = TraceId (replicate 16 1); b = TraceId (replicate 16 2) in assert_that (a \<noteq> b))"

definition hex_round_trips :: "unit panics" where
  [test_eval]: "hex_round_trips =
    (let id = TraceId (replicate 16 0xab); hex = to_hex id
     in do { assert_that (length hex = 32); assert_that (from_hex hex = Some id) })"

definition from_hex_rejects_wrong_length_and_non_hex_input :: "unit panics" where
  [test_eval]: "from_hex_rejects_wrong_length_and_non_hex_input =
    do { assert_that (from_hex ''ab'' = None); assert_that (from_hex (concat (replicate 16 ''zz'')) = None) }"

lemma types_tests_pass:
  "trace_ids_with_equal_bytes_are_equal_and_hash_equal = Some ()"
  "trace_ids_with_different_bytes_are_not_equal = Some ()"
  "hex_round_trips = Some ()"
  "from_hex_rejects_wrong_length_and_non_hex_input = Some ()"
proof -
  show "hex_round_trips = Some ()" by (simp add: test_eval from_hex_to_hex wf_simps)
  show "from_hex_rejects_wrong_length_and_non_hex_input = Some ()" by code_simp
qed (simp_all add: test_eval)

section \<open>Interner\<close>

definition interning_the_same_string_twice_returns_the_same_id :: "unit panics" where
  [test_eval]: "interning_the_same_string_twice_returns_the_same_id =
    (let i = interner_new 10; (i, a) = intern i ''service.name''; (i, b) = intern i ''service.name''
     in do { a \<leftarrow> a; b \<leftarrow> b; assert_that (a = b); assert_that (len i = 1) })"

definition get_returns_the_original_string :: "unit panics" where
  [test_eval]: "get_returns_the_original_string =
    (let i = interner_new 10; (i, id) = intern i ''http.method''
     in do { id \<leftarrow> id; s \<leftarrow> get i id; assert_that (s = ''http.method'') })"

definition cap_reached_refuses_new_strings_but_keeps_serving_existing_ones :: "unit panics" where
  [test_eval]: "cap_reached_refuses_new_strings_but_keeps_serving_existing_ones =
    (let i = interner_new 2; (i, a) = intern i ''a''; (i, b) = intern i ''b''
     in do { a \<leftarrow> a; b \<leftarrow> b;
             let (i, c) = intern i ''c'';
             assert_that (c = None);
             assert_that (cap_hit_count i = 1);
             let (i, a') = intern i ''a'';
             assert_that (a' = Some a);
             s \<leftarrow> get i b;
             assert_that (s = ''b'');
             assert_that (len i = 2) })"

definition lookup_finds_an_interned_string_without_mutating_and_misses_return_none :: "unit panics" where
  [test_eval]: "lookup_finds_an_interned_string_without_mutating_and_misses_return_none =
    (let i = interner_new 10; (i, id) = intern i ''http.method''
     in do { id \<leftarrow> id; assert_that (lookup i ''http.method'' = Some id);
             assert_that (lookup i ''never-interned'' = None); assert_that (len i = 1) })"

definition repeated_refusals_keep_counting :: "unit panics" where
  [test_eval]: "repeated_refusals_keep_counting =
    (let i = interner_new 1; (i, a) = intern i ''a''
     in do { a \<leftarrow> a;
             let (i, x) = intern i ''x'';
             assert_that (x = None);
             let (i, y) = intern i ''y'';
             assert_that (y = None);
             assert_that (cap_hit_count i = 2) })"

lemmas [test_eval] = intern_def lookup_def get_def cap_hit_count_def len_def interner_new_def vec_index_def

lemma interner_tests_pass:
  "interning_the_same_string_twice_returns_the_same_id = Some ()"
  "get_returns_the_original_string = Some ()"
  "cap_reached_refuses_new_strings_but_keeps_serving_existing_ones = Some ()"
  "lookup_finds_an_interned_string_without_mutating_and_misses_return_none = Some ()"
  "repeated_refusals_keep_counting = Some ()"
  by (simp_all add: test_eval Let_def)


section \<open>Trace\<close>

definition test_sid :: "u8 \<Rightarrow> span_id" where
  [test_eval]: "test_sid b = SpanId (replicate 8 b)"

definition test_span :: "u8 \<Rightarrow> u8 option \<Rightarrow> string \<Rightarrow> new_span" where
  [test_eval]: "test_span i parent nm =
    \<lparr>ns_span_id = test_sid i, ns_parent_span_id = map_option test_sid parent, ns_name = nm,
     ns_start_time_unix_nano = 100, ns_end_time_unix_nano = 200, ns_status_message = [], ns_status_code = 0,
     ns_unknown_service = False, ns_service_name = None, ns_attributes = []\<rparr>"

abbreviation fresh_trace :: trace where
  "fresh_trace \<equiv> trace_new (TraceId (replicate 16 0)) 0"

definition attr_offsets_len_is_always_span_count_plus_one :: "unit panics" where
  [test_eval]: "attr_offsets_len_is_always_span_count_plus_one =
    do { let t = fresh_trace;
         let interner = interner_new 100;
         assert_that (t_attr_offsets t = [0]);
         (t, interner, _) \<leftarrow> trace_insert t (test_span 1 None ''root'') None interner 0;
         assert_that (length (t_attr_offsets t) = 2);
         (t, interner, _) \<leftarrow> trace_insert t (test_span 2 (Some 1) ''child'') None interner 0;
         assert_that (length (t_attr_offsets t) = 3) }"

definition zero_attribute_span_gets_an_empty_slice :: "unit panics" where
  [test_eval]: "zero_attribute_span_gets_an_empty_slice =
    do { (t, interner, out) \<leftarrow> trace_insert fresh_trace (test_span 1 None ''root'') None (interner_new 100) 0;
         vs \<leftarrow> attributes t (local_idx out);
         assert_that (vs = []) }"

definition parent_first_resolves_immediately :: "unit panics" where
  [test_eval]: "parent_first_resolves_immediately =
    do { (t, interner, root) \<leftarrow> trace_insert fresh_trace (test_span 1 None ''root'') None (interner_new 100) 0;
         (t, interner, child) \<leftarrow> trace_insert t (test_span 2 (Some 1) ''child'') None interner 0;
         p \<leftarrow> parent_idx t (local_idx child);
         assert_that (p = Some (local_idx root));
         orphan \<leftarrow> is_orphan t (local_idx child);
         assert_that (\<not> orphan) }"

definition child_first_is_orphan_then_patches_when_parent_arrives :: "unit panics" where
  [test_eval]: "child_first_is_orphan_then_patches_when_parent_arrives =
    do { (t, interner, child) \<leftarrow> trace_insert fresh_trace (test_span 2 (Some 1) ''child'') None (interner_new 100) 0;
         orphan \<leftarrow> is_orphan t (local_idx child);
         assert_that orphan;
         p \<leftarrow> parent_idx t (local_idx child);
         assert_that (p = None);
         (t, interner, root) \<leftarrow> trace_insert t (test_span 1 None ''root'') None interner 0;
         orphan \<leftarrow> is_orphan t (local_idx child);
         assert_that (\<not> orphan);
         p \<leftarrow> parent_idx t (local_idx child);
         assert_that (p = Some (local_idx root)) }"

definition parent_never_arriving_renders_as_a_flagged_root :: "unit panics" where
  [test_eval]: "parent_never_arriving_renders_as_a_flagged_root =
    do { (t, interner, child) \<leftarrow> trace_insert fresh_trace (test_span 2 (Some 99) ''child'') None (interner_new 100) 0;
         orphan \<leftarrow> is_orphan t (local_idx child);
         assert_that orphan;
         p \<leftarrow> parent_idx t (local_idx child);
         assert_that (p = None);
         assert_that (span_count t = 1) }"

definition duplicate_span_id_overwrites_in_place_without_growing_span_count :: "unit panics" where
  [test_eval]: "duplicate_span_id_overwrites_in_place_without_growing_span_count =
    do { (t, interner, first) \<leftarrow> trace_insert fresh_trace (test_span 1 None ''root'') None (interner_new 100) 0;
         let updated = (test_span 1 None ''root-renamed'')\<lparr>ns_end_time_unix_nano := 999\<rparr>;
         (t, interner, second) \<leftarrow> trace_insert t updated None interner 5;
         assert_that (span_count t = 1);
         assert_that (is_duplicate second);
         assert_that (local_idx second = local_idx first);
         nm \<leftarrow> name t (local_idx first);
         assert_that (nm = ''root-renamed'');
         assert_that (t_last_activity t = 5) }"

definition duplicate_with_different_attribute_count_keeps_csr_offsets_consistent :: "unit panics" where
  [test_eval]: "duplicate_with_different_attribute_count_keeps_csr_offsets_consistent =
    do { let first = (test_span 1 None ''a'')\<lparr>ns_attributes := [(''k1'', Bool True)]\<rparr>;
         (t, interner, _) \<leftarrow> trace_insert fresh_trace first None (interner_new 100) 0;
         (t, interner, second_span) \<leftarrow> trace_insert t (test_span 2 None ''b'') None interner 0;
         let retry = (test_span 1 None ''a'')\<lparr>ns_attributes :=
           [(''k1'', Bool False), (''k2'', Int64 7), (''k3'', Double 0x3FF8000000000000)]\<rparr>;
         (t, interner, _) \<leftarrow> trace_insert t retry None interner 1;
         vs \<leftarrow> attributes t 0;
         assert_that (length vs = 3);
         ws \<leftarrow> attributes t (local_idx second_span);
         assert_that (length ws = 0);
         assert_that (length (t_attr_offsets t) = span_count t + 1) }"

definition attribute_key_refused_by_a_full_interner_drops_only_that_pair :: "unit panics" where
  [test_eval]: "attribute_key_refused_by_a_full_interner_drops_only_that_pair =
    do { let (interner, full) = intern (interner_new 1) ''already-full'';
         _ \<leftarrow> full;
         let s = (test_span 1 None ''root'')\<lparr>ns_attributes := [(''brand-new-key'', Str ''x'')]\<rparr>;
         (t, interner, out) \<leftarrow> trace_insert fresh_trace s None interner 0;
         assert_that (span_count t = 1);
         vs \<leftarrow> attributes t (local_idx out);
         assert_that (length vs = 0);
         assert_that (cap_hit_count interner = 1) }"

definition service_name_id_round_trips_and_dedupe_overwrites_it :: "unit panics" where
  [test_eval]: "service_name_id_round_trips_and_dedupe_overwrites_it =
    do { (t, interner, first) \<leftarrow> trace_insert fresh_trace (test_span 1 None ''a'') (Some 7) (interner_new 100) 0;
         id \<leftarrow> service_name_id t (local_idx first);
         assert_that (id = Some 7);
         (t, interner, second) \<leftarrow> trace_insert t (test_span 1 None ''a'') (Some 9) interner 1;
         id \<leftarrow> service_name_id t (local_idx second);
         assert_that (id = Some 9) }"

definition duration_nanos_spans_the_earliest_start_to_latest_end :: "unit panics" where
  [test_eval]: "duration_nanos_spans_the_earliest_start_to_latest_end =
    do { let root = (test_span 1 None ''root'')\<lparr>ns_start_time_unix_nano := 100, ns_end_time_unix_nano := 500\<rparr>;
         (t, interner, _) \<leftarrow> trace_insert fresh_trace root None (interner_new 100) 0;
         let child = (test_span 2 (Some 1) ''child'')\<lparr>ns_start_time_unix_nano := 150, ns_end_time_unix_nano := 900\<rparr>;
         (t, interner, _) \<leftarrow> trace_insert t child None interner 0;
         assert_that (duration_nanos t = Some 800) }"

definition duration_nanos_is_none_for_an_empty_trace :: "unit panics" where
  [test_eval]: "duration_nanos_is_none_for_an_empty_trace = assert_that (duration_nanos fresh_trace = None)"

definition duration_nanos_is_none_rather_than_underflow_on_end_before_start :: "unit panics" where
  [test_eval]: "duration_nanos_is_none_rather_than_underflow_on_end_before_start =
    do { let malformed = (test_span 1 None ''root'')\<lparr>ns_start_time_unix_nano := 500, ns_end_time_unix_nano := 100\<rparr>;
         (t, interner, _) \<leftarrow> trace_insert fresh_trace malformed None (interner_new 100) 0;
         assert_that (duration_nanos t = None) }"

definition status_code_round_trips_and_dedupe_overwrites_it :: "unit panics" where
  [test_eval]: "status_code_round_trips_and_dedupe_overwrites_it =
    do { let ok = (test_span 1 None ''root'')\<lparr>ns_status_code := 1\<rparr>;
         (t, interner, first) \<leftarrow> trace_insert fresh_trace ok None (interner_new 100) 0;
         code \<leftarrow> status_code t (local_idx first);
         assert_that (code = 1);
         let err = (test_span 1 None ''root'')\<lparr>ns_status_code := 2\<rparr>;
         (t, interner, second) \<leftarrow> trace_insert t err None interner 1;
         code \<leftarrow> status_code t (local_idx second);
         assert_that (code = 2) }"

lemmas [test_eval] = trace_new_def trace_insert_def resolve_parent_def patch_children_def overwrite_at_def
  shift_offset_def vec_set_def vec_slice_def vec_splice_def span_count_def parent_idx_def is_orphan_def
  attributes_def name_def service_name_id_def status_code_def duration_nanos_def checked_sub_def

lemma trace_tests_pass:
  "attr_offsets_len_is_always_span_count_plus_one = Some ()"
  "zero_attribute_span_gets_an_empty_slice = Some ()"
  "parent_first_resolves_immediately = Some ()"
  "child_first_is_orphan_then_patches_when_parent_arrives = Some ()"
  "parent_never_arriving_renders_as_a_flagged_root = Some ()"
  "duplicate_span_id_overwrites_in_place_without_growing_span_count = Some ()"
  "duplicate_with_different_attribute_count_keeps_csr_offsets_consistent = Some ()"
  "attribute_key_refused_by_a_full_interner_drops_only_that_pair = Some ()"
  "service_name_id_round_trips_and_dedupe_overwrites_it = Some ()"
  "duration_nanos_spans_the_earliest_start_to_latest_end = Some ()"
  "duration_nanos_is_none_for_an_empty_trace = Some ()"
  "duration_nanos_is_none_rather_than_underflow_on_end_before_start = Some ()"
  "status_code_round_trips_and_dedupe_overwrites_it = Some ()"
  by (simp_all add: test_eval Let_def)

end
