(* ===== verification/Ingest_Tests.thy ===== *)
theory Ingest_Tests
  imports Handler Sniff Trace_Tests
begin

text \<open>
  The unit tests of \<open>src/ingest/\<close>, run on the model as in \<open>Trace_Tests\<close>: \<open>convert.rs\<close>, \<open>receiver_state.rs\<close>, \<open>handler.rs\<close>,
  \<open>http.rs\<close> and the first of \<open>sniff.rs\<close>.  A test that encodes a request has the encoder as a parameter, and the
  decoder of its environment is assumed to invert it on that request; the tests of the codec crates
  themselves and those that need a real socket are left out.
\<close>

section \<open>Conversion\<close>

definition kv :: "string \<Rightarrow> any_value \<Rightarrow> key_value" where
  [test_eval]: "kv key v = \<lparr>kv_key = key, kv_value = Some (Some v)\<rparr>"

definition minimal_span :: "u8 list \<Rightarrow> u8 list \<Rightarrow> u8 list option \<Rightarrow> pb_span" where
  [test_eval]: "minimal_span tid sid parent =
    \<lparr>pb_trace_id = tid, pb_span_id = sid, pb_parent_span_id = (case parent of Some p \<Rightarrow> p | None \<Rightarrow> []),
     pb_name = ''op'', pb_start_time_unix_nano = 1, pb_end_time_unix_nano = 2, pb_attributes = [],
     pb_status = Some \<lparr>pb_message = [], pb_code = 0\<rparr>\<rparr>"

definition resource_spans_with :: "string option \<Rightarrow> pb_span list \<Rightarrow> resource_spans" where
  [test_eval]: "resource_spans_with service spans =
    \<lparr>rs_resource = map_option (\<lambda>nm. [kv ''service.name'' (StringValue nm)]) service, rs_scope_spans = [spans]\<rparr>"

text \<open>\<open>unwrap\<close> and \<open>unwrap_err\<close> on the result of \<open>convert\<close> without the panic-injection feature.\<close>
definition converted :: "request \<Rightarrow> span_batch panics" where
  [test_eval]: "converted req =
    do { r \<leftarrow> convert False req; case r of Inr b \<Rightarrow> Some b | Inl _ \<Rightarrow> None }"

definition refused :: "request \<Rightarrow> reject_reason panics" where
  [test_eval]: "refused req =
    do { r \<leftarrow> convert False req; case r of Inl e \<Rightarrow> Some e | Inr _ \<Rightarrow> None }"

definition zero_resource_spans_is_empty_payload :: "unit panics" where
  [test_eval]: "zero_resource_spans_is_empty_payload =
    do { e \<leftarrow> refused []; assert_that (e = EmptyPayload) }"

definition zero_spans_inside_present_resource_spans_is_also_empty_payload :: "unit panics" where
  [test_eval]: "zero_spans_inside_present_resource_spans_is_also_empty_payload =
    do { e \<leftarrow> refused [resource_spans_with (Some ''checkout'') []]; assert_that (e = EmptyPayload) }"

definition a_well_formed_span_converts_with_known_service :: "unit panics" where
  [test_eval]: "a_well_formed_span_converts_with_known_service =
    do { let pb = minimal_span (replicate 16 1) (replicate 8 2) None;
         batch \<leftarrow> converted [resource_spans_with (Some ''checkout'') [pb]];
         assert_that (\<not> sb_partial batch);
         assert_that (sb_malformed_span_count batch = 0);
         assert_that (length (sb_spans batch) = 1);
         (tid, new_span) \<leftarrow> vec_index (sb_spans batch) 0;
         assert_that (tid = TraceId (replicate 16 1));
         assert_that (ns_span_id new_span = SpanId (replicate 8 2));
         assert_that (\<not> ns_unknown_service new_span);
         assert_that (ns_service_name new_span = Some ''checkout'') }"

definition status_code_carries_through_from_the_proto :: "unit panics" where
  [test_eval]: "status_code_carries_through_from_the_proto =
    do { let pb = (minimal_span (replicate 16 1) (replicate 8 2) None)
           \<lparr>pb_status := Some \<lparr>pb_message = ''boom'', pb_code = 2\<rparr>\<rparr>;
         batch \<leftarrow> converted [resource_spans_with (Some ''svc'') [pb]];
         x \<leftarrow> vec_index (sb_spans batch) 0;
         assert_that (ns_status_code (snd x) = 2);
         assert_that (ns_status_message (snd x) = ''boom'') }"

definition missing_service_name_flags_unknown_service_but_still_accepts_the_span :: "unit panics" where
  [test_eval]: "missing_service_name_flags_unknown_service_but_still_accepts_the_span =
    do { let pb = minimal_span (replicate 16 1) (replicate 8 2) None;
         batch \<leftarrow> converted [resource_spans_with None [pb]];
         assert_that (length (sb_spans batch) = 1);
         x \<leftarrow> vec_index (sb_spans batch) 0;
         assert_that (ns_unknown_service (snd x)) }"

definition a_malformed_trace_id_drops_only_that_span_and_flags_partial :: "unit panics" where
  [test_eval]: "a_malformed_trace_id_drops_only_that_span_and_flags_partial =
    do { let ok = minimal_span (replicate 16 1) (replicate 8 2) None;
         let bad = (minimal_span (replicate 16 1) (replicate 8 3) None)\<lparr>pb_trace_id := replicate 15 0xFF\<rparr>;
         batch \<leftarrow> converted [resource_spans_with (Some ''svc'') [ok, bad]];
         assert_that (sb_partial batch);
         assert_that (sb_malformed_span_count batch = 1);
         assert_that (length (sb_spans batch) = 1) }"

definition parent_span_id_carries_through_when_present :: "unit panics" where
  [test_eval]: "parent_span_id_carries_through_when_present =
    do { let pb = minimal_span (replicate 16 1) (replicate 8 2) (Some (replicate 8 9));
         batch \<leftarrow> converted [resource_spans_with (Some ''svc'') [pb]];
         x \<leftarrow> vec_index (sb_spans batch) 0;
         assert_that (ns_parent_span_id (snd x) = Some (SpanId (replicate 8 9))) }"

definition scalar_attribute_kinds_convert_and_unsupported_kinds_are_dropped :: "unit panics" where
  [test_eval]: "scalar_attribute_kinds_convert_and_unsupported_kinds_are_dropped =
    do { let pb = (minimal_span (replicate 16 1) (replicate 8 2) None)\<lparr>pb_attributes :=
           [kv ''s'' (StringValue ''x''), kv ''i'' (IntValue 7), kv ''d'' (DoubleValue 0x3FF8000000000000),
            kv ''b'' (BoolValue True), kv ''arr'' ArrayValue]\<rparr>;
         batch \<leftarrow> converted [resource_spans_with (Some ''svc'') [pb]];
         x \<leftarrow> vec_index (sb_spans batch) 0;
         assert_that (length (ns_attributes (snd x)) = 4) }"

lemmas [test_eval] = convert_def convert_resource_def convert_span_def service_name_of_def trace_id_of_def
  span_id_of_def attr_of_def List.map_filter_simps

lemma convert_tests_pass:
  "zero_resource_spans_is_empty_payload = Some ()"
  "zero_spans_inside_present_resource_spans_is_also_empty_payload = Some ()"
  "a_well_formed_span_converts_with_known_service = Some ()"
  "status_code_carries_through_from_the_proto = Some ()"
  "missing_service_name_flags_unknown_service_but_still_accepts_the_span = Some ()"
  "a_malformed_trace_id_drops_only_that_span_and_flags_partial = Some ()"
  "parent_span_id_carries_through_when_present = Some ()"
  "scalar_attribute_kinds_convert_and_unsupported_kinds_are_dropped = Some ()"
  by (simp_all add: test_eval Let_def)

text \<open>The round trips and the malformed bodies, for the decoders of the libraries.\<close>
definition protobuf_round_trip_decodes ::
    "(u8 list \<Rightarrow> string + request) \<Rightarrow> (u8 list \<Rightarrow> string + request) \<Rightarrow> (request \<Rightarrow> u8 list) \<Rightarrow> unit panics" where
  [test_eval]: "protobuf_round_trip_decodes pb json encode_to_vec =
    do { let req = [resource_spans_with (Some ''svc'') [minimal_span (replicate 16 1) (replicate 8 2) None]];
         decoded \<leftarrow> (case decode pb json (encode_to_vec req) Protobuf of Inr r \<Rightarrow> Some r | Inl _ \<Rightarrow> None);
         assert_that (length decoded = 1) }"

definition truncated_protobuf_is_a_typed_decode_error_not_a_panic ::
    "(u8 list \<Rightarrow> string + request) \<Rightarrow> (u8 list \<Rightarrow> string + request) \<Rightarrow> unit panics" where
  [test_eval]: "truncated_protobuf_is_a_typed_decode_error_not_a_panic pb json =
    do { err \<leftarrow> (case decode pb json [0xFF, 0xFF, 0xFF] Protobuf of Inl e \<Rightarrow> Some e | Inr _ \<Rightarrow> None);
         assert_that (case err of DecodeError _ \<Rightarrow> True | _ \<Rightarrow> False) }"

definition json_round_trip_decodes ::
    "(u8 list \<Rightarrow> string + request) \<Rightarrow> (u8 list \<Rightarrow> string + request) \<Rightarrow> (request \<Rightarrow> u8 list) \<Rightarrow> unit panics" where
  [test_eval]: "json_round_trip_decodes pb json to_vec =
    do { let req = [resource_spans_with (Some ''svc'') [minimal_span (replicate 16 1) (replicate 8 2) None]];
         decoded \<leftarrow> (case decode pb json (to_vec req) Json of Inr r \<Rightarrow> Some r | Inl _ \<Rightarrow> None);
         assert_that (length decoded = 1) }"

definition malformed_json_is_a_typed_decode_error_not_a_panic ::
    "(u8 list \<Rightarrow> string + request) \<Rightarrow> (u8 list \<Rightarrow> string + request) \<Rightarrow> unit panics" where
  [test_eval]: "malformed_json_is_a_typed_decode_error_not_a_panic pb json =
    do { err \<leftarrow> (case decode pb json (bytes_of ''{not json'') Json of Inl e \<Rightarrow> Some e | Inr _ \<Rightarrow> None);
         assert_that (case err of DecodeError _ \<Rightarrow> True | _ \<Rightarrow> False) }"

lemma decode_tests_pass:
  "(\<And>req. pb (encode_to_vec req) = Inr req) \<Longrightarrow> protobuf_round_trip_decodes pb json encode_to_vec = Some ()"
  "pb [0xFF, 0xFF, 0xFF] = Inl e \<Longrightarrow> truncated_protobuf_is_a_typed_decode_error_not_a_panic pb json = Some ()"
  "(\<And>req. json (to_vec req) = Inr req) \<Longrightarrow> json_round_trip_decodes pb json to_vec = Some ()"
  "json (bytes_of ''{not json'') = Inl e \<Longrightarrow> malformed_json_is_a_typed_decode_error_not_a_panic pb json = Some ()"
  by (simp_all add: protobuf_round_trip_decodes_def truncated_protobuf_is_a_typed_decode_error_not_a_panic_def
      json_round_trip_decodes_def malformed_json_is_a_typed_decode_error_not_a_panic_def decode_def assert_that_def)

section \<open>Receiver state\<close>

definition push_records_in_order :: "unit panics" where
  [test_eval]: "push_records_in_order =
    (let log = rejects receiver_default; log = push log ''EmptyPayload'' 1; log = push log ''DecodeError'' 2
     in assert_that (map rr_reason (recent log) = [''EmptyPayload'', ''DecodeError'']))"

definition wraps_oldest_first_at_capacity :: "unit panics" where
  "wraps_oldest_first_at_capacity =
    (let log = foldl (\<lambda>log i. push log (''reject-'' @ nat_to_string i) (of_nat i)) (rejects receiver_default)
           [0..<REJECT_RING_CAPACITY + 3]
     in do { assert_that (reject_log_len log = REJECT_RING_CAPACITY);
             first \<leftarrow> vec_index (recent log) 0;
             assert_that (rr_reason first = ''reject-3'') })"

definition arrival_counts_accumulate_per_transport_independently :: "unit panics" where
  [test_eval]: "arrival_counts_accumulate_per_transport_independently =
    (let counts = arrivals receiver_default;
         counts = record_arrivals counts GrpcV4317 5;
         counts = record_arrivals counts HttpProtobufV4318 2;
         counts = record_arrivals counts GrpcV4317 3
     in do { assert_that (grpc_v4317 counts = 8);
             assert_that (http_protobuf_v4318 counts = 2);
             assert_that (http_json_v4318 counts = 0) })"

lemmas [test_eval] = receiver_default_def push_def recent_def reject_log_len_def record_arrivals_def
  REJECT_RING_CAPACITY_def

lemma receiver_state_tests_pass:
  "push_records_in_order = Some ()"
  "wraps_oldest_first_at_capacity = Some ()"
  "arrival_counts_accumulate_per_transport_independently = Some ()"
proof -
  show "wraps_oldest_first_at_capacity = Some ()" by code_simp
qed (simp_all add: test_eval Let_def)

section \<open>Handler\<close>

text \<open>A channel that nobody drains, and a state that sends on it.\<close>
definition state_with_capacity :: "nat \<Rightarrow> nat \<Rightarrow> channel ingest_state" where
  [test_eval]: "state_with_capacity capacity timeout =
    ingest_state_new \<lparr>ch_queue = [], ch_capacity = capacity, ch_open = True\<rparr> receiver_default timeout"

definition span_request :: request where
  [test_eval]: "span_request =
    [\<lparr>rs_resource = None, rs_scope_spans = [[minimal_span (replicate 16 1) (replicate 8 2) None]]\<rparr>]"

definition accepted_batch_reaches_the_writer_channel :: "unit panics" where
  [test_eval]: "accepted_batch_reaches_the_writer_channel =
    do { let (st, r) = accept sample_env None (state_with_capacity 8 1) span_request GrpcV4317;
         assert_that (r = Inr ());
         batch \<leftarrow> vec_index (ch_queue (tx st)) 0;
         assert_that (length (sb_spans batch) = 1) }"

definition accepted_batch_bumps_the_arrival_count_for_its_transport :: "unit panics" where
  [test_eval]: "accepted_batch_bumps_the_arrival_count_for_its_transport =
    do { let (st, r) = accept sample_env None (state_with_capacity 8 1) span_request HttpJsonV4318;
         assert_that (r = Inr ());
         assert_that (http_json_v4318 (arrivals (receiver st)) = 1);
         assert_that (grpc_v4317 (arrivals (receiver st)) = 0) }"

definition empty_payload_is_rejected_and_recorded :: "unit panics" where
  [test_eval]: "empty_payload_is_rejected_and_recorded =
    do { let (st, r) = accept sample_env None (state_with_capacity 8 1) [] GrpcV4317;
         assert_that (r = Inl (Reject EmptyPayload));
         assert_that (reject_log_len (rejects (receiver st)) = 1) }"

definition catch_conversion_panic_passes_through_a_normal_result :: "unit panics" where
  [test_eval]: "catch_conversion_panic_passes_through_a_normal_result =
    assert_that (catch_conversion_panic (Some (42 :: i32)) = Inr 42)"

definition catch_conversion_panic_maps_a_panic_to_err_instead_of_unwinding :: "unit panics" where
  [test_eval]: "catch_conversion_panic_maps_a_panic_to_err_instead_of_unwinding =
    assert_that (catch_conversion_panic (None :: unit panics) = Inl ())"

definition a_full_channel_times_out_as_backpressure_not_a_hang :: "unit panics" where
  [test_eval]: "a_full_channel_times_out_as_backpressure_not_a_hang =
    do { let (st, r) = accept sample_env None (state_with_capacity 1 10) span_request GrpcV4317;
         assert_that (r = Inr ());
         let (st, r) = accept sample_env None st span_request GrpcV4317;
         assert_that (r = Inl Backpressure) }"

lemmas [test_eval] = ingest_state_new_def accept_def catch_conversion_panic_def record_reject_def debug_reason_def
  sample_env_def bounded_send_def

lemma handler_tests_pass:
  "accepted_batch_reaches_the_writer_channel = Some ()"
  "accepted_batch_bumps_the_arrival_count_for_its_transport = Some ()"
  "empty_payload_is_rejected_and_recorded = Some ()"
  "catch_conversion_panic_passes_through_a_normal_result = Some ()"
  "catch_conversion_panic_maps_a_panic_to_err_instead_of_unwinding = Some ()"
  "a_full_channel_times_out_as_backpressure_not_a_hang = Some ()"
  by (simp_all add: test_eval Let_def)

section \<open>OTLP over HTTP\<close>

text \<open>The environment of a server with the given decoders.\<close>
definition decoding_env :: "(u8 list \<Rightarrow> string + request) \<Rightarrow> (u8 list \<Rightarrow> string + request) \<Rightarrow> channel ingest_env" where
  [test_eval]: "decoding_env pb json = sample_env\<lparr>decode_pb := pb, decode_json := json\<rparr>"

text \<open>The state behind \<open>test_router\<close>.\<close>
definition test_router :: "nat \<Rightarrow> channel ingest_state" where
  [test_eval]: "test_router capacity =
    ingest_state_new \<lparr>ch_queue = [], ch_capacity = capacity, ch_open = True\<rparr> receiver_default 1"

definition one_span_request :: request where
  [test_eval]: "one_span_request =
    [\<lparr>rs_resource = None, rs_scope_spans = [[
       \<lparr>pb_trace_id = replicate 16 1, pb_span_id = replicate 8 2, pb_parent_span_id = [],
        pb_name = ''op'', pb_start_time_unix_nano = 1, pb_end_time_unix_nano = 2, pb_attributes = [],
        pb_status = Some \<lparr>pb_message = [], pb_code = 0\<rparr>\<rparr>]]\<rparr>]"

definition protobuf_body_is_accepted_and_reaches_the_writer ::
    "channel ingest_env \<Rightarrow> (request \<Rightarrow> u8 list) \<Rightarrow> unit panics" where
  [test_eval]: "protobuf_body_is_accepted_and_reaches_the_writer env encode_to_vec =
    do { let (st, response) = http_export env None (test_router 8) (Some ''application/x-protobuf'')
           (encode_to_vec one_span_request);
         assert_that (status response = 200);
         batch \<leftarrow> vec_index (ch_queue (tx st)) 0;
         assert_that (length (sb_spans batch) = 1) }"

definition json_body_is_accepted_and_reaches_the_writer ::
    "channel ingest_env \<Rightarrow> (request \<Rightarrow> u8 list) \<Rightarrow> unit panics" where
  [test_eval]: "json_body_is_accepted_and_reaches_the_writer env to_vec =
    do { let (st, response) = http_export env None (test_router 8) (Some ''application/json'')
           (to_vec one_span_request);
         assert_that (status response = 200);
         batch \<leftarrow> vec_index (ch_queue (tx st)) 0;
         assert_that (length (sb_spans batch) = 1) }"

definition truncated_protobuf_body_is_a_400_not_a_panic :: "channel ingest_env \<Rightarrow> unit panics" where
  [test_eval]: "truncated_protobuf_body_is_a_400_not_a_panic env =
    (let (st, response) = http_export env None (test_router 8) (Some ''application/x-protobuf'') [0xFF, 0xFF, 0xFF]
     in assert_that (status response = 400))"

definition empty_payload_is_a_200_not_a_reject ::
    "channel ingest_env \<Rightarrow> (request \<Rightarrow> u8 list) \<Rightarrow> unit panics" where
  [test_eval]: "empty_payload_is_a_200_not_a_reject env encode_to_vec =
    (let (st, response) = http_export env None (test_router 8) (Some ''application/x-protobuf'') (encode_to_vec [])
     in assert_that (status response = 200))"

lemmas [test_eval] = http_export_def http_reply_def status_only_def content_type_of_def decode_def starts_with_def

lemma http_tests_pass:
  "pb (encode_to_vec one_span_request) = Inr one_span_request \<Longrightarrow>
    protobuf_body_is_accepted_and_reaches_the_writer (decoding_env pb json) encode_to_vec = Some ()"
  "json (to_vec one_span_request) = Inr one_span_request \<Longrightarrow>
    json_body_is_accepted_and_reaches_the_writer (decoding_env pb json) to_vec = Some ()"
  "pb [0xFF, 0xFF, 0xFF] = Inl e \<Longrightarrow> truncated_protobuf_body_is_a_400_not_a_panic (decoding_env pb json) = Some ()"
  "pb (encode_to_vec []) = Inr [] \<Longrightarrow> empty_payload_is_a_200_not_a_reject (decoding_env pb json) encode_to_vec = Some ()"
  by (simp_all add: test_eval Let_def)

section \<open>The fork on the gRPC port\<close>

text \<open>What the peer of a rejected connection reads.\<close>
definition otlp_http_sent_to_the_grpc_port_gets_a_400_naming_the_fix :: "unit panics" where
  "otlp_http_sent_to_the_grpc_port_gets_a_400_naming_the_fix =
    (let request = ''POST /v1/traces HTTP/1.1'' @ CRLF @ ''Host: localhost'' @ CRLF @ ''Content-Length: 0'' @ CRLF @ CRLF
     in do { (r, _) \<leftarrow> serve_step True (Connection () (\<lambda>_. PeekOk (take 4 (bytes_of request))));
             assert_that (r = Some (Reject400 ()));
             let response = reject_response;
             assert_that (starts_with response ''HTTP/1.1 400'');
             assert_that (str_contains response ''4318'') })"

lemma sniff_test_passes: "otlp_http_sent_to_the_grpc_port_gets_a_400_naming_the_fix = Some ()"
  by code_simp

text \<open>The listener of the tests: the state of its gRPC server, whose requests come through the fork.\<close>
definition spawn_sniffing_listener :: "channel ingest_state" where
  [test_eval]: "spawn_sniffing_listener =
    ingest_state_new \<lparr>ch_queue = [], ch_capacity = 8, ch_open = True\<rparr> receiver_default 1"

definition sniff_one_span_request :: request where
  [test_eval]: "sniff_one_span_request =
    [\<lparr>rs_resource = None, rs_scope_spans = [[
       \<lparr>pb_trace_id = replicate 16 1, pb_span_id = replicate 8 2, pb_parent_span_id = [],
        pb_name = ''op'', pb_start_time_unix_nano = 1, pb_end_time_unix_nano = 2, pb_attributes = [],
        pb_status = Some \<lparr>pb_message = [], pb_code = 0\<rparr>\<rparr>]]\<rparr>]"

text \<open>A gRPC client opens its connection with the HTTP/2 preface, \<open>PRI\<close> and a space first.\<close>
definition a_real_grpc_client_still_reaches_the_writer_through_the_sniffing_listener :: "unit panics" where
  [test_eval]: "a_real_grpc_client_still_reaches_the_writer_through_the_sniffing_listener =
    do { (r, _) \<leftarrow> serve_step True (Connection () (\<lambda>_. PeekOk (take 4 (bytes_of (''PRI * HTTP/2.0'' @ CRLF)))));
         assert_that (r = Some (ToGrpc ()));
         let (st, reply) = grpc_export sample_env None spawn_sniffing_listener sniff_one_span_request;
         assert_that (reply = GrpcOk);
         batch \<leftarrow> vec_index (ch_queue (tx st)) 0;
         assert_that (length (sb_spans batch) = 1) }"

lemma grpc_client_test_passes: "a_real_grpc_client_still_reaches_the_writer_through_the_sniffing_listener = Some ()"
proof -
  have "looks_like_h2_preface (\<lambda>_. PeekOk (take 4 (bytes_of (''PRI * HTTP/2.0'' @ CRLF)))) = Some True" by code_simp
  then have "serve_step True (Connection () (\<lambda>_. PeekOk (take 4 (bytes_of (''PRI * HTTP/2.0'' @ CRLF))))) = Some (Some (ToGrpc ()), True)"
    by (simp only: serve_step_def accepted.case option.map if_True)
  then show ?thesis
    unfolding a_real_grpc_client_still_reaches_the_writer_through_the_sniffing_listener_def
    by (simp only: Option.bind.bind_lunit prod.case) (simp add: test_eval Let_def grpc_export_def grpc_reply_of_def)
qed

end
