(* ===== verification/Sample_Web.thy ===== *)
theory Sample_Web
  imports Client
begin

text \<open>
  One concrete choice of the libraries between the Read API and its client, to show that what \<open>Client\<close>
  assumes of them can hold: a matcher by segments, a length-prefixed codec for documents, and an
  instance whose answers come from given states.
\<close>

section \<open>Routes by segments\<close>

fun segments :: "string \<Rightarrow> string list" where
  "segments [] = [[]]"
| "segments (c # cs) =
    (if c = CHR ''/'' then [] # segments cs
     else case segments cs of [] \<Rightarrow> [[c]] | s # ss \<Rightarrow> (c # s) # ss)"

fun match_segments :: "string list \<Rightarrow> string list \<Rightarrow> string list option" where
  "match_segments [] [] = Some []"
| "match_segments (p # ps) (s # ss) =
    (if starts_with p ''{'' then (if s = [] then None else map_option ((#) s) (match_segments ps ss))
     else if p = s then match_segments ps ss else None)"
| "match_segments _ _ = None"

fun sample_route :: "string list \<Rightarrow> string \<Rightarrow> (string \<times> string list) option" where
  "sample_route [] path = None"
| "sample_route (p # ps) path =
    (case match_segments (segments p) (segments path) of Some args \<Rightarrow> Some (p, args) | None \<Rightarrow> sample_route ps path)"

lemma segments_plain: "CHR ''/'' \<notin> set s \<Longrightarrow> segments s = [s]"
  by (induction s) auto

lemma matches_routes_sample: "matches_routes sample_route"
proof -
  have "CHR ''/'' \<notin> set p" if "is_plain p" for p
    using that by (auto simp: is_plain_def is_ascii_alphabetic_def is_ascii_digit_def byte_def dest!: bspec [of _ _ "CHR ''/''"])
  then show ?thesis
    by (auto simp: matches_routes_def API_ROUTES_def starts_with_def segments_plain is_plain_def)
qed

section \<open>A codec for documents\<close>

definition enc_nat :: "nat \<Rightarrow> u8 list" where
  "enc_nat n = replicate n 1 @ [0]"

fun dec_nat :: "u8 list \<Rightarrow> (nat \<times> u8 list) option" where
  "dec_nat [] = None"
| "dec_nat (b # bs) = (if b = 0 then Some (0, bs) else map_option (apfst Suc) (dec_nat bs))"

lemma dec_enc_nat [simp]: "dec_nat (enc_nat n @ rest) = Some (n, rest)"
  by (induction n) (simp_all add: enc_nat_def)

definition enc_string :: "string \<Rightarrow> u8 list" where
  "enc_string s = enc_nat (length s) @ bytes_of s"

definition dec_string :: "u8 list \<Rightarrow> (string \<times> u8 list) option" where
  "dec_string bs = do { (n, bs) \<leftarrow> dec_nat bs; Some (text_of (take n bs), drop n bs) }"

lemma dec_enc_string [simp]: "dec_string (enc_string s @ rest) = Some (s, rest)"
  by (simp add: dec_string_def enc_string_def)

fun enc :: "json \<Rightarrow> u8 list" where
  "enc JNull = [0]"
| "enc (JBool b) = [if b then 2 else 1]"
| "enc (JInt i) = (if i < 0 then 4 else 3) # enc_nat (nat \<bar>i\<bar>)"
| "enc (JFloat d) = [0]"
| "enc (JStr s) = 5 # enc_string s"
| "enc (JArr xs) = 6 # enc_nat (length xs) @ concat (map enc xs)"
| "enc (JObj kvs) = 7 # enc_nat (length kvs) @ concat (map (\<lambda>kv. enc_string (fst kv) @ enc (snd kv)) kvs)"

primrec times :: "(u8 list \<Rightarrow> ('a \<times> u8 list) option) \<Rightarrow> nat \<Rightarrow> u8 list \<Rightarrow> ('a list \<times> u8 list) option" where
  "times p 0 bs = Some ([], bs)"
| "times p (Suc n) bs = do { (x, bs) \<leftarrow> p bs; (xs, bs) \<leftarrow> times p n bs; Some (x # xs, bs) }"

primrec dec :: "nat \<Rightarrow> u8 list \<Rightarrow> (json \<times> u8 list) option" where
  "dec 0 bs = None"
| "dec (Suc fuel) bs =
    (case bs of
       [] \<Rightarrow> None
     | b # bs \<Rightarrow>
         if b = 0 then Some (JNull, bs)
         else if b = 1 then Some (JBool False, bs)
         else if b = 2 then Some (JBool True, bs)
         else if b = 3 then map_option (apfst (\<lambda>n. JInt (int n))) (dec_nat bs)
         else if b = 4 then map_option (apfst (\<lambda>n. JInt (- int n))) (dec_nat bs)
         else if b = 5 then map_option (apfst JStr) (dec_string bs)
         else if b = 6 then do { (n, bs) \<leftarrow> dec_nat bs; map_option (apfst JArr) (times (dec fuel) n bs) }
         else do { (n, bs) \<leftarrow> dec_nat bs;
                   map_option (apfst JObj)
                     (times (\<lambda>bs. do { (k, bs) \<leftarrow> dec_string bs; (v, bs) \<leftarrow> dec fuel bs; Some ((k, v), bs) }) n bs) })"

lemma times_enc:
  assumes "\<And>x rest. x \<in> set xs \<Longrightarrow> p (e x @ rest) = Some (x, rest)"
  shows "times p (length xs) (concat (map e xs) @ rest) = Some (xs, rest)"
  using assms by (induction xs) simp_all

text \<open>As much fuel as there are bytes is enough.\<close>
lemma dec_enc: "exact v \<Longrightarrow> length (enc v) \<le> fuel \<Longrightarrow> dec fuel (enc v @ rest) = Some (v, rest)"
proof (induction v arbitrary: fuel rest rule: enc.induct)
  case (3 i)
  then show ?case by (cases fuel) auto
next
  case (5 s)
  then show ?case by (cases fuel) auto
next
  case (6 xs)
  then obtain f where f: "fuel = Suc f" by (cases fuel) auto
  have "times (dec f) (length xs) (concat (map enc xs) @ rest) = Some (xs, rest)"
  proof (rule times_enc)
    fix x rest assume x: "x \<in> set xs"
    then have "length (enc x) \<le> length (concat (map enc xs))" by (simp add: length_concat elem_le_sum_list member_le_sum_list)
    with 6 x f show "dec f (enc x @ rest) = Some (x, rest)" by simp
  qed
  then show ?case by (simp add: f)
next
  case (7 kvs)
  then obtain f where f: "fuel = Suc f" by (cases fuel) auto
  let ?e = "\<lambda>kv. enc_string (fst kv) @ enc (snd kv)"
  have "times (\<lambda>bs. do { (k, bs) \<leftarrow> dec_string bs; (v, bs) \<leftarrow> dec f bs; Some ((k, v), bs) })
      (length kvs) (concat (map ?e kvs) @ rest) = Some (kvs, rest)"
  proof (rule times_enc)
    fix kv rest assume kv: "kv \<in> set kvs"
    then have "length (?e kv) \<le> length (concat (map ?e kvs))" by (simp add: length_concat member_le_sum_list)
    with 7 kv f have "dec f (enc (snd kv) @ rest) = Some (snd kv, rest)" by simp
    then show "do { (k, bs) \<leftarrow> dec_string (?e kv @ rest); (v, bs) \<leftarrow> dec f bs; Some ((k, v), bs) } = Some (kv, rest)" by simp
  qed
  then show ?case by (simp add: f)
qed (auto simp: Suc_le_eq gr0_conv_Suc)

section \<open>An instance\<close>

definition sample_web :: web where
  "sample_web =
    \<lparr>find_route = sample_route, path_error = id, to_vec = enc,
     parse = (\<lambda>bs. case dec (length bs) bs of Some (v, []) \<Rightarrow> Inr (canon v) | _ \<Rightarrow> Inl ''invalid''),
     reason_phrase = (\<lambda>code. if code = 200 then ''OK'' else ''Not Found''),
     header_lines = (\<lambda>_ _. ''connection: close'')\<rparr>"

definition sample_client :: "(nat \<Rightarrow> hash_order) \<Rightarrow> (nat \<Rightarrow> api_state) \<Rightarrow> nat client_env" where
  "sample_client ord view =
    \<lparr>exchange = (\<lambda>k addr req. (Suc k, Received (served sample_web (ord k) (view k) (takeWhile (\<lambda>c. c \<noteq> CHR '' '') (drop 4 req))))),
     from_slice = parse sample_web, to_string_pretty = (\<lambda>_. Inr [])\<rparr>"

text \<open>A head of two lines holds no empty line.\<close>
lemma two_lines:
  assumes "LF \<notin> set a" "LF \<notin> set h" "h \<noteq> []" "hd h \<noteq> CR"
  shows "\<not> sublist (CRLF @ CRLF) (butlast ((a @ CRLF @ h) @ CRLF @ CRLF))"
proof
  assume "sublist (CRLF @ CRLF) (butlast ((a @ CRLF @ h) @ CRLF @ CRLF))"
  then obtain ps ss where e: "a @ [CR, LF] @ h @ [CR, LF, CR] = ps @ [CR, LF, CR, LF] @ ss"
    by (auto simp: sublist_def CRLF_def butlast_append)
  from arg_cong [OF e, of "\<lambda>xs. count_list xs LF"] assms(1,2) have "LF \<notin> set ps"
    by (simp add: count_list_0_iff)
  then have "takeWhile (\<lambda>c. c \<noteq> LF) (ps @ [CR, LF, CR, LF] @ ss) = ps @ [CR]"
    by (subst takeWhile_append2) auto
  moreover have "takeWhile (\<lambda>c. c \<noteq> LF) (a @ [CR, LF] @ h @ [CR, LF, CR]) = a @ [CR]"
    using assms(1) by (subst takeWhile_append2) auto
  ultimately have "ps = a" using e by simp
  with e have "h @ [CR, LF, CR] = [CR, LF] @ ss" by simp
  with assms(3,4) show False by (cases h) auto
qed

lemma LF_nat_to_string: "LF \<notin> set (nat_to_string n)"
  using nat_to_string_digits [of n] by (fastforce simp: all_digits_def to_digit_def byte_def)

lemma web_ok_sample: "web_ok sample_web"
proof -
  have "\<not> sublist (CRLF @ CRLF) (butlast (response_head sample_web code content @ CRLF @ CRLF))" for code content
    unfolding response_head_def
    by (rule two_lines) (auto simp: sample_web_def status_text_def LF_nat_to_string)
  moreover have "parse sample_web (to_vec sample_web v) = Inr (canon v)" if "exact v" for v
    using dec_enc [OF that order.refl, of "[]"] by (simp add: sample_web_def)
  moreover have "matches_routes (find_route sample_web)" by (simp add: sample_web_def matches_routes_sample)
  moreover have "is_ascii_alphabetic c \<or> c = CHR '' ''" if "c \<in> set (reason_phrase sample_web code)" for c code
    using that by (auto simp: sample_web_def is_ascii_alphabetic_def byte_def split: if_splits)
  moreover have "byte c < 0x80" if "c \<in> set (header_lines sample_web code content)" for c code content
    using that by (auto simp: sample_web_def byte_def)
  ultimately show ?thesis unfolding web_ok_def by blast
qed

lemma instance_at_sample: "instance_at sample_web addr ord view (sample_client ord view)"
proof -
  have "takeWhile (\<lambda>c. c \<noteq> CHR '' '') (drop 4 (request_text addr path)) = path" if "CHR '' '' \<notin> set path" for path
    using that by (simp add: request_text_def) (subst takeWhile_append2, auto)
  then show ?thesis by (simp add: instance_at_def sample_client_def)
qed

text \<open>A state with one trace of one span, and one with none.\<close>
lemma sample_views:
  obtains st tr where "sound_view 0 st" "traces id (as_store st) = [(sample_trace_id, tr)]"
    "trace (as_store st) sample_trace_id = Some tr"
    "sound_view 0 \<lparr>as_store = store_new 80, as_receiver = receiver_default, as_events_seq = []\<rparr>"
proof -
  obtain s tr where s: "store_inv 0 s" "trace s sample_trace_id = Some tr" "t_span_ids tr = [SpanId (replicate 8 1)]"
    "\<forall>tid. tid \<noteq> sample_trace_id \<longrightarrow> trace s tid = None" by (rule sample_store)
  let ?st = "\<lparr>as_store = s, as_receiver = receiver_default, as_events_seq = []\<rparr>"
  have d: "distinct (map fst (s_traces s))" using store_invD(1) [OF s(1)] .
  have "e = (sample_trace_id, tr)" if e: "e \<in> set (s_traces s)" for e
  proof -
    have t: "trace s (fst e) = Some (snd e)" using e d by (simp add: trace_def)
    then have "fst e = sample_trace_id" using s(4) by (metis option.distinct(1))
    with t s(2) show ?thesis by (metis option.inject prod.collapse)
  qed
  moreover have "(sample_trace_id, tr) \<in> set (s_traces s)" using s(2) by (rule trace_SomeD)
  ultimately have only: "set (s_traces s) = {(sample_trace_id, tr)}" by blast
  have "distinct (s_traces s)" using d by (simp add: distinct_map)
  from distinct_card [OF this] only have "length (s_traces s) = Suc 0" by simp
  then obtain e where "s_traces s = [e]" unfolding length_Suc_conv by auto
  with only have "s_traces s = [(sample_trace_id, tr)]" by simp
  moreover have "span_count tr = 1" using s(3) by (simp add: span_count_def)
  then have "3 * span_count t \<le> 2 ^ 32 \<and> trace_id_wf tid" if "trace s tid = Some t" for tid t
    using that s(2,4) by (cases "tid = sample_trace_id") (simp_all add: wf_simps)
  then have "sound_view 0 ?st" using s(1) by (simp add: sound_view_def)
  moreover have "sound_view 0 \<lparr>as_store = store_new 80, as_receiver = receiver_default, as_events_seq = []\<rparr>"
    using store_inv_new [of 0 80] by (simp add: sound_view_def) (simp add: store_new_def trace_def)
  ultimately show thesis using s(2) by (intro that [of ?st tr]) (simp_all add: traces_def)
qed

lemma sample_dump:
  "\<exists>st ps rcv. length ps = 1
     \<and> get_trace (as_store st) (to_hex sample_trace_id) = Some (ApiOk (ps ! 0))
     \<and> fetch_dump (sample_client (\<lambda>_. id) (\<lambda>_. st)) 0 ''127.0.0.1:5317''
       = (3, Inr (JObj [(''receiver'', rcv), (''traces'', JArr (map (canon \<circ> json_of_payload) ps))]))"
proof -
  obtain st tr where st: "sound_view 0 st" "traces id (as_store st) = [(sample_trace_id, tr)]"
    "trace (as_store st) sample_trace_id = Some tr" by (rule sample_views)
  have "\<forall>k < length [(sample_trace_id, tr)]. trace (as_store st) (fst ([(sample_trace_id, tr)] ! k)) \<noteq> None"
    by (simp add: st(3))
  from fetch_dump_complete [where ord = "\<lambda>_. id" and view = "\<lambda>_. st", OF web_ok_sample instance_at_sample iterates_id st(1) st(2) [symmetric] this]
  obtain ps where "length ps = 1" "get_trace (as_store st) (to_hex sample_trace_id) = Some (ApiOk (ps ! 0))"
    "fetch_dump (sample_client (\<lambda>_. id) (\<lambda>_. st)) 0 ''127.0.0.1:5317''
      = (3, Inr (JObj [(''receiver'', canon (json_of_receiver (get_receiver (as_store st) (as_receiver st)))),
          (''traces'', JArr (map (canon \<circ> json_of_payload) ps))]))"
    by (fastforce simp: numeral_eq_Suc)
  then show ?thesis by blast
qed

lemma sample_dump_aborts:
  "\<exists>st. fetch_dump (sample_client (\<lambda>_. id)
       (\<lambda>k. if k = 0 then st else \<lparr>as_store = store_new 80, as_receiver = receiver_default, as_events_seq = []\<rparr>)) 0 ''127.0.0.1:5317''
     = (2, Inl (''/api/traces/'' @ to_hex sample_trace_id @ '' returned `HTTP/1.1 404 Not Found`''))"
proof -
  let ?empty = "\<lparr>as_store = store_new 80, as_receiver = receiver_default, as_events_seq = []\<rparr>"
  obtain st tr where st: "sound_view 0 st" "traces id (as_store st) = [(sample_trace_id, tr)]"
    "trace (as_store st) sample_trace_id = Some tr" "sound_view 0 ?empty" by (rule sample_views)
  let ?view = "\<lambda>k :: nat. if k = 0 then st else ?empty"
  have sound: "sound_view 0 (?view k)" for k using st by simp
  have es: "[(sample_trace_id, tr)] = traces id (as_store (?view 0))" using st(2) by simp
  have gone: "trace (as_store (?view (Suc 0))) (fst ([(sample_trace_id, tr)] ! 0)) = None"
    by (simp add: store_new_def trace_def)
  have "status_text sample_web 404 = ''HTTP/1.1 404 Not Found''"
    by (simp add: status_text_def nat_to_string_codes sample_web_def)
  with fetch_dump_aborts [where ord = "\<lambda>_. id" and view = ?view,
      OF web_ok_sample instance_at_sample iterates_id sound es _ _ gone]
  show ?thesis by (intro exI [of _ st]) (simp add: numeral_eq_Suc)
qed

end
