(* ===== verification/Store_Tests.thy ===== *)
theory Store_Tests
  imports Writer Rust_Float Trace_Tests
begin

text \<open>
  The unit tests of \<open>src/store/mod.rs\<close> and \<open>writer.rs\<close>, run on the model as in \<open>Trace_Tests\<close>.  A test that
  sweeps has the iteration order of the hash map as a parameter.
\<close>

section \<open>Store\<close>

definition test_tid :: "u8 \<Rightarrow> trace_id" where
  [test_eval]: "test_tid b = TraceId (replicate 16 b)"

definition test_store_span :: "u8 \<Rightarrow> string \<Rightarrow> new_span" where
  [test_eval]: "test_store_span i nm =
    \<lparr>ns_span_id = SpanId (replicate 8 i), ns_parent_span_id = None, ns_name = nm, ns_start_time_unix_nano = 0,
     ns_end_time_unix_nano = 0, ns_status_message = [], ns_status_code = 0, ns_unknown_service = False,
     ns_service_name = None, ns_attributes = []\<rparr>"

definition eviction_picks_oldest_last_activity_not_oldest_created :: "hash_order \<Rightarrow> unit panics" where
  [test_eval]: "eviction_picks_oldest_last_activity_not_oldest_created ord =
    do { (store, _) \<leftarrow> insert_span ord (store_new 140) (test_tid 1) (test_store_span 1 ''a'') 0;
         (store, _) \<leftarrow> insert_span ord store (test_tid 2) (test_store_span 2 ''b'') 1;
         (store, _) \<leftarrow> insert_span ord store (test_tid 1) (test_store_span 1 ''a'') 5;
         assert_that (trace_count store = 2);
         (store, _) \<leftarrow> insert_span ord store (test_tid 3) (test_store_span 3 ''c'') 10;
         assert_that (trace store (test_tid 1) \<noteq> None);
         assert_that (trace store (test_tid 2) = None);
         assert_that (trace store (test_tid 3) \<noteq> None);
         assert_that (evicted_traces (s_counters store) = 1) }"

definition late_span_after_eviction_resurrects_the_trace_and_bumps_generation :: "hash_order \<Rightarrow> unit panics" where
  [test_eval]: "late_span_after_eviction_resurrects_the_trace_and_bumps_generation ord =
    do { (store, _) \<leftarrow> insert_span ord (store_new 80) (test_tid 1) (test_store_span 1 ''a'') 0;
         (store, _) \<leftarrow> insert_span ord store (test_tid 2) (test_store_span 2 ''b'') 1;
         assert_that (trace store (test_tid 1) = None);
         assert_that (evicted_traces (s_counters store) = 1);
         (store, outcome) \<leftarrow> insert_span ord store (test_tid 1) (test_store_span 3 ''c'') 2;
         assert_that (so_resurrected outcome);
         assert_that (late_span_after_eviction (s_counters store) = 1);
         t \<leftarrow> trace store (test_tid 1);
         assert_that (t_generation t = 1) }"

definition duplicate_span_increments_the_store_level_counter :: "hash_order \<Rightarrow> unit panics" where
  [test_eval]: "duplicate_span_increments_the_store_level_counter ord =
    do { (store, _) \<leftarrow> insert_span ord (store_new 10000) (test_tid 1) (test_store_span 1 ''a'') 0;
         (store, outcome) \<leftarrow> insert_span ord store (test_tid 1) (test_store_span 1 ''a-renamed'') 1;
         assert_that (so_is_duplicate outcome);
         assert_that (duplicate_span (s_counters store) = 1) }"

definition insert_span_no_evict_skips_eviction_until_evict_over_budget_is_called :: "hash_order \<Rightarrow> unit panics" where
  [test_eval]: "insert_span_no_evict_skips_eviction_until_evict_over_budget_is_called ord =
    do { (store, _) \<leftarrow> insert_span_no_evict (store_new 140) (test_tid 1) (test_store_span 1 ''a'') 0;
         (store, _) \<leftarrow> insert_span_no_evict store (test_tid 2) (test_store_span 2 ''b'') 1;
         (store, _) \<leftarrow> insert_span_no_evict store (test_tid 3) (test_store_span 3 ''c'') 2;
         assert_that (trace_count store = 3);
         assert_that (evicted_traces (s_counters store) = 0);
         store \<leftarrow> evict_over_budget ord store;
         assert_that (trace_count store = 2);
         assert_that (evicted_traces (s_counters store) = 1) }"

definition insert_span_interns_the_service_name_and_it_resolves_back :: "hash_order \<Rightarrow> unit panics" where
  [test_eval]: "insert_span_interns_the_service_name_and_it_resolves_back ord =
    do { let s = (test_store_span 1 ''a'')\<lparr>ns_service_name := Some ''checkout''\<rparr>;
         (store, _) \<leftarrow> insert_span ord (store_new 10000) (test_tid 1) s 0;
         t \<leftarrow> trace store (test_tid 1);
         i \<leftarrow> service_name_id t 0;
         id \<leftarrow> i;
         nm \<leftarrow> service_name store id;
         assert_that (nm = ''checkout'') }"

lemmas [test_eval] = store_new_def counters_default_def GLOBAL_INTERNER_CAP_def trace_def trace_count_def traces_def
  service_name_def entry_or_insert_def insert_span_no_evict_def insert_span_def approx_bytes_def total_approx_bytes_def
  oldest_def evict_def APPROX_SPAN_FIXED_BYTES_def APPROX_ATTR_FIXED_BYTES_def evict_over_budget.simps

lemma store_tests_pass_id:
  "eviction_picks_oldest_last_activity_not_oldest_created id = Some ()"
  "late_span_after_eviction_resurrects_the_trace_and_bumps_generation id = Some ()"
  "duplicate_span_increments_the_store_level_counter id = Some ()"
  "insert_span_no_evict_skips_eviction_until_evict_over_budget_is_called id = Some ()"
  "insert_span_interns_the_service_name_and_it_resolves_back id = Some ()"
  by (simp_all add: test_eval Let_def)

lemma store_tests_pass_rev:
  "eviction_picks_oldest_last_activity_not_oldest_created rev = Some ()"
  "late_span_after_eviction_resurrects_the_trace_and_bumps_generation rev = Some ()"
  "duplicate_span_increments_the_store_level_counter rev = Some ()"
  "insert_span_no_evict_skips_eviction_until_evict_over_budget_is_called rev = Some ()"
  "insert_span_interns_the_service_name_and_it_resolves_back rev = Some ()"
  by (simp_all add: test_eval Let_def)

text \<open>The test of the interner's cap inserts a span with 100001 attributes; it is not run but proved.\<close>
definition attribute_key_cap_hit_counter_reflects_the_global_interner_cap :: "hash_order \<Rightarrow> unit panics" where
  "attribute_key_cap_hit_counter_reflects_the_global_interner_cap ord =
    do { let s = (test_store_span 1 ''op'')\<lparr>ns_attributes :=
           map (\<lambda>i. (''k'' @ nat_to_string i, Bool True)) [0..<Suc GLOBAL_INTERNER_CAP]\<rparr>;
         (store, _) \<leftarrow> insert_span ord (store_new 18446744073709551615) (test_tid 1) s 0;
         assert_that (attribute_key_cap_hit (s_counters store) = 1) }"

text \<open>New strings are interned until the table is full.\<close>
lemma intern_new_keys:
  "intern_pairs intern p kvs = (p', out) \<Longrightarrow> distinct (map fst kvs) \<Longrightarrow>
   \<forall>k \<in> fst ` set kvs. i_map p k = None \<Longrightarrow> length (i_values p) \<le> i_cap p \<Longrightarrow>
   length out = min (length kvs) (i_cap p - length (i_values p))"
proof (induction kvs arbitrary: p out)
  case (Cons kv kvs)
  have new: "i_map p (fst kv) = None" using Cons.prems(3) by simp
  show ?case
  proof (cases "i_cap p \<le> length (i_values p)")
    case True
    let ?p = "p\<lparr>i_cap_hit_count := i_cap_hit_count p + 1\<rparr>"
    have "intern p (fst kv) = (?p, None)" using new True by (simp add: intern_def)
    then have "intern_pairs intern ?p kvs = (p', out)" using Cons.prems(1) by simp
    from Cons.IH [OF this] Cons.prems(2-4) True show ?thesis by simp
  next
    case False
    let ?p = "p\<lparr>i_values := i_values p @ [fst kv], i_map := (i_map p)(fst kv \<mapsto> of_nat (length (i_values p)))\<rparr>"
    have "intern p (fst kv) = (?p, Some (of_nat (length (i_values p))))" using new False by (simp add: intern_def Let_def)
    with Cons.prems(1) obtain rest where "intern_pairs intern ?p kvs = (p', rest)"
      "out = (of_nat (length (i_values p)), snd kv) # rest" by (auto split: prod.splits)
    moreover have "\<forall>k \<in> fst ` set kvs. i_map ?p k = None"
      using Cons.prems(2,3) by (auto intro: rev_image_eqI)
    ultimately have "length rest = min (length kvs) (i_cap p - Suc (length (i_values p)))"
      using Cons.IH [of ?p rest] Cons.prems(2) False by simp
    with \<open>out = _\<close> False show ?thesis by auto
  qed
qed simp

lemma cap_hit_test_passes:
  assumes "iterates ord"
  shows "attribute_key_cap_hit_counter_reflects_the_global_interner_cap ord = Some ()"
proof -
  define kvs where "kvs = map (\<lambda>i. (''k'' @ nat_to_string i, Bool True)) [0..<Suc GLOBAL_INTERNER_CAP]"
  define span where "span = (test_store_span 1 ''op'')\<lparr>ns_attributes := kvs\<rparr>"
  let ?s = "store_new 18446744073709551615"
  have len: "length kvs = 100001" by (simp add: kvs_def GLOBAL_INTERNER_CAP_def)
  have "inj_on (\<lambda>i. ''k'' @ nat_to_string i) A" for A
    by (rule inj_onI) (metis digits_val_nat option.inject same_append_eq)
  then have distinct: "distinct (map fst kvs)"
    unfolding kvs_def map_map comp_def fst_conv distinct_map by simp
  have attrs: "ns_attributes span = kvs" "ns_attributes (span\<lparr>ns_service_name := None\<rparr>) = kvs" by (simp_all add: span_def)
  have room: "0 + length (ns_attributes span) < 2 ^ 32" by (simp add: attrs len)
  have inv: "store_inv 0 ?s" by (rule store_inv_new)
  from inv room obtain t evicted si' svc t' ki' o' c where
    ok: "trace_ok 0 (s_key_interner ?s) si' (test_tid 1) t"
    and ti: "trace_insert t (span\<lparr>ns_service_name := None\<rparr>) svc (s_key_interner ?s) 0 = Some (t', ki', o')"
    and c: "c = (s_counters ?s)\<lparr>
        duplicate_span := duplicate_span (s_counters ?s) + (if is_duplicate o' then 1 else 0),
        late_span_after_eviction := late_span_after_eviction (s_counters ?s)
          + (if trace ?s (test_tid 1) = None \<and> s_evicted_generations ?s (test_tid 1) \<noteq> None then 1 else 0),
        attribute_key_cap_hit := cap_hit_count ki'\<rparr>"
    and res: "insert_span_no_evict ?s (test_tid 1) span 0 =
       Some (?s\<lparr>s_traces := AList.update (test_tid 1) t' (s_traces ?s), s_key_interner := ki',
               s_service_interner := si', s_evicted_generations := evicted, s_counters := c\<rparr>,
             \<lparr>so_local_idx = local_idx o', so_is_duplicate = is_duplicate o',
              so_resurrected = (trace ?s (test_tid 1) = None \<and> s_evicted_generations ?s (test_tid 1) \<noteq> None)\<rparr>)"
    by (rule insert_span_no_evict_result [where tid = "test_tid 1" and now = 0])
  have wf: "trace_wf t" "attr_count t + length (ns_attributes (span\<lparr>ns_service_name := None\<rparr>)) < 2 ^ 32"
    using ok by (auto simp: trace_ok_def attrs len)
  have "interner_wf (s_key_interner ?s)" using store_invD(3) [OF store_inv_new] .
  from trace_insert_rows [OF wf(1) this wf(2), of svc 0] ti obtain ia where
    ia: "intern_pairs intern (s_key_interner ?s) kvs = (ki', ia)" unfolding attrs by (metis option.inject prod.inject)
  have "s_key_interner ?s = interner_new GLOBAL_INTERNER_CAP" by (simp add: store_new_def)
  note ia = ia [unfolded this]
  have "length ia = 100000"
    using intern_new_keys [OF ia distinct] len by (simp add: interner_new_def GLOBAL_INTERNER_CAP_def)
  then have hit: "cap_hit_count ki' = 1"
    using intern_pairs_refusals [OF ia] len by (simp add: cap_hit_count_def interner_new_def)
  from insert_span_no_evict_inv [OF inv room, of "test_tid 1" 0] obtain s1 out where
    s1: "insert_span_no_evict ?s (test_tid 1) span 0 = Some (s1, out)" "store_inv (0 + length (ns_attributes span)) s1" by blast
  from evict_over_budget_sweep [OF assms s1(2)] obtain s2 where
    s2: "evict_over_budget ord s1 = Some s2" "sweep_of s1 s2" by blast
  have "attribute_key_cap_hit (s_counters s1) = 1" using s1(1) res c hit by auto
  then have "attribute_key_cap_hit (s_counters s2) = 1" using sweep_ofD(2) [OF s2(2)] by simp
  then show ?thesis
    unfolding attribute_key_cap_hit_counter_reflects_the_global_interner_cap_def
    by (simp only: kvs_def [symmetric] span_def [symmetric] Let_def)
      (simp add: insert_span_def s1(1) s2(1) assert_that_def)
qed

section \<open>Writer\<close>

definition test_writer_span :: "u8 \<Rightarrow> new_span" where
  [test_eval]: "test_writer_span i = test_store_span i ''op''"

definition test_batch :: "(trace_id \<times> new_span) list \<Rightarrow> nat \<Rightarrow> span_batch" where
  [test_eval]: "test_batch spans malformed_span_count =
    \<lparr>sb_spans = spans, sb_partial = (0 < malformed_span_count), sb_malformed_span_count = malformed_span_count\<rparr>"

text \<open>The two sends, then the closing of the channel, after which the task has applied both batches.\<close>
definition writer_applies_batches_and_updates_counters :: "hash_order \<Rightarrow> nat option \<Rightarrow> unit panics" where
  [test_eval]: "writer_applies_batches_and_updates_counters ord clock =
    do { let w = spawn_writer (store_new 10000000);
         w \<leftarrow> run w [(ord, clock, test_batch [(TraceId (replicate 16 1), test_writer_span 1)] 0),
                     (ord, clock, test_batch [(TraceId (replicate 16 1), test_writer_span 2)] 2)];
         assert_that (w_seq w = 2);
         t \<leftarrow> trace (w_store w) (TraceId (replicate 16 1));
         assert_that (span_count t = 2);
         assert_that (malformed_span (s_counters (w_store w)) = 2) }"

lemmas [test_eval] = spawn_writer_def run_def apply_batch_def insert_all_def count_malformed_def

lemma writer_tests_pass:
  "writer_applies_batches_and_updates_counters id clock = Some ()"
  "writer_applies_batches_and_updates_counters rev clock = Some ()"
  by (simp_all add: test_eval Let_def)

end
