(* ===== verification/Api_Tests.thy ===== *)
theory Api_Tests
  imports Sample_Web Store_Tests
begin

text \<open>
  The unit tests of \<open>src/api/\<close>, run on the model as in \<open>Trace_Tests\<close>.  They go through the router, with the
  matcher of \<open>Sample_Web\<close>; a request's query string is given decoded.
\<close>

section \<open>Requests\<close>

definition test_state :: "store \<Rightarrow> api_state" where
  [test_eval]: "test_state s = \<lparr>as_store = s, as_receiver = receiver_default, as_events_seq = [0]\<rparr>"

definition oneshot :: "api_state \<Rightarrow> string \<Rightarrow> (string \<rightharpoonup> string) \<Rightarrow> (nat \<times> api_body) panics" where
  "oneshot st path params = router sample_route id id st GET path params"

text \<open>The document of a response with status 200.\<close>
definition json_body :: "nat \<times> api_body \<Rightarrow> json panics" where
  [test_eval]: "json_body response =
    (case response of (code, b) \<Rightarrow> if code = 200 then (case b of JsonBody v \<Rightarrow> Some v | _ \<Rightarrow> None) else None)"

lemma segments_slash: "CHR ''/'' \<notin> set s \<Longrightarrow> segments (s @ CHR ''/'' # rest) = s # segments rest"
  by (induction s) auto

lemma no_slash_to_hex: "trace_id_wf tid \<Longrightarrow> CHR ''/'' \<notin> set (to_hex tid) \<and> to_hex tid \<noteq> []"
  using is_plain_to_hex [of tid]
  by (auto simp: is_plain_def is_ascii_alphabetic_def is_ascii_digit_def byte_def dest!: bspec [of _ _ "CHR ''/''"])

lemma oneshot_trace:
  assumes "trace_id_wf tid"
  shows "oneshot st (''/api/traces/'' @ to_hex tid) params
      = map_option (into_response json_of_payload) (get_trace (as_store st) (to_hex tid))"
    and "oneshot st (''/api/traces/'' @ to_hex tid @ ''/filter'') params
      = map_option (into_response json_of_filter) (get_filter (as_store st) (to_hex tid) params)"
  using no_slash_to_hex [OF assms]
  by (simp_all add: oneshot_def router_def call_handler_def API_ROUTES_def starts_with_def segments_plain segments_slash)

section \<open>The filter\<close>

definition store_with_two_spans :: "hash_order \<Rightarrow> store panics" where
  [test_eval]: "store_with_two_spans ord =
    do { (store, _) \<leftarrow> insert_span ord (store_new 10000000) (TraceId (replicate 16 1))
           \<lparr>ns_span_id = SpanId (replicate 8 1), ns_parent_span_id = None, ns_name = ''checkout root'',
            ns_start_time_unix_nano = 0, ns_end_time_unix_nano = 50000000, ns_status_message = [], ns_status_code = 1,
            ns_unknown_service = False, ns_service_name = Some ''checkout'',
            ns_attributes = [(''http.status_code'', Int64 200)]\<rparr> 0;
         (store, _) \<leftarrow> insert_span ord store (TraceId (replicate 16 1))
           \<lparr>ns_span_id = SpanId (replicate 8 2), ns_parent_span_id = None, ns_name = ''db query'',
            ns_start_time_unix_nano = 0, ns_end_time_unix_nano = 200000000, ns_status_message = [], ns_status_code = 2,
            ns_unknown_service = False, ns_service_name = Some ''db'',
            ns_attributes = [(''http.status_code'', Int64 500)]\<rparr> 0;
         Some store }"

definition filter_query :: "store \<Rightarrow> string \<Rightarrow> json panics" where
  "filter_query store q =
    do { response \<leftarrow> oneshot (test_state store) (''/api/traces/'' @ to_hex (TraceId (replicate 16 1)) @ ''/filter'') [''q'' \<mapsto> q];
         json_body response }"

lemma filter_query_eq [test_eval]:
  "filter_query store q =
    do { r \<leftarrow> get_filter store (to_hex (TraceId (replicate 16 1))) [''q'' \<mapsto> q];
         json_body (into_response json_of_filter r) }"
proof -
  have "trace_id_wf (TraceId (replicate 16 1))" by (simp add: wf_simps)
  from oneshot_trace(2) [OF this] show ?thesis
    by (simp add: filter_query_def test_state_def map_option_case split: option.split Option.bind_split)
qed

definition status_error_matches_only_the_error_span :: "unit panics" where
  [test_eval]: "status_error_matches_only_the_error_span =
    do { s \<leftarrow> store_with_two_spans id;
         v \<leftarrow> filter_query s ''status=error'';
         assert_that (field v ''indices'' = JArr [JInt 1]);
         assert_that (field v ''dropped_terms'' = JArr []) }"

definition duration_is_per_span_not_the_trace_aggregate :: "unit panics" where
  [test_eval]: "duration_is_per_span_not_the_trace_aggregate =
    do { s \<leftarrow> store_with_two_spans id;
         v \<leftarrow> filter_query s ''duration>100ms'';
         assert_that (field v ''indices'' = JArr [JInt 1]) }"

definition numeric_attribute_ordering_works :: "unit panics" where
  [test_eval]: "numeric_attribute_ordering_works =
    do { s \<leftarrow> store_with_two_spans id;
         v \<leftarrow> filter_query s ''http.status_code>=500'';
         assert_that (field v ''indices'' = JArr [JInt 1]) }"

definition implicit_and_across_multiple_terms :: "unit panics" where
  [test_eval]: "implicit_and_across_multiple_terms =
    do { s \<leftarrow> store_with_two_spans id;
         v \<leftarrow> filter_query s ''service=checkout status=ok'';
         assert_that (field v ''indices'' = JArr [JInt 0]) }"

definition bareword_matches_span_name_as_substring :: "unit panics" where
  [test_eval]: "bareword_matches_span_name_as_substring =
    do { s \<leftarrow> store_with_two_spans id;
         v \<leftarrow> filter_query s ''checkout'';
         assert_that (field v ''indices'' = JArr [JInt 0]) }"

definition quoted_bareword_with_a_space_matches_as_one_substring_term :: "unit panics" where
  [test_eval]: "quoted_bareword_with_a_space_matches_as_one_substring_term =
    do { s \<leftarrow> store_with_two_spans id;
         v \<leftarrow> filter_query s (QUOTE @ ''db query'' @ QUOTE);
         assert_that (field v ''indices'' = JArr [JInt 1]) }"

definition unknown_operator_is_dropped_but_the_rest_of_the_query_still_applies :: "unit panics" where
  [test_eval]: "unknown_operator_is_dropped_but_the_rest_of_the_query_still_applies =
    do { s \<leftarrow> store_with_two_spans id;
         v \<leftarrow> filter_query s ''service~checkout status=ok'';
         assert_that (field v ''indices'' = JArr [JInt 0]);
         assert_that (field v ''dropped_terms'' = JArr [JStr ''service~checkout'']) }"

definition unterminated_quote_is_dropped_but_the_rest_of_the_query_still_applies :: "unit panics" where
  [test_eval]: "unterminated_quote_is_dropped_but_the_rest_of_the_query_still_applies =
    do { s \<leftarrow> store_with_two_spans id;
         v \<leftarrow> filter_query s (''status=ok '' @ QUOTE @ ''unclo'');
         assert_that (field v ''indices'' = JArr [JInt 0]);
         assert_that (field v ''dropped_terms'' = JArr [JStr ''unclo'']) }"

definition unresolvable_key_matches_nothing_and_is_not_reported_as_dropped :: "unit panics" where
  [test_eval]: "unresolvable_key_matches_nothing_and_is_not_reported_as_dropped =
    do { s \<leftarrow> store_with_two_spans id;
         v \<leftarrow> filter_query s ''nonexistent.key=x'';
         assert_that (field v ''indices'' = JArr []);
         assert_that (field v ''dropped_terms'' = JArr []) }"

definition missing_query_matches_every_span :: "unit panics" where
  [test_eval]: "missing_query_matches_every_span =
    do { s \<leftarrow> store_with_two_spans id;
         v \<leftarrow> filter_query s [];
         assert_that (field v ''indices'' = JArr [JInt 0, JInt 1]) }"

definition bareword_with_punctuation_is_a_substring_term_not_a_dropped_malformed_term :: "unit panics" where
  [test_eval]: "bareword_with_punctuation_is_a_substring_term_not_a_dropped_malformed_term =
    do { (store, _) \<leftarrow> insert_span id (store_new 10000000) (TraceId (replicate 16 1))
           \<lparr>ns_span_id = SpanId (replicate 8 1), ns_parent_span_id = None, ns_name = ''cart-item lookup'',
            ns_start_time_unix_nano = 0, ns_end_time_unix_nano = 1, ns_status_message = [], ns_status_code = 0,
            ns_unknown_service = True, ns_service_name = None, ns_attributes = []\<rparr> 0;
         v \<leftarrow> filter_query store ''cart-item'';
         assert_that (field v ''indices'' = JArr [JInt 0]);
         assert_that (field v ''dropped_terms'' = JArr []) }"

definition filter_returns_indices_never_span_objects :: "unit panics" where
  [test_eval]: "filter_returns_indices_never_span_objects =
    do { s \<leftarrow> store_with_two_spans id;
         v \<leftarrow> filter_query s ''service=checkout'';
         indices \<leftarrow> as_array (field v ''indices'');
         assert_that (list_all (\<lambda>i. as_u64 i \<noteq> None) indices);
         assert_that (field v ''spans'' = JNull) }"

definition get_filter_returns_404_for_an_unknown_trace :: "unit panics" where
  "get_filter_returns_404_for_an_unknown_trace =
    do { s \<leftarrow> store_with_two_spans id;
         response \<leftarrow> oneshot (test_state s) (''/api/traces/'' @ to_hex (TraceId (replicate 16 9)) @ ''/filter'') [''q'' \<mapsto> ''x''];
         assert_that (fst response = 404) }"

lemma hex_path [test_eval]: "from_hex (to_hex (TraceId (replicate 16 b))) = Some (TraceId (replicate 16 b))"
  by (rule from_hex_to_hex) (simp add: wf_simps)

lemmas [test_eval] = get_filter_def parse_query_def tokenize_def utf8_width_def byte_def is_whitespace_def parse_term_def
  is_key_char_def is_key_start_def is_ascii_alphabetic_def is_ascii_digit_def str_to_def str_from_def
  is_char_boundary_def is_cont_def OPS_def starts_with_def matches_def into_response_def json_of_filter_def json_vec_def
  json_usize_def end_time_unix_nano_def start_time_unix_nano_def attribute_keys_def attribute_key_id_def attribute_key_def
  str_contains_def sublist_Cons_right attr_contains_def cmp_def

lemmas [test_eval] = parse_duration_def strip_suffix_def suffix_to_prefix parse_u64_def from_str_radix_unsigned_def to_digit_def
  checked_mul_def

text \<open>The two comparisons of the ordering test, by the order of the integers.\<close>
lemma status_code_comparisons [test_eval]:
  "attr_matches Gte (Int64 200) ''500'' = False" "attr_matches Gte (Int64 500) ''500'' = True"
proof -
  have "int_to_string 500 = ''500''" by code_simp
  with attr_order(3) [of 200 500] attr_order(3) [of 500 500]
    f64_int_order(4) [of 500 200] f64_int_order(4) [of 500 500]
  show "attr_matches Gte (Int64 200) ''500'' = False" "attr_matches Gte (Int64 500) ''500'' = True" by simp_all
qed

lemma int_digits [test_eval]: "int_to_string 200 = ''200''" "int_to_string 500 = ''500''"
  by code_simp+

lemma filter_tests_pass:
  "status_error_matches_only_the_error_span = Some ()"
  "duration_is_per_span_not_the_trace_aggregate = Some ()"
  "numeric_attribute_ordering_works = Some ()"
  "implicit_and_across_multiple_terms = Some ()"
  "bareword_matches_span_name_as_substring = Some ()"
  "quoted_bareword_with_a_space_matches_as_one_substring_term = Some ()"
  "unknown_operator_is_dropped_but_the_rest_of_the_query_still_applies = Some ()"
  "unterminated_quote_is_dropped_but_the_rest_of_the_query_still_applies = Some ()"
  "unresolvable_key_matches_nothing_and_is_not_reported_as_dropped = Some ()"
  "missing_query_matches_every_span = Some ()"
  "bareword_with_punctuation_is_a_substring_term_not_a_dropped_malformed_term = Some ()"
  "filter_returns_indices_never_span_objects = Some ()"
  by (simp_all add: test_eval Let_def)

lemma filter_404_test_passes: "get_filter_returns_404_for_an_unknown_trace = Some ()"
proof -
  have "trace_id_wf (TraceId (replicate 16 9))" by (simp add: wf_simps)
  from oneshot_trace(2) [OF this] show ?thesis
    unfolding get_filter_returns_404_for_an_unknown_trace_def by (simp add: test_eval Let_def)
qed

end
