(* ===== verification/Route_Tests.thy ===== *)
theory Route_Tests
  imports Api_Tests
begin

text \<open>
  The unit tests of the other handlers of \<open>src/api/\<close>, run on the model as in \<open>Trace_Tests\<close>.
\<close>

section \<open>\<open>attributes.rs\<close>\<close>

definition store_with_one_span :: "store panics" where
  [test_eval]: "store_with_one_span =
    do { (store, _) \<leftarrow> insert_span id (store_new 10000000) (TraceId (replicate 16 1))
           \<lparr>ns_span_id = SpanId (replicate 8 2), ns_parent_span_id = None, ns_name = ''root'',
            ns_start_time_unix_nano = 1, ns_end_time_unix_nano = 2, ns_status_message = [], ns_status_code = 0,
            ns_unknown_service = False, ns_service_name = Some ''checkout'',
            ns_attributes = [(''http.status_code'', Int64 200), (''http.method'', Str ''GET'')]\<rparr> 0;
         Some store }"

definition returns_the_spans_key_value_attributes :: "unit panics" where
  "returns_the_spans_key_value_attributes =
    do { s \<leftarrow> store_with_one_span;
         response \<leftarrow> oneshot (test_state s) (''/api/traces/'' @ to_hex (TraceId (replicate 16 1)) @ ''/spans/0/attributes'') Map.empty;
         v \<leftarrow> json_body response;
         entries \<leftarrow> as_array v;
         assert_that (length entries = 2);
         assert_that (list_ex (\<lambda>e. field e ''key'' = JStr ''http.status_code'' \<and> field e ''value'' = JInt 200) entries);
         assert_that (list_ex (\<lambda>e. field e ''key'' = JStr ''http.method'' \<and> field e ''value'' = JStr ''GET'') entries) }"

definition out_of_range_span_index_is_404 :: "unit panics" where
  "out_of_range_span_index_is_404 =
    do { s \<leftarrow> store_with_one_span;
         response \<leftarrow> oneshot (test_state s) (''/api/traces/'' @ to_hex (TraceId (replicate 16 1)) @ ''/spans/99/attributes'') Map.empty;
         assert_that (fst response = 404) }"

lemma oneshot_attributes:
  assumes "trace_id_wf tid" "CHR ''/'' \<notin> set n" "n \<noteq> []"
  shows "oneshot st (''/api/traces/'' @ to_hex tid @ ''/spans/'' @ n @ ''/attributes'') params
    = call_handler id id st GetAttributes [to_hex tid, n] params"
  using no_slash_to_hex [OF assms(1)] assms(2,3)
  by (simp add: oneshot_def router_def API_ROUTES_def starts_with_def segments_plain segments_slash)

lemmas [test_eval] = get_attributes_def json_of_entry_def json_of_attr_def json_unsigned_def json_signed_def

lemma attributes_tests_pass:
  "returns_the_spans_key_value_attributes = Some ()"
  "out_of_range_span_index_is_404 = Some ()"
proof -
  have wf: "trace_id_wf (TraceId (replicate 16 1))" by (simp add: wf_simps)
  show "returns_the_spans_key_value_attributes = Some ()"
    unfolding returns_the_spans_key_value_attributes_def
    using oneshot_attributes [OF wf, of "''0''"] by (simp add: test_eval Let_def call_handler_def)
  show "out_of_range_span_index_is_404 = Some ()"
    unfolding out_of_range_span_index_is_404_def
    using oneshot_attributes [OF wf, of "''99''"] by (simp add: test_eval Let_def call_handler_def)
qed

section \<open>\<open>traces.rs\<close>\<close>

definition state_with_one_trace :: "api_state panics" where
  [test_eval]: "state_with_one_trace =
    do { (store, _) \<leftarrow> insert_span id (store_new 10000000) (TraceId (replicate 16 1))
           \<lparr>ns_span_id = SpanId (replicate 8 2), ns_parent_span_id = None, ns_name = ''root'',
            ns_start_time_unix_nano = 100, ns_end_time_unix_nano = 500, ns_status_message = [], ns_status_code = 0,
            ns_unknown_service = False, ns_service_name = Some ''checkout'',
            ns_attributes = [(''http.status_code'', Int64 200)]\<rparr> 0;
         (store, _) \<leftarrow> insert_span id store (TraceId (replicate 16 1))
           \<lparr>ns_span_id = SpanId (replicate 8 3), ns_parent_span_id = Some (SpanId (replicate 8 2)), ns_name = ''child'',
            ns_start_time_unix_nano = 150, ns_end_time_unix_nano = 900, ns_status_message = [], ns_status_code = 0,
            ns_unknown_service = False, ns_service_name = Some ''db'', ns_attributes = []\<rparr> 0;
         Some (test_state store) }"

definition list_traces_reports_span_count_duration_and_services :: "unit panics" where
  "list_traces_reports_span_count_duration_and_services =
    do { st \<leftarrow> state_with_one_trace;
         response \<leftarrow> oneshot st ''/api/traces'' Map.empty;
         v \<leftarrow> json_body response;
         summaries \<leftarrow> as_array v;
         assert_that (length summaries = 1);
         row \<leftarrow> vec_index summaries 0;
         assert_that (field row ''span_count'' = JInt 2);
         assert_that (field row ''duration_nanos'' = JInt 800);
         assert_that (field row ''services'' = JArr [JStr ''checkout'', JStr ''db'']) }"

definition get_trace_payload_is_columnar_with_a_shared_string_table :: "unit panics" where
  "get_trace_payload_is_columnar_with_a_shared_string_table =
    do { st \<leftarrow> state_with_one_trace;
         response \<leftarrow> oneshot st (''/api/traces/'' @ to_hex (TraceId (replicate 16 1))) Map.empty;
         v \<leftarrow> json_body response;
         names \<leftarrow> as_array (field v ''name_idx'');
         assert_that (length names = 2);
         table \<leftarrow> as_array (field v ''string_table'');
         assert_that (JStr ''root'' \<in> set table);
         assert_that (JStr ''child'' \<in> set table);
         assert_that (JStr ''checkout'' \<in> set table);
         assert_that (JStr ''db'' \<in> set table) }"

definition get_trace_returns_404_for_an_unknown_trace :: "unit panics" where
  "get_trace_returns_404_for_an_unknown_trace =
    do { st \<leftarrow> state_with_one_trace;
         response \<leftarrow> oneshot st (''/api/traces/'' @ to_hex (TraceId (replicate 16 9))) Map.empty;
         assert_that (fst response = 404) }"

definition get_trace_returns_400_for_a_malformed_id :: "unit panics" where
  "get_trace_returns_400_for_a_malformed_id =
    do { st \<leftarrow> state_with_one_trace;
         response \<leftarrow> oneshot st ''/api/traces/not-hex'' Map.empty;
         assert_that (fst response = 400) }"

lemma oneshot_list:
  "oneshot st ''/api/traces'' params
    = map_option (\<lambda>out. (200, JsonBody (json_vec json_of_summary out))) (list_traces id (as_store st))"
  "oneshot st ''/api/traces/not-hex'' params
    = map_option (into_response json_of_payload) (get_trace (as_store st) ''not-hex'')"
  by (simp_all add: oneshot_def router_def call_handler_def API_ROUTES_def starts_with_def)

lemmas [test_eval] = list_traces_def summarize_def get_trace_def payload_start_def payload_row_def table_intern_def
  string_table_default_def json_of_summary_def json_of_payload_def json_opt_def
  services_of_def status_message_def unknown_service_def

lemma sorted_services [test_eval]:
  "sorted_list_of_set {''db'', ''checkout''} = [''checkout'', ''db'']"
  "sorted_list_of_set {''checkout'', ''db''} = [''checkout'', ''db'']"
  by code_simp+

lemma traces_tests_pass:
  "list_traces_reports_span_count_duration_and_services = Some ()"
  "get_trace_payload_is_columnar_with_a_shared_string_table = Some ()"
  "get_trace_returns_404_for_an_unknown_trace = Some ()"
  "get_trace_returns_400_for_a_malformed_id = Some ()"
proof -
  have wf: "trace_id_wf (TraceId (replicate 16 1))" "trace_id_wf (TraceId (replicate 16 9))" by (simp_all add: wf_simps)
  show "list_traces_reports_span_count_duration_and_services = Some ()"
    unfolding list_traces_reports_span_count_duration_and_services_def
    by (simp add: oneshot_list test_eval Let_def)
  show "get_trace_payload_is_columnar_with_a_shared_string_table = Some ()"
    unfolding get_trace_payload_is_columnar_with_a_shared_string_table_def
    using oneshot_trace(1) [OF wf(1)] by (simp add: test_eval Let_def)
  show "get_trace_returns_404_for_an_unknown_trace = Some ()"
    unfolding get_trace_returns_404_for_an_unknown_trace_def
    using oneshot_trace(1) [OF wf(2)] by (simp add: test_eval Let_def)
  have "from_hex ''not-hex'' = None" by code_simp
  then show "get_trace_returns_400_for_a_malformed_id = Some ()"
    unfolding get_trace_returns_400_for_a_malformed_id_def by (simp add: oneshot_list test_eval Let_def)
qed

section \<open>\<open>receiver.rs\<close>, \<open>events.rs\<close>, \<open>lint.rs\<close>\<close>

definition empty_state :: api_state where
  [test_eval]: "empty_state = test_state (store_new 10000000)"

definition reports_store_counters_arrivals_and_recent_rejects :: "unit panics" where
  "reports_store_counters_arrivals_and_recent_rejects =
    do { let op = \<lparr>ns_span_id = SpanId (replicate 8 1), ns_parent_span_id = None, ns_name = ''op'',
           ns_start_time_unix_nano = 0, ns_end_time_unix_nano = 0, ns_status_message = [], ns_status_code = 0,
           ns_unknown_service = True, ns_service_name = None, ns_attributes = []\<rparr>;
         (store, _) \<leftarrow> insert_span id (as_store empty_state) (TraceId (replicate 16 1)) op 0;
         (store, _) \<leftarrow> insert_span id store (TraceId (replicate 16 1)) (op\<lparr>ns_name := ''op-renamed''\<rparr>) 1;
         let rcv = as_receiver empty_state;
         let rcv = rcv\<lparr>arrivals := record_arrivals (arrivals rcv) HttpProtobufV4318 2\<rparr>;
         let rcv = rcv\<lparr>rejects := push (rejects rcv) ''EmptyPayload'' 5\<rparr>;
         response \<leftarrow> oneshot (empty_state\<lparr>as_store := store, as_receiver := rcv\<rparr>) ''/api/receiver'' Map.empty;
         v \<leftarrow> json_body response;
         assert_that (field (field v ''arrivals'') ''http_protobuf_v4318'' = JInt 2);
         assert_that (field (field v ''counters'') ''duplicate_span'' = JInt 1);
         recent_rejects \<leftarrow> as_array (field v ''recent_rejects'');
         assert_that (length recent_rejects = 1);
         r \<leftarrow> vec_index recent_rejects 0;
         assert_that (field r ''reason'' = JStr ''EmptyPayload'') }"

text \<open>The text of an event stream.\<close>
definition event_text :: "nat \<times> api_body \<Rightarrow> string panics" where
  [test_eval]: "event_text response =
    (case response of (code, EventStream evs) \<Rightarrow> Some (concat (map (\<lambda>d. ''data: '' @ d @ [LF, LF]) evs)) | _ \<Rightarrow> None)"

definition connecting_yields_the_current_seq_immediately :: "unit panics" where
  [test_eval]: "connecting_yields_the_current_seq_immediately =
    do { response \<leftarrow> oneshot (empty_state\<lparr>as_events_seq := [3]\<rparr>) ''/api/events'' Map.empty;
         assert_that (fst response = 200);
         text \<leftarrow> event_text response;
         assert_that (str_contains text
           (''{'' @ QUOTE @ ''type'' @ QUOTE @ '':'' @ QUOTE @ ''changed'' @ QUOTE @ '','' @ QUOTE @ ''seq'' @ QUOTE @ '':3}'')) }"

definition carries_no_span_data :: "unit panics" where
  [test_eval]: "carries_no_span_data =
    do { response \<leftarrow> oneshot (empty_state\<lparr>as_events_seq := [0]\<rparr>) ''/api/events'' Map.empty;
         text \<leftarrow> event_text response;
         assert_that (\<not> str_contains text ''span'') }"

definition returns_an_empty_findings_list :: "unit panics" where
  [test_eval]: "returns_an_empty_findings_list =
    do { response \<leftarrow> oneshot empty_state ''/api/lint'' Map.empty;
         v \<leftarrow> json_body response;
         assert_that (field v ''findings'' = JArr []) }"

lemma oneshot_fixed [test_eval]:
  "oneshot st ''/api/receiver'' params = Some (200, JsonBody (json_of_receiver (get_receiver (as_store st) (as_receiver st))))"
  "oneshot st ''/api/events'' params = Some (200, EventStream (get_events (as_events_seq st)))"
  "oneshot st ''/api/lint'' params = Some (200, JsonBody (json_of_lint get_lint))"
  by (simp_all add: oneshot_def router_def call_handler_def API_ROUTES_def starts_with_def)

lemmas [test_eval] = get_receiver_def json_of_receiver_def json_of_counters_def json_of_arrivals_def json_of_reject_def
  recent_def push_def record_arrivals_def receiver_default_def REJECT_RING_CAPACITY_def get_events_def event_data_def
  json_of_lint_def get_lint_def

lemma seq_digits: "nat_to_string 3 = ''3''" "nat_to_string 0 = ''0''" by code_simp+

lemma receiver_tests_pass:
  "reports_store_counters_arrivals_and_recent_rejects = Some ()"
  "connecting_yields_the_current_seq_immediately = Some ()"
  "carries_no_span_data = Some ()"
  "returns_an_empty_findings_list = Some ()"
proof -
  show "reports_store_counters_arrivals_and_recent_rejects = Some ()"
    unfolding reports_store_counters_arrivals_and_recent_rejects_def by (simp add: test_eval Let_def)
qed (simp_all add: test_eval Let_def seq_digits)

end
