(* ===== verification/Client_Tests.thy ===== *)
theory Client_Tests
  imports Route_Tests
begin

text \<open>
  The unit tests of \<open>src/client.rs\<close> and \<open>dump.rs\<close>, run on the model as in \<open>Trace_Tests\<close>.  The listener a test
  starts is the \<open>exchange\<close> of a client environment; the API router of the dump tests is served with the
  libraries of \<open>Sample_Web\<close>.
\<close>

section \<open>\<open>client.rs\<close>\<close>

text \<open>A listener that hands back a fixed response, and a port with no listener.\<close>
definition one_shot_server :: "(u8 list \<Rightarrow> string + json) \<Rightarrow> net_result \<Rightarrow> unit client_env" where
  [test_eval]: "one_shot_server parser response =
    \<lparr>exchange = (\<lambda>w addr req. (w, response)), from_slice = parser, to_string_pretty = (\<lambda>_. Inr [])\<rparr>"

text \<open>\<open>unwrap\<close> and \<open>unwrap_err\<close>\<close>
definition unwrap_ok :: "'w \<times> (string + 'a) \<Rightarrow> 'a panics" where
  [test_eval]: "unwrap_ok r = (case snd r of Inr v \<Rightarrow> Some v | Inl _ \<Rightarrow> None)"

definition unwrap_err :: "'w \<times> (string + 'a) \<Rightarrow> string panics" where
  [test_eval]: "unwrap_err r = (case snd r of Inl e \<Rightarrow> Some e | Inr _ \<Rightarrow> None)"

definition parses_the_json_body_of_a_200_response :: "(u8 list \<Rightarrow> string + json) \<Rightarrow> string \<Rightarrow> unit panics" where
  "parses_the_json_body_of_a_200_response parser addr =
    do { let env = one_shot_server parser (Received (bytes_of
           (''HTTP/1.1 200 OK'' @ CRLF @ ''Content-Type: application/json'' @ CRLF @ ''Connection: close'' @ CRLF @ CRLF
            @ ''{'' @ QUOTE @ ''ok'' @ QUOTE @ '':true}'')));
         v \<leftarrow> unwrap_ok (get_json env () addr ''/api/traces'');
         assert_that (v = JObj [(''ok'', JBool True)]) }"

definition a_non_200_status_becomes_a_readable_error :: "(u8 list \<Rightarrow> string + json) \<Rightarrow> string \<Rightarrow> unit panics" where
  "a_non_200_status_becomes_a_readable_error parser addr =
    do { let env = one_shot_server parser (Received (bytes_of
           (''HTTP/1.1 404 Not Found'' @ CRLF @ ''Connection: close'' @ CRLF @ CRLF)));
         err \<leftarrow> unwrap_err (get_json env () addr ''/api/traces/deadbeef'');
         assert_that (str_contains err ''404'') }"

definition connection_refused_names_the_fix :: "(u8 list \<Rightarrow> string + json) \<Rightarrow> string \<Rightarrow> string \<Rightarrow> unit panics" where
  "connection_refused_names_the_fix parser refusal addr =
    do { err \<leftarrow> unwrap_err (get_json (one_shot_server parser (ConnectError refusal)) () addr ''/api/traces'');
         assert_that (str_contains err ''no spanfall instance found'') }"

lemma refused_message:
  "get_json (one_shot_server parser (ConnectError refusal)) () addr path
    = ((), Inl (''no spanfall instance found'' @ '' at '' @ addr @ '' ('' @ refusal @ '') -- start one with `spanfall`''))"
  by (simp add: get_json_def one_shot_server_def)

lemma str_contains_prefix: "str_contains (needle @ rest) needle"
  by (simp add: str_contains_def)

text \<open>The parser of the JSON library is only asked for the one document of the test.\<close>
lemma client_tests_pass:
  "parser (bytes_of (''{'' @ QUOTE @ ''ok'' @ QUOTE @ '':true}'')) = Inr (JObj [(''ok'', JBool True)]) \<Longrightarrow>
    parses_the_json_body_of_a_200_response parser addr = Some ()"
  "a_non_200_status_becomes_a_readable_error parser addr = Some ()"
  "connection_refused_names_the_fix parser refusal addr = Some ()"
proof -
  let ?h = "''HTTP/1.1 200 OK'' @ CRLF @ ''Content-Type: application/json'' @ CRLF @ ''Connection: close''"
  let ?b = "''{'' @ QUOTE @ ''ok'' @ QUOTE @ '':true}''"
  have w: "find_window (bytes_of (CRLF @ CRLF)) (bytes_of ((?h @ CRLF @ CRLF) @ ?b)) = Some (length ?h)" by code_simp
  have l: "lines (from_utf8_lossy (text_of (take (length ?h) (bytes_of ((?h @ CRLF @ CRLF) @ ?b)))))
    = [''HTTP/1.1 200 OK'', ''Content-Type: application/json'', ''Connection: close'']" by code_simp
  have d: "drop (length ?h + 4) (bytes_of ((?h @ CRLF @ CRLF) @ ?b)) = bytes_of ?b" by code_simp
  have c: "str_contains ''HTTP/1.1 200 OK'' '' 200 ''"
    unfolding str_contains_def sublist_def by (intro exI [of _ "''HTTP/1.1''"] exI [of _ "''OK''"]) simp
  show "parses_the_json_body_of_a_200_response parser addr = Some ()" if "parser (bytes_of ?b) = Inr (JObj [(''ok'', JBool True)])"
    unfolding parses_the_json_body_of_a_200_response_def get_json_def one_shot_server_def unwrap_ok_def assert_that_def
    using w l d that by (simp only: append_assoc client_env.simps prod.case Let_def net_result.simps option.simps
        list.simps c snd_conv sum.simps Option.bind.bind_lunit not_True_eq_False if_False if_True refl)
  let ?g = "''HTTP/1.1 404 Not Found'' @ CRLF @ ''Connection: close''"
  have w: "find_window (bytes_of (CRLF @ CRLF)) (bytes_of (?g @ CRLF @ CRLF)) = Some (length ?g)" by code_simp
  have l: "lines (from_utf8_lossy (text_of (take (length ?g) (bytes_of (?g @ CRLF @ CRLF)))))
    = [''HTTP/1.1 404 Not Found'', ''Connection: close'']" by code_simp
  have c: "\<not> str_contains ''HTTP/1.1 404 Not Found'' '' 200 ''" by (simp add: str_contains_def sublist_Cons_right)
  have e: "str_contains (''/api/traces/deadbeef'' @ '' returned `'' @ ''HTTP/1.1 404 Not Found'' @ ''`'') ''404''"
    by (simp add: str_contains_def sublist_Cons_right)
  show "a_non_200_status_becomes_a_readable_error parser addr = Some ()"
    unfolding a_non_200_status_becomes_a_readable_error_def get_json_def one_shot_server_def unwrap_err_def assert_that_def
    using w l by (simp only: append_assoc client_env.simps prod.case Let_def net_result.simps option.simps
        list.simps c e snd_conv sum.simps Option.bind.bind_lunit if_True not_False_eq_True refl)
  show "connection_refused_names_the_fix parser refusal addr = Some ()"
    unfolding connection_refused_names_the_fix_def refused_message unwrap_err_def assert_that_def
    by (simp only: snd_conv sum.simps Option.bind.bind_lunit str_contains_prefix if_True)
qed

section \<open>\<open>dump.rs\<close>\<close>

definition dump_store :: "store panics" where
  [test_eval]: "dump_store =
    do { (store, _) \<leftarrow> insert_span id (store_new 10000000) (TraceId (replicate 16 1))
           \<lparr>ns_span_id = SpanId (replicate 8 2), ns_parent_span_id = None, ns_name = ''root'',
            ns_start_time_unix_nano = 100, ns_end_time_unix_nano = 500, ns_status_message = [], ns_status_code = 0,
            ns_unknown_service = False, ns_service_name = Some ''checkout'', ns_attributes = []\<rparr> 0;
         Some store }"

text \<open>The real router behind a port, as the client sees it.\<close>
definition spawn_test_server :: "store \<Rightarrow> nat client_env" where
  "spawn_test_server s = sample_client (\<lambda>_. id) (\<lambda>_. test_state s)"

definition fetch_list_returns_the_resident_trace_summaries :: "string \<Rightarrow> unit panics" where
  "fetch_list_returns_the_resident_trace_summaries addr =
    do { s \<leftarrow> dump_store;
         rows \<leftarrow> unwrap_ok (fetch_list (spawn_test_server s) 0 addr);
         assert_that (length rows = 1);
         row \<leftarrow> vec_index rows 0;
         assert_that (field row ''span_count'' = JInt 1) }"

definition fetch_dump_carries_traces_and_receiver_counters :: "string \<Rightarrow> unit panics" where
  "fetch_dump_carries_traces_and_receiver_counters addr =
    do { s \<leftarrow> dump_store;
         dump \<leftarrow> unwrap_ok (fetch_dump (spawn_test_server s) 0 addr);
         full_traces \<leftarrow> as_array (field dump ''traces'');
         assert_that (length full_traces = 1);
         t \<leftarrow> vec_index full_traces 0;
         names \<leftarrow> as_array (field t ''name_idx'');
         assert_that (length names = 1);
         assert_that (case field (field dump ''receiver'') ''counters'' of JObj _ \<Rightarrow> True | _ \<Rightarrow> False) }"

definition no_running_instance_is_a_clear_error_not_a_panic :: "(u8 list \<Rightarrow> string + json) \<Rightarrow> string \<Rightarrow> string \<Rightarrow> unit panics" where
  "no_running_instance_is_a_clear_error_not_a_panic parser refusal addr =
    do { err \<leftarrow> unwrap_err (fetch_list (one_shot_server parser (ConnectError refusal)) () addr);
         assert_that (str_contains err ''spanfall instance'') }"

text \<open>A document the router serves is the document the client gets, its fields sorted.\<close>
lemma get_json_served:
  assumes "router sample_route id id (test_state s) GET path Map.empty = Some (200, JsonBody v)" "exact v"
    and "CHR '' '' \<notin> set path"
  shows "get_json (spawn_test_server s) k addr path = (Suc k, Inr (canon v))"
proof -
  have r: "router (find_route sample_web) (path_error sample_web) id (test_state s) GET path Map.empty
      = Some (200, JsonBody v)" using assms(1) by (simp add: sample_web_def)
  show ?thesis
    using get_json_instance [OF web_ok_sample instance_at_sample [of addr "\<lambda>_. id" "\<lambda>_. test_state s"] assms(3) r]
      web_okD(2) [OF web_ok_sample assms(2)]
    by (simp add: spawn_test_server_def)
qed

lemma served_routes:
  assumes "list_traces id s = Some out"
  shows "get_json (spawn_test_server s) k addr ''/api/traces'' = (Suc k, Inr (json_vec (canon \<circ> json_of_summary) out))"
    and "get_json (spawn_test_server s) k addr ''/api/receiver''
      = (Suc k, Inr (canon (json_of_receiver (get_receiver s receiver_default))))"
    and "get_trace s (to_hex sample_trace_id) = Some (ApiOk p) \<Longrightarrow>
      get_json (spawn_test_server s) k addr (''/api/traces/'' @ to_hex sample_trace_id) = (Suc k, Inr (canon (json_of_payload p)))"
proof -
  have wf: "trace_id_wf sample_trace_id" by (simp add: wf_simps)
  show "get_json (spawn_test_server s) k addr ''/api/traces'' = (Suc k, Inr (json_vec (canon \<circ> json_of_summary) out))"
    using get_json_served [of s "''/api/traces''"] assms by (simp add: router_get(1) [OF matches_routes_sample] test_state_def)
  show "get_json (spawn_test_server s) k addr ''/api/receiver''
      = (Suc k, Inr (canon (json_of_receiver (get_receiver s receiver_default))))"
    using get_json_served [of s "''/api/receiver''"] by (simp add: router_get(2) [OF matches_routes_sample] test_state_def)
  show "get_json (spawn_test_server s) k addr (''/api/traces/'' @ to_hex sample_trace_id) = (Suc k, Inr (canon (json_of_payload p)))"
    if "get_trace s (to_hex sample_trace_id) = Some (ApiOk p)"
  proof (rule get_json_served [OF _ exact_responses(2) no_space_to_hex [OF wf]])
    show "router sample_route id id (test_state s) GET (''/api/traces/'' @ to_hex sample_trace_id) Map.empty
        = Some (200, JsonBody (json_of_payload p))"
      unfolding router_get(3) [OF matches_routes_sample is_plain_to_hex [OF wf]] by (simp add: test_state_def into_response_def that)
  qed
qed

text \<open>The fields the tests read.\<close>
lemma read_fields:
  "field (canon (json_of_summary x)) ''span_count'' = json_usize (ts_span_count x)"
  "field (canon (json_of_payload p)) ''name_idx'' = json_vec json_unsigned (tp_name_idx p)"
  "field (canon (json_of_receiver r)) ''counters'' = canon (json_of_counters (rsp_counters r))"
  unfolding json_of_summary_def json_of_payload_def json_of_receiver_def
  by (subst field_canon, simp, simp, simp add: comp_def)+

lemma dump_tests_pass:
  "fetch_list_returns_the_resident_trace_summaries addr = Some ()"
  "fetch_dump_carries_traces_and_receiver_counters addr = Some ()"
  "no_running_instance_is_a_clear_error_not_a_panic parser refusal addr = Some ()"
proof -
  obtain s where s: "dump_store = Some s" by (simp add: test_eval Let_def)
  obtain x where x: "list_traces id s = Some [x]" "ts_span_count x = 1" "ts_trace_id x = to_hex sample_trace_id"
    using s by (auto simp add: test_eval Let_def)
  obtain p where p: "get_trace s (to_hex sample_trace_id) = Some (ApiOk p)" "length (tp_name_idx p) = 1"
    using s by (auto simp add: test_eval Let_def)
  note r = served_routes [OF x(1), where addr = addr]
  have l: "dump_traces (spawn_test_server s) 0 addr = (1, Inr [canon (json_of_summary x)])"
    by (simp add: dump_traces_def r(1) json_vec_def)
  show "fetch_list_returns_the_resident_trace_summaries addr = Some ()"
    by (simp add: fetch_list_returns_the_resident_trace_summaries_def s fetch_list_def l unwrap_ok_def vec_index_def
        read_fields x(2) json_usize_def assert_that_def)
  have "fetch_dump (spawn_test_server s) 0 addr = (3, Inr (JObj
      [(''receiver'', canon (json_of_receiver (get_receiver s receiver_default))), (''traces'', JArr [canon (json_of_payload p)])]))"
    by (simp add: fetch_dump_def l row_trace_id x(3) r(3) [OF p(1), simplified] r(2))
  then show "fetch_dump_carries_traces_and_receiver_counters addr = Some ()"
    by (simp add: fetch_dump_carries_traces_and_receiver_counters_def s unwrap_ok_def vec_index_def read_fields
        json_vec_def p(2) assert_that_def json_of_counters_def)
  have "str_contains (''no '' @ ''spanfall instance'' @ rest) ''spanfall instance''" for rest
    unfolding str_contains_def sublist_def by blast
  then show "no_running_instance_is_a_clear_error_not_a_panic parser refusal addr = Some ()"
    by (simp add: no_running_instance_is_a_clear_error_not_a_panic_def fetch_list_def dump_traces_def
        refused_message unwrap_err_def assert_that_def)
qed

end
