(* ===== verification/Demo_Tests.thy ===== *)
theory Demo_Tests
  imports Demo Contents Trace_Tests
begin

text \<open>
  The unit tests of \<open>src/demo.rs\<close>, run on the model as in \<open>Trace_Tests\<close>.  The 211 insertions of the seeding are not
  evaluated one by one: by \<open>Contents\<close> the seeded store holds the curated spans, and the tests read those.
\<close>

section \<open>The seeded store holds the curated spans\<close>

lemma puts_fresh:
  "distinct (keys_of xs) \<Longrightarrow> (\<And>x. x \<in> set xs \<Longrightarrow> ns_span_id (snd x) \<notin> ns_span_id ` set (m (fst x))) \<Longrightarrow>
   foldl put_span m xs = (\<lambda>t. m t @ map snd (filter (\<lambda>x. fst x = t) xs))"
proof (induction xs arbitrary: m)
  case (Cons x xs)
  have new: "ns_span_id (snd x) \<notin> set (map ns_span_id (m (fst x)))" using Cons.prems(2) by simp
  then have "upsert (m (fst x)) (snd x) = m (fst x) @ [snd x]"
    by (simp add: upsert_def index_of_None [THEN iffD2])
  then have put: "put_span m x = m(fst x := m (fst x) @ [snd x])" by (simp add: put_span_def)
  have "ns_span_id (snd y) \<notin> ns_span_id ` set (put_span m x (fst y))" if "y \<in> set xs" for y
  proof -
    have "(fst y, ns_span_id (snd y)) \<in> set (keys_of xs)" using that by (auto simp: keys_of_def)
    moreover have "(fst x, ns_span_id (snd x)) \<notin> set (keys_of xs)" using Cons.prems(1) by (simp add: keys_of_def)
    ultimately have "(fst y, ns_span_id (snd y)) \<noteq> (fst x, ns_span_id (snd x))" by auto
    then show ?thesis using Cons.prems(2) [of y] that by (auto simp: put)
  qed
  moreover have "distinct (keys_of xs)" using Cons.prems(1) by (simp add: keys_of_def)
  ultimately have "foldl put_span (put_span m x) xs = (\<lambda>t. put_span m x t @ map snd (filter (\<lambda>x. fst x = t) xs))"
    using Cons.IH [of "put_span m x"] by blast
  then show ?case by (auto simp: put)
qed simp

lemma demo_inserts_hold:
  assumes "store_inv n s" "n + sum_list (map (\<lambda>x. length (ns_attributes (snd x))) xs) < 2 ^ 32"
    and "store_roomy K S s" "\<forall>x \<in> set xs. span_strings_in K S (snd x)" "\<forall>k. holds s k (m k)"
  shows "\<exists>s' now'. foldO demo_insert (s, now) xs = Some (s', now')
    \<and> store_inv (n + sum_list (map (\<lambda>x. length (ns_attributes (snd x))) xs)) s'
    \<and> (\<forall>k. holds s' k (foldl put_span m xs k))
    \<and> store_bytes s' \<le> store_bytes s + sum_list (map (span_bytes \<circ> snd) xs)
    \<and> s_max_memory_bytes s' = s_max_memory_bytes s"
  using assms
proof (induction xs arbitrary: n s m now)
  case (Cons x xs)
  have room: "n + length (ns_attributes (snd x)) < 2 ^ 32" using Cons.prems(2) by simp
  from insert_span_no_evict_inv [OF Cons.prems(1) room] obtain s1 out where
    i: "insert_span_no_evict s (fst x) (snd x) now = Some (s1, out)" "store_inv (n + length (ns_attributes (snd x))) s1"
    by blast
  have strs: "span_strings_in K S (snd x)" using Cons.prems(4) by simp
  note h = insert_holds [OF Cons.prems(1) room Cons.prems(3) strs i(1)]
    and b = insert_span_bytes [OF Cons.prems(1) room i(1)] insert_effect(6) [OF Cons.prems(1) room i(1)]
  have put: "\<forall>k. holds s1 k (put_span m x k)"
  proof
    fix k
    from h(1) [OF spec [OF Cons.prems(5)], of k] show "holds s1 k (put_span m x k)"
      by (cases "k = fst x") (simp_all add: put_span_def)
  qed
  from Cons.IH [OF i(2) _ h(2) _ put, of "now + 1"] Cons.prems(2,4) obtain s' now' where
    "foldO demo_insert (s1, now + 1) xs = Some (s', now')"
    "store_inv (n + length (ns_attributes (snd x)) + sum_list (map (\<lambda>x. length (ns_attributes (snd x))) xs)) s'"
    "\<forall>k. holds s' k (foldl put_span (put_span m x) xs k)"
    "store_bytes s' \<le> store_bytes s1 + sum_list (map (span_bytes \<circ> snd) xs)"
    "s_max_memory_bytes s' = s_max_memory_bytes s1"
    by (fastforce simp: add.assoc)
  moreover have "foldO demo_insert (s, now) (x # xs) = foldO demo_insert (s1, now + 1) xs"
    using i(1) by (simp add: demo_insert_def [of "(s, now)"])
  ultimately show ?case using b by (intro exI [of _ s'] exI [of _ now']) (simp add: add.assoc comp_def)
qed simp

definition demo_contents :: "trace_id \<Rightarrow> new_span list" where
  "demo_contents tid = map snd (filter (\<lambda>x. fst x = tid) demo_spans)"

lemma length_nat_to_string: "length (nat_to_string n) \<le> Suc n"
proof (induction n rule: nat_to_string.induct)
  case (1 n)
  then show ?case by (subst nat_to_string.simps) (auto simp: le_Suc_eq intro: order.trans)
qed

lemma demo_bytes: "sum_list (map (span_bytes \<circ> snd) demo_spans) \<le> 100000"
proof -
  have "(span_bytes \<circ> snd \<circ> (\<lambda>i. (search, search_span i))) i \<le> 270" if "i < 200" for i
    using length_nat_to_string [of i] that
    by (simp add: span_bytes_def search_span_def demo_span_def APPROX_SPAN_FIXED_BYTES_def)
  then have "sum_list (map (span_bytes \<circ> snd \<circ> (\<lambda>i. (search, search_span i))) [0..<200])
      \<le> sum_list (map (\<lambda>_. 270) [0..<200])" by (intro sum_list_mono) simp
  then show ?thesis
    by (simp add: demo_spans_def sum_list_triv comp_def)
      (simp add: span_bytes_def demo_span_def APPROX_SPAN_FIXED_BYTES_def APPROX_ATTR_FIXED_BYTES_def)
qed

lemma seed_holds:
  assumes "iterates ord" "100000 \<le> budget"
  obtains s where "\<And>ord. iterates ord \<Longrightarrow> seed ord (store_new budget) = Some s" "store_inv 2 s"
    "\<And>tid. holds s tid (demo_contents tid)"
proof -
  let ?K = "set [''http.status_code'']"
    and ?S = "set [''checkout'', ''payments'', ''inventory'', ''gateway'', ''auth'', ''orders'', ''billing'', ''reporting'', ''search'']"
  have cost: "sum_list (map (\<lambda>x. length (ns_attributes (snd x))) demo_spans) = 2"
    by (simp add: demo_spans_def demo_span_def search_span_def comp_def sum_list_triv)
  have strs: "\<forall>x \<in> set demo_spans. span_strings_in ?K ?S (snd x)"
    by (auto simp: demo_spans_def demo_span_def search_span_def span_strings_in_def)
  have "store_roomy ?K ?S (store_new budget)"
    unfolding store_roomy_def store_new_def
    using card_length [of "[''http.status_code'']"]
      card_length [of "[''checkout'', ''payments'', ''inventory'', ''gateway'', ''auth'', ''orders'', ''billing'', ''reporting'', ''search'']"]
    by (simp add: GLOBAL_INTERNER_CAP_def roomy_new del: list.set)
  note roomy = this
  have "\<forall>k. holds (store_new budget) k ((\<lambda>_. []) k)" by (simp add: holds_def store_new_def trace_def)
  moreover have "0 + sum_list (map (\<lambda>x. length (ns_attributes (snd x))) demo_spans) < 2 ^ 32" unfolding cost by simp
  ultimately obtain s now' where s: "foldO demo_insert (store_new budget, 0) demo_spans = Some (s, now')" "store_inv 2 s"
    "\<forall>k. holds s k (foldl put_span (\<lambda>_. []) demo_spans k)"
    "store_bytes s \<le> store_bytes (store_new budget) + sum_list (map (span_bytes \<circ> snd) demo_spans)"
    "s_max_memory_bytes s = s_max_memory_bytes (store_new budget)"
    using demo_inserts_hold [OF store_inv_new [of 0 budget] _ roomy strs, of "\<lambda>_. []" 0] unfolding cost add_0 by metis
  have budget: "s_max_memory_bytes (store_new budget) = budget" by (simp add: store_new_def)
  have "foldl put_span (\<lambda>_. []) demo_spans = demo_contents"
    using puts_fresh [OF demo_keys_distinct, of "\<lambda>_. []"] by (simp add: demo_contents_def fun_eq_iff)
  moreover have "store_bytes s \<le> s_max_memory_bytes s"
    using s(4,5) budget demo_bytes assms(2) by (simp add: store_bytes_def store_new_def)
  then have "seed ord' (store_new budget) = Some s" if "iterates ord'" for ord'
    using evict_over_budget_sweep [OF that s(2)] s(1) by (auto simp: seed_def)
  ultimately show thesis using s(2,3) by (intro that [of s]) simp_all
qed

section \<open>Reading a trace through its spans\<close>

lemma holds_access:
  assumes "holds s tid spans" "trace s tid = Some t"
  shows "span_count t = length spans" "t_start t = map ns_start_time_unix_nano spans" "t_end t = map ns_end_time_unix_nano spans"
    and "i < length spans \<Longrightarrow> name t i = Some (ns_name (spans ! i))"
    "i < length spans \<Longrightarrow> start_time_unix_nano t i = Some (ns_start_time_unix_nano (spans ! i))"
    "i < length spans \<Longrightarrow> end_time_unix_nano t i = Some (ns_end_time_unix_nano (spans ! i))"
    "i < length spans \<Longrightarrow> unknown_service t i = Some (ns_unknown_service (spans ! i))"
    "i < length spans \<Longrightarrow> parent_idx t i = Some (parent_in (map ns_span_id spans) (ns_parent_span_id (spans ! i)))"
    "i < length spans \<Longrightarrow> is_orphan t i = Some (orphan_in (map ns_span_id spans) (ns_parent_span_id (spans ! i)))"
    "i < length spans \<Longrightarrow> \<exists>sid. service_name_id t i = Some sid
       \<and> map_option (service_name s) sid = map_option Some (ns_service_name (spans ! i))"
    "i < length spans \<Longrightarrow> \<exists>ks. attribute_keys t i = Some ks \<and> map (attribute_key s) ks = map (Some \<circ> fst) (ns_attributes (spans ! i))
       \<and> attributes t i = Some (map snd (ns_attributes (spans ! i)))"
proof -
  let ?of = "span_of (s_key_interner s) (s_service_interner s)"
  from assms obtain rows where rows: "rows_ok rows" "t = repr tid (t_generation t) (t_last_activity t) rows"
    "\<forall>r \<in> set rows. row_resolves (s_key_interner s) (s_service_interner s) r" "spans = map ?of rows"
    by (rule holds_resident)
  obtain g la where t: "t = repr tid g la rows" using rows(2) by blast
  have len: "length spans = length rows" by (simp add: rows(4))
  show "span_count t = length spans" "t_start t = map ns_start_time_unix_nano spans" "t_end t = map ns_end_time_unix_nano spans"
    by (simp_all add: t rows(4) comp_def)
  assume "i < length spans"
  then have i: "i < length rows" by (simp add: len)
  show "name t i = Some (ns_name (spans ! i))" "start_time_unix_nano t i = Some (ns_start_time_unix_nano (spans ! i))"
    "end_time_unix_nano t i = Some (ns_end_time_unix_nano (spans ! i))"
    "unknown_service t i = Some (ns_unknown_service (spans ! i))"
    "parent_idx t i = Some (parent_in (map ns_span_id spans) (ns_parent_span_id (spans ! i)))"
    "is_orphan t i = Some (orphan_in (map ns_span_id spans) (ns_parent_span_id (spans ! i)))"
    using i by (simp_all add: t rows(4) repr_access comp_def)
  have ok: "row_resolves (s_key_interner s) (s_service_interner s) (rows ! i)" using rows(3) i by simp
  then show "\<exists>sid. service_name_id t i = Some sid \<and> map_option (service_name s) sid = map_option Some (ns_service_name (spans ! i))"
    using i by (cases "r_service (rows ! i)") (auto simp: t rows(4) repr_access span_of_def row_resolves_def service_name_def)
  have "map (attribute_key s) (map fst (r_attrs (rows ! i))) = map (Some \<circ> fst) (ns_attributes (spans ! i))"
    using ok i by (auto simp: rows(4) span_of_def row_resolves_def attribute_key_def)
  moreover have "map snd (ns_attributes (spans ! i)) = map snd (r_attrs (rows ! i))"
    using i by (simp add: rows(4) span_of_def comp_def)
  ultimately show "\<exists>ks. attribute_keys t i = Some ks \<and> map (attribute_key s) ks = map (Some \<circ> fst) (ns_attributes (spans ! i))
       \<and> attributes t i = Some (map snd (ns_attributes (spans ! i)))"
    using repr_attrs [OF rows(1) i] by (auto simp: t)
qed

lemma demo_trace_ids: "distinct [checkout, anon, broken, drift, slow, search]"
  by (simp add: checkout_def anon_def broken_def drift_def slow_def search_def bytes_of_def byte_def)

lemma demo_contents_of:
  "demo_contents anon = [demo_span (bytes_of ''anon0001'') None ''GET /health'' 0 5000000 None]"
  "demo_contents broken =
    [demo_span (bytes_of ''gateway1'') None ''gateway'' 0 200000000 (Some ''gateway''),
     demo_span (bytes_of ''authchld'') (Some (bytes_of ''neverprt'')) ''validate-token'' 5000000 40000000 (Some ''auth'')]"
  "demo_contents drift =
    [(demo_span (bytes_of ''drift001'') None ''GET /orders'' 0 50000000 (Some ''orders''))\<lparr>ns_attributes := [(''http.status_code'', Int64 200)]\<rparr>,
     (demo_span (bytes_of ''drift002'') None ''GET /invoice'' 0 60000000 (Some ''billing''))\<lparr>ns_attributes := [(''http.status_code'', Str ''200'')]\<rparr>]"
  "demo_contents slow =
    [demo_span (bytes_of ''slowroot'') None ''batch-export'' 0 3000000000 (Some ''reporting''),
     demo_span (bytes_of ''slowleaf'') (Some (bytes_of ''slowroot'')) ''render-pdf'' 0 2000000000 (Some ''reporting'')]"
  "demo_contents search = demo_span (bytes_of ''searchrt'') None ''search-request'' 0 500000000 (Some ''search'') # map search_span [0..<200]"
  using demo_trace_ids by (auto simp: demo_contents_def demo_spans_def filter_map comp_def)

section \<open>The tests\<close>

definition seeded :: "hash_order \<Rightarrow> store panics" where
  "seeded ord = seed ord (store_new 18446744073709551615)"

text \<open>\<open>Iterator::any\<close>\<close>
primrec anyO :: "('a \<Rightarrow> bool panics) \<Rightarrow> 'a list \<Rightarrow> bool panics" where
  "anyO f [] = Some False"
| "anyO f (x # xs) = do { b \<leftarrow> f x; if b then Some True else anyO f xs }"

lemma anyO_Some: "(\<And>x. x \<in> set xs \<Longrightarrow> f x = Some (g x)) \<Longrightarrow> anyO f xs = Some (list_ex g xs)"
  by (induction xs) auto

lemma seeded_store:
  assumes "iterates ord"
  obtains s where "\<And>ord. iterates ord \<Longrightarrow> seeded ord = Some s" "store_inv 2 s"
    "\<And>tid. holds s tid (demo_contents tid)"
  using seed_holds [OF assms, of 18446744073709551615] unfolding seeded_def by (metis numeral_le_iff rel_simps)

lemma seeded_trace:
  assumes "holds s tid (demo_contents tid)" "demo_contents tid = x # xs"
  obtains t where "trace s tid = Some t" "holds s tid (x # xs)"
  using assms by (cases "trace s tid") (auto simp: holds_def)

lemma iterated_trace:
  assumes "iterates ord" "store_inv n s"
  shows "e \<in> set (traces ord s) \<longleftrightarrow> trace s (fst e) = Some (snd e)"
  using iterates_set [OF assms(1)] store_invD(1) [OF assms(2)] by (cases e) (simp add: traces_def trace_def)

definition seeds_a_missing_service_name_span :: "hash_order \<Rightarrow> unit panics" where
  "seeds_a_missing_service_name_span ord =
    do { s \<leftarrow> seeded ord;
         found \<leftarrow> anyO (\<lambda>(_, t). anyO (unknown_service t) [0..<span_count t]) (traces ord s);
         assert_that found }"

lemma missing_service_name_test_passes:
  assumes "iterates ord"
  shows "seeds_a_missing_service_name_span ord = Some ()"
proof -
  from assms obtain s where s: "\<And>ord. iterates ord \<Longrightarrow> seeded ord = Some s" "store_inv 2 s"
    "\<And>tid. holds s tid (demo_contents tid)" by (rule seeded_store) blast
  let ?g = "\<lambda>(tid, t). list_ex (\<lambda>i. ns_unknown_service (demo_contents tid ! i)) [0..<length (demo_contents tid)]"
  have "(case e of (_, t) \<Rightarrow> anyO (unknown_service t) [0..<span_count t]) = Some (?g e)" if "e \<in> set (traces ord s)" for e
  proof -
    from that iterated_trace [OF assms s(2)] have "trace s (fst e) = Some (snd e)" by blast
    note a = holds_access [OF s(3) this]
    show ?thesis by (cases e) (use a(1,7) in \<open>auto intro!: anyO_Some\<close>)
  qed
  then have any: "anyO (\<lambda>(_, t). anyO (unknown_service t) [0..<span_count t]) (traces ord s) = Some (list_ex ?g (traces ord s))"
    by (rule anyO_Some)
  obtain t where "trace s anon = Some t" using s(3) demo_contents_of(1) by (rule seeded_trace)
  then have "(anon, t) \<in> set (traces ord s)" using iterated_trace [OF assms s(2), of "(anon, t)"] by simp
  moreover have "?g (anon, t)" by (simp add: demo_contents_of(1) demo_span_def)
  ultimately have "list_ex ?g (traces ord s)" unfolding list_ex_iff by blast
  then show ?thesis by (simp add: seeds_a_missing_service_name_span_def s(1) [OF assms] any assert_that_def)
qed

text \<open>The services of a multi-service trace are collected in a set.\<close>
definition seeds_an_orphan_span_in_a_multi_service_trace :: "hash_order \<Rightarrow> unit panics" where
  "seeds_an_orphan_span_in_a_multi_service_trace ord =
    do { s \<leftarrow> seeded ord;
         t \<leftarrow> trace s broken;
         (services, has_orphan) \<leftarrow> foldO (\<lambda>(services, has_orphan) i.
             do { orphan \<leftarrow> is_orphan t i;
                  sid \<leftarrow> service_name_id t i;
                  case sid of
                    None \<Rightarrow> Some (services, has_orphan \<or> orphan)
                  | Some sid \<Rightarrow> do { nm \<leftarrow> service_name s sid; Some (insert nm services, has_orphan \<or> orphan) } })
           ({}, False) [0..<span_count t];
         assert_that has_orphan;
         assert_that (2 \<le> card services) }"

lemma orphan_test_passes:
  assumes "iterates ord"
  shows "seeds_an_orphan_span_in_a_multi_service_trace ord = Some ()"
proof -
  from assms obtain s where s: "\<And>ord. iterates ord \<Longrightarrow> seeded ord = Some s" "store_inv 2 s"
    "\<And>tid. holds s tid (demo_contents tid)" by (rule seeded_store) blast
  obtain t where t: "trace s broken = Some t" using s(3) demo_contents_of(2) by (rule seeded_trace)
  note a = holds_access [OF s(3) t, unfolded demo_contents_of(2)]
  obtain i j where svc: "service_name_id t 0 = Some (Some i)" "service_name s i = Some ''gateway''"
    "service_name_id t 1 = Some (Some j)" "service_name s j = Some ''auth''"
    using a(10) [of 0] a(10) [of 1] by (auto simp: demo_span_def)
  have "is_orphan t 0 = Some False" "is_orphan t 1 = Some True"
    using a(9) [of 0] a(9) [of 1]
    by (auto simp: demo_span_def orphan_in_def parent_in_def bytes_of_def byte_def)
  with svc a(1) show ?thesis
    by (simp add: seeds_an_orphan_span_in_a_multi_service_trace_def s(1) [OF assms] t assert_that_def numeral_2_eq_2)
qed

definition kind_of :: "attr_value \<Rightarrow> string" where
  "kind_of value = (case value of Str _ \<Rightarrow> ''str'' | Int64 _ \<Rightarrow> ''int'' | Double _ \<Rightarrow> ''double'' | Bool _ \<Rightarrow> ''bool'')"

definition seeds_the_same_attribute_key_with_two_different_value_types :: "hash_order \<Rightarrow> unit panics" where
  "seeds_the_same_attribute_key_with_two_different_value_types ord =
    do { s \<leftarrow> seeded ord;
         t \<leftarrow> trace s drift;
         kinds \<leftarrow> foldO (\<lambda>kinds i.
             do { ks \<leftarrow> attribute_keys t i;
                  vs \<leftarrow> attributes t i;
                  foldO (\<lambda>kinds (key_id, value).
                      do { key \<leftarrow> attribute_key s key_id;
                           Some (if key = ''http.status_code'' then insert (kind_of value) kinds else kinds) })
                    kinds (zip ks vs) })
           {} [0..<span_count t];
         assert_that (card kinds = 2) }"

lemma attribute_drift_test_passes:
  assumes "iterates ord"
  shows "seeds_the_same_attribute_key_with_two_different_value_types ord = Some ()"
proof -
  from assms obtain s where s: "\<And>ord. iterates ord \<Longrightarrow> seeded ord = Some s" "store_inv 2 s"
    "\<And>tid. holds s tid (demo_contents tid)" by (rule seeded_store) blast
  obtain t where t: "trace s drift = Some t" using s(3) demo_contents_of(3) by (rule seeded_trace)
  note a = holds_access [OF s(3) t, unfolded demo_contents_of(3)]
  obtain i j where "attribute_keys t 0 = Some [i]" "attribute_key s i = Some ''http.status_code''"
    "attributes t 0 = Some [Int64 200]" "attribute_keys t 1 = Some [j]" "attribute_key s j = Some ''http.status_code''"
    "attributes t 1 = Some [Str ''200'']"
    using a(11) [of 0] a(11) [of 1] by (auto simp: demo_span_def)
  with a(1) show ?thesis
    by (simp add: seeds_the_same_attribute_key_with_two_different_value_types_def s(1) [OF assms] t assert_that_def
        numeral_2_eq_2 kind_of_def)
qed

text \<open>The subtraction and the multiplication of the test panic when they overflow.\<close>
definition seeds_a_long_leaf_span_over_half_its_parents_duration :: "hash_order \<Rightarrow> unit panics" where
  "seeds_a_long_leaf_span_over_half_its_parents_duration ord =
    do { s \<leftarrow> seeded ord;
         t \<leftarrow> trace s slow;
         parent_duration \<leftarrow> duration_nanos t;
         found \<leftarrow> foldO (\<lambda>found i.
             do { parent \<leftarrow> parent_idx t i;
                  case parent of
                    None \<Rightarrow> Some found
                  | Some _ \<Rightarrow>
                      do { stop \<leftarrow> end_time_unix_nano t i;
                           start \<leftarrow> start_time_unix_nano t i;
                           duration \<leftarrow> checked_sub stop start;
                           if 1000000000 < duration
                           then do { twice \<leftarrow> checked_mul duration 2; Some (if parent_duration < twice then True else found) }
                           else Some found } })
           False [0..<span_count t];
         assert_that found }"

lemma slow_leaf_test_passes:
  assumes "iterates ord"
  shows "seeds_a_long_leaf_span_over_half_its_parents_duration ord = Some ()"
proof -
  from assms obtain s where s: "\<And>ord. iterates ord \<Longrightarrow> seeded ord = Some s" "store_inv 2 s"
    "\<And>tid. holds s tid (demo_contents tid)" by (rule seeded_store) blast
  obtain t where t: "trace s slow = Some t" using s(3) demo_contents_of(4) by (rule seeded_trace)
  note a = holds_access [OF s(3) t, unfolded demo_contents_of(4)]
  have "duration_nanos t = Some 3000000000"
    using a(2,3) by (simp add: duration_nanos_def demo_span_def checked_sub_def)
  moreover have "parent_idx t 0 = Some None" "parent_idx t 1 = Some (Some 0)"
    "end_time_unix_nano t 1 = Some 2000000000" "start_time_unix_nano t 1 = Some 0"
    using a(8) [of 0] a(8) [of 1] a(6) [of 1] a(5) [of 1] by (simp_all add: demo_span_def parent_in_def)
  moreover have "[0..<span_count t] = [0, 1]" using a(1) by (simp add: upt_rec)
  moreover have "checked_sub 2000000000 0 = Some 2000000000" "checked_mul 2000000000 2 = Some 4000000000"
    "(1000000000 :: u64) < 2000000000" "(3000000000 :: u64) < 4000000000"
    by (simp_all add: checked_sub_def checked_mul_def)
  ultimately show ?thesis
    by (simp add: seeds_a_long_leaf_span_over_half_its_parents_duration_def s(1) [OF assms] t assert_that_def)
qed

definition seeds_at_least_two_hundred_distinct_span_names :: "hash_order \<Rightarrow> unit panics" where
  "seeds_at_least_two_hundred_distinct_span_names ord =
    do { s \<leftarrow> seeded ord;
         names \<leftarrow> foldO (\<lambda>names (_, t).
             foldO (\<lambda>names i. do { nm \<leftarrow> name t i; Some (insert nm names) }) names [0..<span_count t])
           {} (traces ord s);
         assert_that (200 \<le> card names) }"

lemma foldO_insert:
  "(\<And>i. i \<in> set is \<Longrightarrow> f i = Some (g i)) \<Longrightarrow> foldO (\<lambda>A i. do { x \<leftarrow> f i; Some (insert x A) }) A is = Some (A \<union> g ` set is)"
  by (induction "is" arbitrary: A) auto

lemma foldO_union:
  "(\<And>A e. e \<in> set es \<Longrightarrow> h A e = Some (A \<union> B e)) \<Longrightarrow> foldO h A es = Some (A \<union> (\<Union>e \<in> set es. B e))"
  by (induction es arbitrary: A) auto

lemma inj_nat_to_string: "inj nat_to_string"
proof (rule injI)
  fix m n assume eq: "nat_to_string m = nat_to_string n"
  have "from_str_radix_unsigned (Suc (m + n)) 10 (nat_to_string m) = Some m"
    "from_str_radix_unsigned (Suc (m + n)) 10 (nat_to_string n) = Some n"
    by (simp_all only: from_str_radix_nat) simp_all
  with arg_cong [OF eq, of "from_str_radix_unsigned (Suc (m + n)) 10"] show "m = n" by (metis option.inject)
qed

lemma span_names_test_passes:
  assumes "iterates ord"
  shows "seeds_at_least_two_hundred_distinct_span_names ord = Some ()"
proof -
  from assms obtain s where s: "\<And>ord. iterates ord \<Longrightarrow> seeded ord = Some s" "store_inv 2 s"
    "\<And>tid. holds s tid (demo_contents tid)" by (rule seeded_store) blast
  let ?body = "\<lambda>names (_, t). foldO (\<lambda>names i. do { nm \<leftarrow> name t i; Some (insert nm names) }) names [0..<span_count t]"
  let ?names = "\<lambda>e. (\<lambda>i. ns_name (demo_contents (fst e) ! i)) ` {0..<length (demo_contents (fst e))}"
  have "?body A e = Some (A \<union> ?names e)" if "e \<in> set (traces ord s)" for A e
  proof -
    from that iterated_trace [OF assms s(2)] have "trace s (fst e) = Some (snd e)" by blast
    note a = holds_access [OF s(3) this]
    show ?thesis
      using foldO_insert [of "[0..<span_count (snd e)]" "name (snd e)" "\<lambda>i. ns_name (demo_contents (fst e) ! i)" A] a(1,4)
      by (cases e) simp
  qed
  then have all: "foldO ?body {} (traces ord s) = Some ({} \<union> (\<Union>e \<in> set (traces ord s). ?names e))"
    by (rule foldO_union)
  obtain t where "trace s search = Some t" using s(3) demo_contents_of(5) by (rule seeded_trace)
  then have e: "(search, t) \<in> set (traces ord s)" using iterated_trace [OF assms s(2), of "(search, t)"] by simp
  let ?q = "(\<lambda>i. ''query:'' @ nat_to_string i) ` {0..<200}"
  have "''query:'' @ nat_to_string i \<in> ?names (search, t)" if "i < 200" for i
  proof -
    have "demo_contents search ! Suc i = search_span i" using that by (simp add: demo_contents_of(5))
    moreover have "ns_name (search_span i) = ''query:'' @ nat_to_string i" by (simp add: search_span_def demo_span_def)
    ultimately have n: "''query:'' @ nat_to_string i = ns_name (demo_contents (fst (search, t)) ! Suc i)" by (simp only: fst_conv)
    have l: "Suc i \<in> {0..<length (demo_contents (fst (search, t)))}" using that by (simp add: demo_contents_of(5))
    show ?thesis using n l by (rule image_eqI)
  qed
  then have "?q \<subseteq> ?names (search, t)" by (intro image_subsetI) simp
  also have "\<dots> \<subseteq> (\<Union>e \<in> set (traces ord s). ?names e)" using e by (rule UN_upper)
  finally have "card ?q \<le> card (\<Union>e \<in> set (traces ord s). ?names e)" by (rule card_mono [rotated]) simp
  moreover have "card ?q = 200" by (subst card_image) (auto intro!: inj_onI dest: injD [OF inj_nat_to_string])
  ultimately show ?thesis
    unfolding seeds_at_least_two_hundred_distinct_span_names_def s(1) [OF assms] Option.bind.bind_lunit all Un_empty_left
      assert_that_def by simp
qed

text \<open>Two stores are seeded; their hash maps may iterate in different orders.\<close>
definition seeding_is_deterministic_across_runs :: "hash_order \<Rightarrow> hash_order \<Rightarrow> unit panics" where
  "seeding_is_deterministic_across_runs ord1 ord2 =
    do { a \<leftarrow> seeded ord1;
         b \<leftarrow> seeded ord2;
         assert_that (trace_count a = trace_count b);
         ta \<leftarrow> trace a checkout;
         tb \<leftarrow> trace b checkout;
         assert_that (span_count ta = span_count tb);
         foldO (\<lambda>_ i. do { na \<leftarrow> name ta i; nb \<leftarrow> name tb i; assert_that (na = nb);
                           sa \<leftarrow> start_time_unix_nano ta i; sb \<leftarrow> start_time_unix_nano tb i; assert_that (sa = sb) })
           () [0..<span_count ta] }"

lemma deterministic_test_passes:
  assumes "iterates ord1" "iterates ord2"
  shows "seeding_is_deterministic_across_runs ord1 ord2 = Some ()"
proof -
  from assms(1) obtain s where s: "\<And>ord. iterates ord \<Longrightarrow> seeded ord = Some s" "store_inv 2 s"
    "\<And>tid. holds s tid (demo_contents tid)" by (rule seeded_store) blast
  have "demo_contents checkout \<noteq> []" by (simp add: demo_contents_def demo_spans_def)
  then obtain t where t: "trace s checkout = Some t"
    using s(3) [of checkout] holds_nothing [of s checkout] by (cases "trace s checkout") (auto simp: holds_def)
  have "\<exists>u. foldO (\<lambda>_ i. do { na \<leftarrow> name t i; nb \<leftarrow> name t i; assert_that (na = nb);
        sa \<leftarrow> start_time_unix_nano t i; sb \<leftarrow> start_time_unix_nano t i; assert_that (sa = sb) }) () [0..<span_count t] = Some u \<and> u = ()"
    by (rule foldO_inv) (use holds_access(1,4,5) [OF s(3) t] in \<open>simp_all add: assert_that_def\<close>)
  then show ?thesis
    by (simp add: seeding_is_deterministic_across_runs_def s(1) [OF assms(1)] s(1) [OF assms(2)] t assert_that_def)
qed

end
