(* ===== verification/Command_Tests.thy ===== *)
theory Command_Tests
  imports Command_Line Trace_Tests
begin

text \<open>
  The unit tests of \<open>src/port_conflict.rs\<close>, run on the model as in \<open>Trace_Tests\<close>, for any \<open>lsof\<close> that reports a
  listener in its documented form: a header, then a row that starts with the command and the pid.
\<close>

type_synonym lsof = "string list \<Rightarrow> process_output option"

definition lsof_available :: "lsof \<Rightarrow> bool" where
  "lsof_available lsof \<longleftrightarrow> lsof [''-v''] \<noteq> None"

text \<open>A test that is skipped passes.\<close>
definition names_the_process_holding_a_listening_port :: "lsof \<Rightarrow> nat \<Rightarrow> unit panics" where
  "names_the_process_holding_a_listening_port lsof port =
    (if \<not> lsof_available lsof then Some ()
     else do { holder \<leftarrow> describe_holder lsof port; assert_that (str_contains holder ''pid'') })"

definition an_unbound_port_has_no_holder :: "lsof \<Rightarrow> nat \<Rightarrow> unit panics" where
  "an_unbound_port_has_no_holder lsof port =
    (if \<not> lsof_available lsof then Some () else assert_that (describe_holder lsof port = None))"

lemma port_conflict_tests_pass:
  "lsof (lsof_args port) = Some \<lparr>po_success = True, po_stdout = bytes_of (header @ [LF] @ row @ [LF] @ others)\<rparr> \<Longrightarrow>
    utf8_valid (header @ [LF] @ row @ [LF] @ others) \<Longrightarrow> LF \<notin> set header \<Longrightarrow> LF \<notin> set row \<Longrightarrow>
    split_whitespace (strip_eol (row @ [LF])) = cmd # pid # rest \<Longrightarrow>
    names_the_process_holding_a_listening_port lsof port = Some ()"
  "lsof (lsof_args port) = Some \<lparr>po_success = False, po_stdout = out\<rparr> \<Longrightarrow>
    an_unbound_port_has_no_holder lsof port = Some ()"
proof -
  assume "lsof (lsof_args port) = Some \<lparr>po_success = True, po_stdout = bytes_of (header @ [LF] @ row @ [LF] @ others)\<rparr>"
    "utf8_valid (header @ [LF] @ row @ [LF] @ others)" "LF \<notin> set header" "LF \<notin> set row"
    "split_whitespace (strip_eol (row @ [LF])) = cmd # pid # rest"
  then have h: "describe_holder lsof port = Some (cmd @ '' (pid '' @ pid @ '')'')" by (rule describe_holder_first_row)
  have "sublist ''pid'' (cmd @ '' (pid '' @ pid @ '')'')"
    unfolding sublist_def by (intro exI [of _ "cmd @ '' (''"] exI [of _ "'' '' @ pid @ '')''"]) simp
  with h show "names_the_process_holding_a_listening_port lsof port = Some ()"
    by (simp only: names_the_process_holding_a_listening_port_def Option.bind.bind_lunit str_contains_def assert_that_def
        if_True split: if_split) simp
qed (simp add: an_unbound_port_has_no_holder_def describe_holder_def assert_that_def)

end
