(* ===== verification/Spec2Isabelle.thy ===== *)
theory Spec2Isabelle
  imports Served Command_Line Sniff Generations Ingest_Tests Client_Tests Demo_Tests Command_Tests
begin

text \<open>
  spanfall is a local OpenTelemetry trace viewer: exporters send it spans over OTLP, it keeps them in
  memory under a byte budget, and a read API serves them to a browser and to its own command line
  client.  This development models the Rust sources under \<open>src/src\<close> as functions and proves what makes
  them correct.

  \<^bold>\<open>The program.\<close>  A request arrives over gRPC (port 4317) or HTTP (port 4318).  Its spans are converted one
  by one; the batch goes through a bounded channel to the one writer task, which inserts its spans
  into the store, sweeps out the oldest traces while the store is over its budget and bumps a sequence
  number.  The handlers of the read API (port 5317) read the store under a lock.  \<open>--dump\<close> and \<open>list\<close> are
  clients of that API.

  \<^bold>\<open>The theories,\<close> in the order of the code.
  \<^item> \<open>Prelude\<close>: machine integers, the panic monad, Rust vectors, strings as UTF-8 bytes, number parsing and
    printing, ragged rows.  \<open>Rust_Text\<close>: \<open>from_utf8_lossy\<close>, \<open>lines\<close>, \<open>split_whitespace\<close>, padding.
    \<open>Rust_Float\<close>: \<open>f64\<close> as its bit pattern, with correctly rounded parsing and shortest printing.
  \<^item> \<open>Types\<close> (\<open>store/types.rs\<close>): identifiers and their hexadecimal form, attribute values.
  \<^item> \<open>Interner\<close> (\<open>store/interner.rs\<close>): the capped string interner; the locale \<open>string_pool\<close> is what its users
    rely on, interpreted for the interner here and for the string table of a payload in \<open>Read_Api\<close>.
  \<^item> \<open>Trace\<close> (\<open>store/trace.rs\<close>): the struct of arrays with attributes in compressed rows, insertion, overwrite
    and the patching of late parents; \<open>repr\<close> maps a list of rows to the arrays, and insertion refines
    an insertion into the list.
  \<^item> \<open>Store\<close> (\<open>store/mod.rs\<close>, \<open>receiver.rs\<close>): the map of traces, counters, resurrection, eviction.
    \<open>Writer\<close> (\<open>store/writer.rs\<close>): batches and runs, under the locale \<open>batch_sink\<close>, refined to a map from
    traces to span ids.  \<open>Capacity\<close>: the growth of the budget's estimate.  \<open>Generations\<close>: how long a position
    in a trace stays valid.  \<open>Contents\<close>: the store read back as the spans it holds per trace (\<open>holds\<close>), with which
    insertion, sweep and the read API commute.
  \<^item> \<open>Convert\<close>, \<open>Receiver_State\<close>, \<open>Handler\<close>, \<open>Sniff\<close> (\<open>ingest/\<close>): conversion of a decoded request, arrival counts
    and the ring of rejects (locale \<open>reject_sink\<close>), the shared accept-or-reject decision and its two wire
    mappings (locale \<open>ingest_endpoint\<close>, interpreted for HTTP and gRPC), the fork on the gRPC port.
  \<^item> \<open>Query_Filter\<close>, \<open>Read_Api\<close>, \<open>Json\<close>, \<open>Api_Router\<close> (\<open>api/\<close>): the query language, every handler (locale
    \<open>trace_endpoint\<close> for those about one trace), the documents they serialize to, the routes.
  \<^item> \<open>Demo\<close> (\<open>demo.rs\<close>), \<open>Client\<close> (\<open>client.rs\<close>, \<open>dump.rs\<close>), \<open>Command_Line\<close> (\<open>cli.rs\<close>, \<open>main.rs\<close>,
    \<open>port_conflict.rs\<close>), \<open>Server\<close> (the state \<open>run_server\<close> wires together and the steps its tasks interleave),
    \<open>Served\<close> (what its API shows of what was sent to it).
    \<open>Sample_Web\<close> is one concrete choice of the libraries between the API and its client.
  \<^item> \<open>Trace_Tests\<close>, \<open>Store_Tests\<close>, \<open>Ingest_Tests\<close>, \<open>Api_Tests\<close>, \<open>Route_Tests\<close>, \<open>Client_Tests\<close>,
    \<open>Demo_Tests\<close>, \<open>Command_Tests\<close>: the unit tests that stand in the source files, each a definition that runs the model on the test's input and a proof that
    every assertion holds.  They tie the model to the expectations of the authors of the code.

  \<^bold>\<open>What is shown.\<close>
  \<^item> Of the whole server (below): every acknowledged batch is applied exactly once and in order; within the
    budget nothing is lost, and the API shows every span of every trace as it was last sent; evictions
    and full interners or not, nothing is shown that was not sent; the writer always drains its queue;
    reads never panic; every id in every column has its length; a dump taken while the server runs is
    complete or quotes the trace that went.
  \<^item> Of the store: the writer never panics and every sweep ends; sweeps evict exactly the least recently
    active traces until the budget holds; retries add nothing; parent links do not depend on arrival
    order; attributes resolve to what was sent; duplicates overwrite all fields but the parent; a position
    in a trace keeps its span id for as long as the trace's generation is unchanged.
  \<^item> Of the edges: both transports answer alike, each branch of accept and reject has its effect and no
    other; payloads decode to the stored rows; a filter returns exactly the matching spans and accounts
    for every term; comparisons of integer attributes and of durations, with the loss of precision and
    the overflow the code has; start-up and exit codes.
  \<^item> Round trips: hexadecimal ids, attribute values matched by their own text, query rendering, \<open>f64\<close>
    printing and parsing, string tables.
  \<^item> Some theorems state behaviour that comments or specifications describe differently; they are
    worded as what the code does.

  \<^bold>\<open>Bounds.\<close>  Attribute offsets are 32-bit, so the layout theorems assume fewer than \<open>2^32\<close> attribute pairs per
  trace; over a run, the bound is on the pairs of all applied batches.  A string table of a payload has at most three
  strings per span, so its 32-bit indices are exact up to \<open>2^32 / 3\<close> spans.  Counters are 64-bit and
  wrap.  The eviction loop is a \<open>partial_function\<close>, shown to end because each round removes a trace; all
  other loops are structural or bounded by their input, and no definition of the program takes fuel.
  The channel holds 1024 batches, the ring 100 rejects, an interner 100000 strings, as in the code.

  \<^bold>\<open>Parameters.\<close>  Code that is not in the repository is an argument, with its documented behaviour as a named
  hypothesis: the iteration order of a hash map (\<open>iterates\<close>), the send on the channel under a timeout
  (\<open>delivers\<close>, \<open>bounded_channel\<close>), the protobuf and JSON decoders, the \<open>Debug\<close> form of a string, the clock, socket reads
  (\<open>peeks_at\<close>), the route matcher, the HTTP framing and JSON text (\<open>web_ok\<close>), binding ports and running \<open>lsof\<close>.

  \<^bold>\<open>Not modelled.\<close>  The parsing of the argument vector (clap), the protobuf and JSON codecs, the HTTP and gRPC
  servers, and the scheduler, which are libraries; keep-alive comments of the event stream; module
  declarations.  Of the unit tests, one that searches the text of a response for the name of an attribute
  key is left out.  Two reads inside one handler that take the locks one after the other
  (\<open>get_receiver\<close>) are modelled as one read of both, and the send of \<open>accept\<close> with the count of arrivals
  after it as one step, so a send still waiting for room is not a state of its own.
\<close>

section \<open>Properties of the running server\<close>

text \<open>
  C1. Acknowledged exactly once, in order.  In every state the server can reach by interleaving
  requests over both transports with the writer, the batches exporters were told are accepted
  are, in that order, the batches the writer has applied followed by those still queued: none is
  lost, duplicated or reordered between the wire and the store.  At most 1024 are queued, the
  sequence number counts the applied ones, and the arrival counters add up to the spans accepted.
\<close>
theorem acknowledged_exactly_once:
  assumes "iterates ord" "build_server ord budget timeout demo = Some y0" "bounded_channel env" "reachable env y0 y"
  shows "y_acked y = y_applied y @ ch_queue (tx (y_ingest y))
    \<and> length (ch_queue (tx (y_ingest y))) \<le> 1024
    \<and> w_seq (y_writer y) = of_nat (length (y_applied y))
    \<and> arrivals_total (arrivals (receiver (y_ingest y))) = of_nat (sum_list (map (length \<circ> sb_spans) (y_acked y)))
    \<and> reject_log_len (rejects (receiver (y_ingest y))) \<le> 100"
  using server_inv_reachable [OF assms(4,3) server_inv_start [OF assms(1,2)]]
  by (auto simp: server_inv_def wf_simps reject_log_len_def REJECT_RING_CAPACITY_def)

theorem acknowledged_exactly_once_witness:
  "\<exists>y0 y. build_server rev 1000 10 False = Some y0 \<and> bounded_channel sample_env \<and> reachable sample_env y0 y
     \<and> y_acked y = y_applied y @ ch_queue (tx (y_ingest y)) \<and> y_acked y \<noteq> []"
proof -
  obtain y0 y where y: "build_server rev 1000 10 False = Some y0" "reachable sample_env y0 y" "y_acked y = [batch_of sample_request]"
    by (rule sample_served)
  from acknowledged_exactly_once [OF iterates_rev y(1) bounded_channel_sample y(2)] y bounded_channel_sample
  show ?thesis by (intro exI [of _ y0] exI [of _ y]) auto
qed

subsection \<open>Progress of the writer\<close>

text \<open>
  C22. The writer always gets there: from every reachable state, as long as the accepted batches
  carry fewer than \<open>2^32\<close> attribute pairs in all, the writer can go on by itself, without ever
  panicking or getting stuck in a sweep, until the channel is empty and every batch that was ever
  acknowledged has been applied.
\<close>
theorem writer_drains:
  assumes "iterates ord" "build_server ord budget timeout demo = Some y0" "bounded_channel env" "reachable env y0 y"
    and "2 + attrs_total (y_acked y) < 2 ^ 32"
  shows "\<exists>y'. writer_steps env y y' \<and> ch_queue (tx (y_ingest y')) = [] \<and> y_applied y' = y_acked y"
proof -
  let ?base = "if demo then 2 else 0 :: nat"
  have "server_inv ?base y" using server_inv_reachable [OF assms(4,3) server_inv_start [OF assms(1,2)]] .
  moreover have "?base + attrs_total (y_acked y) < 2 ^ 32" using assms(5) by simp
  ultimately show ?thesis using writer_drains_queue [OF _ assms(3)] by blast
qed

theorem writer_drains_witness:
  "\<exists>y0 y y'. build_server rev 1000 10 False = Some y0 \<and> reachable sample_env y0 y
     \<and> ch_queue (tx (y_ingest y)) = [batch_of sample_request]
     \<and> writer_steps sample_env y y' \<and> y_applied y' = [batch_of sample_request]"
proof -
  obtain y0 y where y: "build_server rev 1000 10 False = Some y0" "reachable sample_env y0 y"
    "ch_queue (tx (y_ingest y)) = [batch_of sample_request]" "y_acked y = [batch_of sample_request]"
    by (rule sample_served)
  have "batch_attrs (batch_of sample_request) = 0"
    by (simp add: batch_attrs_def batch_of_def sample_request_def request_spans_def convert_one_def)
  then have "2 + attrs_total (y_acked y) < 2 ^ 32" by (simp add: y(4))
  from writer_drains [OF iterates_rev y(1) bounded_channel_sample y(2) this] y show ?thesis by auto
qed

subsection \<open>Within the budget\<close>

text \<open>
  C3. Nothing acknowledged is lost while it fits.  Of a server started empty, in every reachable state in
  which the estimated size of all accepted spans is within \<open>--max-memory\<close> (and they carry fewer than \<open>2^32\<close>
  attribute pairs), no trace has ever been evicted, each trace holds exactly the distinct spans
  applied to it in the order of their first arrival, and every span of every batch that an
  exporter was told is accepted is resident or still queued for the writer.
\<close>
theorem nothing_lost_within_budget:
  assumes "iterates ord" "build_server ord budget timeout False = Some y0" "bounded_channel env" "reachable env y0 y"
    and "attrs_total (y_acked y) < 2 ^ 32" "bytes_total (y_acked y) \<le> budget"
  shows "evicted_traces (s_counters (w_store (y_writer y))) = 0
    \<and> resident_ids (w_store (y_writer y)) = foldl abs_put (\<lambda>_. []) (applied_keys y)
    \<and> (\<forall>b \<in> set (y_acked y). \<forall>x \<in> set (sb_spans b). b \<in> set (ch_queue (tx (y_ingest y)))
         \<or> ns_span_id (snd x) \<in> set (resident_ids (w_store (y_writer y)) (fst x)))"
proof -
  have inv0: "server_inv 0 y0" using server_inv_start [OF assms(1,2)] by simp
  have acked: "y_acked y = y_applied y @ ch_queue (tx (y_ingest y))"
    using server_inv_reachable [OF assms(4,3) inv0] by (simp add: server_inv_def)
  then have "attrs_total (y_applied y) < 2 ^ 32" "bytes_total (y_applied y) \<le> budget"
    using assms(5,6) by (simp_all add: bytes_total_def)
  with capacity_inv_reachable [OF assms(4,3) inv0 capacity_inv_start [OF assms(2)]]
  have c: "resident_ids (w_store (y_writer y)) = foldl abs_put (\<lambda>_. []) (applied_keys y)"
    "evicted_traces (s_counters (w_store (y_writer y))) = 0" by (auto simp: capacity_inv_def)
  have "ns_span_id (snd x) \<in> set (resident_ids (w_store (y_writer y)) (fst x))"
    if "b \<in> set (y_applied y)" "x \<in> set (sb_spans b)" for b x
  proof -
    have "(fst x, ns_span_id (snd x)) \<in> set (applied_keys y)"
      using that by (auto simp: applied_keys_def keys_of_def)
    from abs_puts_in [OF this] show ?thesis by (simp add: c(1))
  qed
  with c acked show ?thesis by auto
qed

theorem nothing_lost_within_budget_witness:
  "\<exists>y0 y. build_server rev 1000 10 False = Some y0 \<and> reachable sample_env y0 y \<and> y_acked y = [batch_of sample_request]
     \<and> sb_spans (batch_of sample_request) \<noteq> [] \<and> ch_queue (tx (y_ingest y)) = []
     \<and> (\<forall>x \<in> set (sb_spans (batch_of sample_request)).
          ns_span_id (snd x) \<in> set (resident_ids (w_store (y_writer y)) (fst x)))"
proof -
  obtain y0 y where y: "build_server rev 1000 10 False = Some y0" "reachable sample_env y0 y"
    "ch_queue (tx (y_ingest y)) = []" "y_acked y = [batch_of sample_request]" by (rule sample_drained)
  have "attrs_total (y_acked y) < 2 ^ 32" "bytes_total (y_acked y) \<le> 1000"
    using sample_batch_size by (simp_all add: y(4) bytes_total_def)
  from nothing_lost_within_budget [OF iterates_rev y(1) bounded_channel_sample y(2) this]
  have "\<forall>x \<in> set (sb_spans (batch_of sample_request)).
      ns_span_id (snd x) \<in> set (resident_ids (w_store (y_writer y)) (fst x))" unfolding y(3,4) by force
  moreover have "sb_spans (batch_of sample_request) \<noteq> []" using sample_batch_size(3) by (auto simp: keys_of_def)
  ultimately show ?thesis using y by blast
qed

subsection \<open>Types\<close>

text \<open>
  C24. Identifiers keep their types.  \<open>TraceId\<close> and \<open>SpanId\<close> are arrays of 16 and of 8 bytes, while the
  wire carries byte strings of any length.  In every reachable state each span of each batch that
  was ever acknowledged has a trace id of 16 bytes, a span id of 8 and, if it names a parent, a
  parent id of 8; and (below \<open>2^32\<close> attribute pairs applied) the store holds each trace under its own
  id, of 16 bytes and so 32 characters in the API, with span ids of 8 bytes only.
\<close>
theorem ids_well_typed:
  assumes "iterates ord" "build_server ord budget timeout demo = Some y0" "bounded_channel env" "reachable env y0 y"
  shows "(\<forall>b \<in> set (y_acked y). \<forall>(tid, span) \<in> set (sb_spans b).
        length (tid_bytes tid) = 16 \<and> length (sid_bytes (ns_span_id span)) = 8
        \<and> (\<forall>p. ns_parent_span_id span = Some p \<longrightarrow> length (sid_bytes p) = 8))
    \<and> (2 + attrs_total (y_applied y) < 2 ^ 32 \<longrightarrow>
        (\<forall>tid t. trace (w_store (y_writer y)) tid = Some t \<longrightarrow>
           t_trace_id t = tid \<and> length (tid_bytes tid) = 16 \<and> length (to_hex tid) = 32
           \<and> (\<forall>sid \<in> set (t_span_ids t). length (sid_bytes sid) = 8)))"
proof -
  let ?base = "if demo then 2 else 0 :: nat" and ?s = "w_store (y_writer y)"
  have inv: "server_inv ?base y" using server_inv_reachable [OF assms(4,3) server_inv_start [OF assms(1,2)]] .
  then have "\<forall>b \<in> set (y_acked y). \<forall>(tid, span) \<in> set (sb_spans b).
        length (tid_bytes tid) = 16 \<and> length (sid_bytes (ns_span_id span)) = 8
        \<and> (\<forall>p. ns_parent_span_id span = Some p \<longrightarrow> length (sid_bytes p) = 8)"
    by (simp add: server_inv_def batch_ids_wf_def span_ids_wf_def wf_simps case_prod_beta)
  moreover have "t_trace_id t = tid \<and> trace_id_wf tid \<and> length (to_hex tid) = 32
      \<and> (\<forall>sid \<in> set (t_span_ids t). span_id_wf sid)"
    if "2 + attrs_total (y_applied y) < 2 ^ 32" "trace ?s tid = Some t" for tid t
  proof -
    have "?base + attrs_total (y_applied y) < 2 ^ 32" using that(1) by simp
    with inv have st: "store_inv (?base + attrs_total (y_applied y)) ?s" "store_ids_wf ?s" by (auto simp: server_inv_def)
    from st(2) that(2) have ids: "trace_id_wf tid" "\<forall>sid \<in> set (t_span_ids t). span_id_wf sid"
      by (auto simp: store_ids_wf_def)
    then have "length (to_hex tid) = 32" by (simp add: length_to_hex wf_simps)
    moreover from resident_rows [OF st(1) that(2)] have "t_trace_id t = tid" by (metis repr_sel(1))
    ultimately show ?thesis using ids by blast
  qed
  ultimately show ?thesis by (simp add: wf_simps)
qed

theorem ids_well_typed_witness:
  "\<exists>y0 y t. build_server rev 1000 10 False = Some y0 \<and> reachable sample_env y0 y
     \<and> trace (w_store (y_writer y)) (TraceId (replicate 16 1)) = Some t \<and> t_trace_id t = TraceId (replicate 16 1)
     \<and> t_span_ids t \<noteq> []"
proof -
  obtain y0 y where y: "build_server rev 1000 10 False = Some y0" "reachable sample_env y0 y"
    "y_applied y = [batch_of sample_request]"
    "resident_ids (w_store (y_writer y)) = (\<lambda>_. [])(TraceId (replicate 16 1) := [SpanId (replicate 8 2)])"
    by (rule sample_drained)
  from y(4) have "resident_ids (w_store (y_writer y)) (TraceId (replicate 16 1)) = [SpanId (replicate 8 2)]" by simp
  then obtain t where t: "trace (w_store (y_writer y)) (TraceId (replicate 16 1)) = Some t" "t_span_ids t \<noteq> []"
    by (cases "trace (w_store (y_writer y)) (TraceId (replicate 16 1))") (simp_all add: resident_ids_def)
  have "2 + attrs_total (y_applied y) < 2 ^ 32" by (simp add: y(3) sample_batch_size(1))
  with ids_well_typed [OF iterates_rev y(1) bounded_channel_sample y(2)] t(1) have "t_trace_id t = TraceId (replicate 16 1)"
    by blast
  with y(1,2) t show ?thesis by blast
qed

subsection \<open>Reads\<close>

text \<open>What the read API of a running server reads.\<close>
definition api_view :: "server \<Rightarrow> api_state" where
  "api_view y = \<lparr>as_store = w_store (y_writer y), as_receiver = receiver (y_ingest y), as_events_seq = []\<rparr>"

text \<open>Few enough attribute pairs for the offsets, and traces small enough for their string tables.\<close>
definition readable :: "server \<Rightarrow> bool" where
  "readable y \<longleftrightarrow> 2 + attrs_total (y_applied y) < 2 ^ 32
     \<and> (\<forall>tid t. trace (w_store (y_writer y)) tid = Some t \<longrightarrow> 3 * span_count t \<le> 2 ^ 32)"

text \<open>
  C23. Reads never fail.  In every reachable state with fewer than \<open>2^32\<close> attribute pairs applied, for
  any path and any query parameters, \<open>q\<close> missing or valid UTF-8, the list of traces, the attributes of a
  span and a filter are answered without a panic; and if no resident trace has more than \<open>2^32 / 3\<close>
  spans, so is every request to the router, whatever its method, path, route and handler.  A trace
  in the store is never answered with an error: the id the list shows for it parses back to it,
  \<open>get_filter\<close> answers 200 under that id and, up to \<open>2^32 / 3\<close> spans, so does \<open>get_trace\<close>.
\<close>
theorem reads_never_fail:
  assumes "iterates ord" "build_server ord budget timeout demo = Some y0" "bounded_channel env" "reachable env y0 y"
    and "2 + attrs_total (y_applied y) < 2 ^ 32" "iterates ord'" "\<forall>q. params ''q'' = Some q \<longrightarrow> utf8_valid q"
  shows "list_traces ord' (w_store (y_writer y)) \<noteq> None
    \<and> get_attributes (w_store (y_writer y)) path idx \<noteq> None
    \<and> get_filter (w_store (y_writer y)) path params \<noteq> None
    \<and> ((\<forall>tid t. trace (w_store (y_writer y)) tid = Some t \<longrightarrow> 3 * span_count t \<le> 2 ^ 32) \<longrightarrow>
         get_trace (w_store (y_writer y)) path \<noteq> None
         \<and> router matcher refuse ord' (api_view y) meth path params \<noteq> None)
    \<and> (\<forall>tid t. trace (w_store (y_writer y)) tid = Some t \<longrightarrow>
         from_hex (to_hex tid) = Some tid
         \<and> (\<exists>r. get_filter (w_store (y_writer y)) (to_hex tid) params = Some (ApiOk r))
         \<and> (3 * span_count t \<le> 2 ^ 32 \<longrightarrow> (\<exists>p. get_trace (w_store (y_writer y)) (to_hex tid) = Some (ApiOk p))))"
proof -
  let ?base = "if demo then 2 else 0 :: nat" and ?s = "w_store (y_writer y)"
  have "server_inv ?base y" using server_inv_reachable [OF assms(4,3) server_inv_start [OF assms(1,2)]] .
  moreover have "?base + attrs_total (y_applied y) < 2 ^ 32" using assms(5) by simp
  ultimately have inv: "store_inv (?base + attrs_total (y_applied y)) ?s"
    and ids: "\<forall>tid. trace ?s tid \<noteq> None \<longrightarrow> from_hex (to_hex tid) = Some tid"
    by (auto simp: server_inv_def store_ids_wf_def intro: from_hex_to_hex)
  have view: "as_store (api_view y) = ?s" by (simp add: api_view_def)
  have filter: "\<exists>r. get_filter ?s path params = Some r"
    by (rule filter_never_panics [OF inv]) (use assms(7) in blast)
  then have total: "list_traces ord' ?s \<noteq> None" "get_attributes ?s path idx \<noteq> None" "get_filter ?s path params \<noteq> None"
    using list_traces_summaries [OF assms(6) inv] attributes_get.never_panics [OF inv, of path idx] by auto
  have all: "get_trace ?s path \<noteq> None \<and> router matcher refuse ord' (api_view y) meth path params \<noteq> None"
    if few: "\<forall>tid t. trace ?s tid = Some t \<longrightarrow> 3 * span_count t \<le> 2 ^ 32"
  proof -
    have "\<exists>r. router matcher refuse ord' (api_view y) meth path params = Some r"
      by (rule router_answers [OF assms(6) inv [folded view]]) (use assms(7) few view in auto)
    with trace_get.never_panics [OF inv, of path] few show ?thesis by blast
  qed
  have found: "(\<exists>r. get_filter ?s (to_hex tid) params = Some (ApiOk r))
      \<and> (3 * span_count t \<le> 2 ^ 32 \<longrightarrow> (\<exists>p. get_trace ?s (to_hex tid) = Some (ApiOk p)))" if t: "trace ?s tid = Some t" for tid t
  proof -
    have hex: "from_hex (to_hex tid) = Some tid" using ids t by simp
    have "\<exists>r. get_filter ?s (to_hex tid) params = Some (ApiOk r)"
      by (rule filter_resident [OF inv _ hex t]) (use assms(7) in blast)
    with get_trace_resident [OF inv hex t] show ?thesis by blast
  qed
  show ?thesis using total all found ids by blast
qed

text \<open>Once the batch of the sample request is applied, its trace is listed, filtered and shown.\<close>
theorem reads_never_fail_witness:
  "\<exists>y0 y p r. build_server rev 1000 10 False = Some y0 \<and> reachable sample_env y0 y \<and> y_applied y = [batch_of sample_request]
     \<and> list_traces id (w_store (y_writer y)) \<noteq> None
     \<and> get_trace (w_store (y_writer y)) (to_hex (TraceId (replicate 16 1))) = Some (ApiOk p)
     \<and> get_filter (w_store (y_writer y)) (to_hex (TraceId (replicate 16 1))) [''q'' \<mapsto> ''op''] = Some (ApiOk r)
     \<and> router sample_route id id (api_view y) GET ''/api/traces'' [''q'' \<mapsto> ''op''] \<noteq> None"
proof -
  obtain y0 y where y: "build_server rev 1000 10 False = Some y0" "reachable sample_env y0 y"
    "y_applied y = [batch_of sample_request]"
    "resident_ids (w_store (y_writer y)) = (\<lambda>_. [])(TraceId (replicate 16 1) := [SpanId (replicate 8 2)])"
    by (rule sample_drained)
  have one: "tid = TraceId (replicate 16 1) \<and> span_count t = 1 \<or> span_count t = 0"
    if "trace (w_store (y_writer y)) tid = Some t" for tid t
    using that fun_cong [OF y(4), of tid] by (auto simp: resident_ids_def span_count_def split: if_splits)
  from y(4) have "resident_ids (w_store (y_writer y)) (TraceId (replicate 16 1)) \<noteq> []" by simp
  then obtain t where t: "trace (w_store (y_writer y)) (TraceId (replicate 16 1)) = Some t"
    by (cases "trace (w_store (y_writer y)) (TraceId (replicate 16 1))") (simp_all add: resident_ids_def)
  have few: "\<forall>tid t. trace (w_store (y_writer y)) tid = Some t \<longrightarrow> 3 * span_count t \<le> 2 ^ 32" using one by force
  have a: "2 + attrs_total (y_applied y) < 2 ^ 32" using sample_batch_size(1) by (simp add: y(3))
  have q: "\<forall>q. [''q'' \<mapsto> ''op''] ''q'' = Some q \<longrightarrow> utf8_valid q" by (auto simp: byte_def intro!: utf8_valid_ascii)
  from reads_never_fail [where params = "[''q'' \<mapsto> ''op'']" and matcher = sample_route and refuse = id and meth = GET
      and path = "''/api/traces''", OF iterates_rev y(1) bounded_channel_sample y(2) a iterates_id q] t few y(1-3)
  show ?thesis by blast
qed

subsection \<open>Dumping a running server\<close>

lemma reachable_sound_view:
  assumes "iterates ord" "build_server ord budget timeout demo = Some y0" "bounded_channel env" "reachable env y0 y"
    and "readable y"
  shows "sound_view (2 ^ 32) (api_view y)"
proof -
  let ?base = "if demo then 2 else 0 :: nat"
  have "server_inv ?base y" using server_inv_reachable [OF assms(4,3) server_inv_start [OF assms(1,2)]] .
  moreover have room: "?base + attrs_total (y_applied y) < 2 ^ 32" using assms(5) by (simp add: readable_def)
  ultimately have inv: "store_inv (?base + attrs_total (y_applied y)) (w_store (y_writer y))"
    "store_ids_wf (w_store (y_writer y))" by (auto simp: server_inv_def)
  have "store_inv (2 ^ 32) (w_store (y_writer y))" by (rule store_inv_mono [OF inv(1)]) (use room in simp)
  with inv(2) assms(5) show ?thesis by (simp add: sound_view_def api_view_def readable_def store_ids_wf_def)
qed

text \<open>
  C25. Dumping a running server.  Let \<open>ys k\<close> be the state of the server when it serves the client's request \<open>k\<close>,
  any reachable states: exporters and the writer go on in between.  If every trace of the list is
  still resident when its own request comes, \<open>fetch_dump\<close> returns a document with one entry per
  listed trace, in the order of the list, each the payload the trace has at that request, and the
  receiver's state after the last; it makes two requests more than there are traces.  Otherwise, at
  the first trace that has been evicted meanwhile, the dump ends in an error that quotes the 404
  and none of the traces already fetched is reported.
\<close>
theorem dump_of_running_server:
  assumes "iterates ord0" "build_server ord0 budget timeout demo = Some y0" "bounded_channel chan"
    and "\<forall>k. reachable chan y0 (ys k) \<and> readable (ys k)"
    and "web_ok web" "instance_at web addr ord (\<lambda>k. api_view (ys k)) env" "iterates (ord 0)"
    and "es = traces (ord 0) (w_store (y_writer (ys 0)))"
  shows "((\<forall>k < length es. trace (w_store (y_writer (ys (Suc k)))) (fst (es ! k)) \<noteq> None) \<longrightarrow>
        (\<exists>ps. length ps = length es
          \<and> (\<forall>k < length es. get_trace (w_store (y_writer (ys (Suc k)))) (to_hex (fst (es ! k))) = Some (ApiOk (ps ! k)))
          \<and> fetch_dump env 0 addr = (length es + 2, Inr (JObj
              [(''receiver'', canon (json_of_receiver (get_receiver (w_store (y_writer (ys (Suc (length es)))))
                  (receiver (y_ingest (ys (Suc (length es)))))))),
               (''traces'', JArr (map (canon \<circ> json_of_payload) ps))]))))
    \<and> (\<forall>j < length es. (\<forall>k < j. trace (w_store (y_writer (ys (Suc k)))) (fst (es ! k)) \<noteq> None)
          \<and> trace (w_store (y_writer (ys (Suc j)))) (fst (es ! j)) = None \<longrightarrow>
        fetch_dump env 0 addr = (Suc (Suc j),
          Inl (''/api/traces/'' @ to_hex (fst (es ! j)) @ '' returned `'' @ status_text web 404 @ ''`'')))"
proof -
  have sound: "sound_view (2 ^ 32) (api_view (ys k))" for k
    using reachable_sound_view [OF assms(1-3)] assms(4) by blast
  have sel: "as_store (api_view y) = w_store (y_writer y)" "as_receiver (api_view y) = receiver (y_ingest y)" for y
    by (simp_all add: api_view_def)
  note all = fetch_dump_complete [OF assms(5-7) sound, unfolded sel, OF assms(8)]
    and race = fetch_dump_aborts [OF assms(5-7) sound, unfolded sel, OF assms(8)]
  show ?thesis using all race by blast
qed

text \<open>A server that is read while nothing else happens, and one whose only trace is gone at the second request.\<close>
theorem dump_of_running_server_witness:
  "\<exists>y0 y rcv es ps. build_server rev 1000 10 False = Some y0 \<and> reachable sample_env y0 y
     \<and> es = traces id (w_store (y_writer y)) \<and> es \<noteq> [] \<and> length ps = length es
     \<and> fetch_dump (sample_client (\<lambda>_. id) (\<lambda>_. api_view y)) 0 ''127.0.0.1:5317''
         = (length es + 2, Inr (JObj [(''receiver'', rcv), (''traces'', JArr (map (canon \<circ> json_of_payload) ps))]))
     \<and> fetch_dump (sample_client (\<lambda>_. id) (\<lambda>k. api_view (if k = 0 then y else y0))) 0 ''127.0.0.1:5317''
         = (2, Inl (''/api/traces/'' @ to_hex (fst (es ! 0)) @ '' returned `HTTP/1.1 404 Not Found`''))"
proof -
  let ?tid = "TraceId (replicate 16 1)"
  obtain y0 y where y: "build_server rev 1000 10 False = Some y0" "reachable sample_env y0 y"
    "y_applied y = [batch_of sample_request]"
    "resident_ids (w_store (y_writer y)) = (\<lambda>_. [])(?tid := [SpanId (replicate 8 2)])"
    by (rule sample_drained)
  let ?s = "w_store (y_writer y)" and ?ys = "\<lambda>k :: nat. if k = 0 then y else y0"
  have empty: "y_applied y0 = []" "trace (w_store (y_writer y0)) tid = None" for tid
    using y(1) by (auto simp: build_server_plain spawn_writer_def store_new_def trace_def)
  have small: "3 * span_count t \<le> 2 ^ 32" if "trace ?s tid = Some t" for tid t
  proof -
    have "t_span_ids t = resident_ids ?s tid" using that by (simp add: resident_ids_def)
    then show ?thesis by (simp add: y(4) span_count_def)
  qed
  have ok: "readable y" "readable y0"
    using small empty by (simp_all add: readable_def y(3) sample_batch_size(1))
  have reach: "\<forall>k. reachable sample_env y0 y \<and> readable y"
    "\<forall>k. reachable sample_env y0 (?ys k) \<and> readable (?ys k)" using y(2) ok by (auto intro: reachable.start)
  have "resident_ids ?s ?tid \<noteq> []" by (simp add: y(4))
  then obtain t where "trace ?s ?tid = Some t"
    by (cases "trace ?s ?tid") (simp_all add: resident_ids_def)
  from trace_SomeD [OF this] have ne: "traces id ?s \<noteq> []" by (auto simp: traces_def)
  have "trace ?s (fst e) \<noteq> None" if "e \<in> set (traces id ?s)" for e
    using that by (simp add: traces_def trace_def map_of_eq_None_iff del: not_None_eq)
  then have res: "\<forall>k < length (traces id ?s). trace ?s (fst (traces id ?s ! k)) \<noteq> None" by simp
  have status: "status_text sample_web 404 = ''HTTP/1.1 404 Not Found''"
    by (simp add: status_text_def nat_to_string_codes sample_web_def)
  note run = dump_of_running_server [OF iterates_rev y(1) bounded_channel_sample _ web_ok_sample]
  from run [where ord = "\<lambda>_. id" and ys = "\<lambda>_. y" and addr = "''127.0.0.1:5317''", OF reach(1) instance_at_sample iterates_id refl] res
  obtain ps where ps: "length ps = length (traces id ?s)"
    "fetch_dump (sample_client (\<lambda>_. id) (\<lambda>_. api_view y)) 0 ''127.0.0.1:5317''
      = (length (traces id ?s) + 2, Inr (JObj [(''receiver'', canon (json_of_receiver
            (get_receiver ?s (receiver (y_ingest y))))), (''traces'', JArr (map (canon \<circ> json_of_payload) ps))]))"
    by blast
  have gone: "trace (w_store (y_writer (?ys (Suc 0)))) (fst (traces id ?s ! 0)) = None" using empty by simp
  note second = run [where ord = "\<lambda>_. id" and ys = ?ys and addr = "''127.0.0.1:5317''", OF reach(2) instance_at_sample iterates_id refl]
  have first: "traces id (w_store (y_writer (?ys 0))) = traces id ?s" by simp
  have "fetch_dump (sample_client (\<lambda>_. id) (\<lambda>k. api_view (?ys k))) 0 ''127.0.0.1:5317''
      = (Suc (Suc 0), Inl (''/api/traces/'' @ to_hex (fst (traces id ?s ! 0)) @ '' returned `'' @ status_text sample_web 404 @ ''`''))"
    using conjunct2 [OF second, unfolded first] ne gone by blast
  then have "fetch_dump (sample_client (\<lambda>_. id) (\<lambda>k. api_view (?ys k))) 0 ''127.0.0.1:5317''
      = (2, Inl (''/api/traces/'' @ to_hex (fst (traces id ?s ! 0)) @ '' returned `HTTP/1.1 404 Not Found`''))"
    unfolding status by (simp only: append.simps numeral_2_eq_2)
  with ps ne y(1,2) show ?thesis by blast
qed

end
